(* ===== verification/Prelude.thy ===== *)
theory Prelude
  imports Main "HOL-Library.Word" "HOL-Library.Char_ord" "HOL-Library.List_Lexorder"
begin

text \<open>
  Shared vocabulary of the development: machine integer abbreviations, the part of Rust's
  string library that the orchestrator calls (on ASCII text, one \<^typ>\<open>char\<close> per byte), the
  error values, and the state-and-error monad \<open>io\<close> in which every effectful function of
  \<^verbatim>\<open>system/orchestrator/src\<close> is written, with its Hoare triples.
\<close>

named_theorems io_simps \<open>unfolding rules of the effect monad\<close>
named_theorems io_valid \<open>Hoare rules of the effect monad\<close>
named_theorems text_simps \<open>facts on the string operations\<close>

section \<open>Machine integers\<close>

type_synonym u16 = "16 word"
type_synonym u64 = "64 word"

section \<open>Characters and strings\<close>

abbreviation newline :: char where "newline \<equiv> CHR 0x0A"
abbreviation carriage :: char where "carriage \<equiv> CHR 0x0D"
abbreviation quote1 :: char where "quote1 \<equiv> CHR 0x27"
abbreviation quote2 :: char where "quote2 \<equiv> CHR 0x22"
abbreviation backslash :: char where "backslash \<equiv> CHR 0x5C"

definition is_space :: "char \<Rightarrow> bool" where
  "is_space c \<longleftrightarrow> c \<in> {CHR 0x09, CHR 0x0A, CHR 0x0B, CHR 0x0C, CHR 0x0D, CHR 0x20}"

definition is_digit :: "char \<Rightarrow> bool" where
  "is_digit c \<longleftrightarrow> 48 \<le> (of_char c :: nat) \<and> (of_char c :: nat) \<le> 57"

definition is_alnum :: "char \<Rightarrow> bool" where
  "is_alnum c \<longleftrightarrow> is_digit c \<or>
     (65 \<le> (of_char c :: nat) \<and> (of_char c :: nat) \<le> 90) \<or>
     (97 \<le> (of_char c :: nat) \<and> (of_char c :: nat) \<le> 122)"

definition trim_start :: "string \<Rightarrow> string" where
  "trim_start s = dropWhile is_space s"

definition trim_end :: "string \<Rightarrow> string" where
  "trim_end s = rev (dropWhile is_space (rev s))"

definition trim :: "string \<Rightarrow> string" where
  "trim s = trim_end (trim_start s)"

text \<open>\<open>strip_prefix p s\<close> is \<^verbatim>\<open>s.strip_prefix(p)\<close>; the pattern comes first throughout.\<close>

fun strip_prefix :: "'a list \<Rightarrow> 'a list \<Rightarrow> 'a list option" where
  "strip_prefix [] s = Some s"
| "strip_prefix (p # ps) [] = None"
| "strip_prefix (p # ps) (c # cs) = (if p = c then strip_prefix ps cs else None)"

definition starts_with :: "'a list \<Rightarrow> 'a list \<Rightarrow> bool" where
  "starts_with p s \<longleftrightarrow> strip_prefix p s \<noteq> None"

definition strip_suffix :: "'a list \<Rightarrow> 'a list \<Rightarrow> 'a list option" where
  "strip_suffix p s = map_option rev (strip_prefix (rev p) (rev s))"

definition ends_with :: "'a list \<Rightarrow> 'a list \<Rightarrow> bool" where
  "ends_with p s \<longleftrightarrow> strip_suffix p s \<noteq> None"

text \<open>
  \<open>cut_at p s\<close> splits at the first occurrence of \<open>p\<close>: the text before it and the text after it
  (\<^verbatim>\<open>find\<close> plus slicing, and \<^verbatim>\<open>split_once\<close>).
\<close>

fun cut_at :: "'a list \<Rightarrow> 'a list \<Rightarrow> ('a list \<times> 'a list) option" where
  "cut_at p [] = (if p = [] then Some ([], []) else None)"
| "cut_at p (c # cs) =
     (case strip_prefix p (c # cs) of
        Some rest \<Rightarrow> Some ([], rest)
      | None \<Rightarrow> map_option (\<lambda>(a, b). (c # a, b)) (cut_at p cs))"

definition contains_str :: "'a list \<Rightarrow> 'a list \<Rightarrow> bool" where
  "contains_str p s \<longleftrightarrow> cut_at p s \<noteq> None"

definition split_once :: "'a \<Rightarrow> 'a list \<Rightarrow> ('a list \<times> 'a list) option" where
  "split_once c s = cut_at [c] s"

text \<open>The last occurrence of a character (\<^verbatim>\<open>rfind\<close> plus slicing).\<close>

definition rcut_at :: "'a \<Rightarrow> 'a list \<Rightarrow> ('a list \<times> 'a list) option" where
  "rcut_at c s = map_option (\<lambda>(a, b). (rev b, rev a)) (split_once c (rev s))"

text \<open>\<^verbatim>\<open>s.replace(p, r)\<close> for a non-empty pattern, left to right without overlaps.\<close>

lemma strip_prefix_length: "strip_prefix p s = Some r \<Longrightarrow> length r + length p = length s"
  by (induction p s rule: strip_prefix.induct) (auto split: if_splits)

lemma strip_prefix_shorter:
  assumes "strip_prefix p s = Some r" and "p \<noteq> []"
  shows "length r < length s"
  using strip_prefix_length [OF assms(1)] assms(2) by (cases p) auto

function replace_str :: "'a list \<Rightarrow> 'a list \<Rightarrow> 'a list \<Rightarrow> 'a list" where
  "replace_str p r s =
     (case s of
        [] \<Rightarrow> []
      | c # cs \<Rightarrow>
          (if p = [] then s
           else (case strip_prefix p s of
                   Some rest \<Rightarrow> r @ replace_str p r rest
                 | None \<Rightarrow> c # replace_str p r cs)))"
  by pat_completeness auto
termination
  by (relation "measure (\<lambda>(p, r, s). length s)") (auto dest: strip_prefix_shorter)

declare replace_str.simps [simp del]

text \<open>\<^verbatim>\<open>s.trim_start_matches(p)\<close> for a string pattern: the pattern is stripped as often as it occurs.\<close>

function trim_start_matches :: "'a list \<Rightarrow> 'a list \<Rightarrow> 'a list" where
  "trim_start_matches p s =
     (if p = [] then s
      else (case strip_prefix p s of Some rest \<Rightarrow> trim_start_matches p rest | None \<Rightarrow> s))"
  by pat_completeness auto
termination
  by (relation "measure (\<lambda>(p, s). length s)") (auto dest: strip_prefix_shorter)

declare trim_start_matches.simps [simp del]

fun split_on :: "'a \<Rightarrow> 'a list \<Rightarrow> 'a list list" where
  "split_on c [] = [[]]"
| "split_on c (x # xs) =
     (if x = c then [] # split_on c xs
      else (case split_on c xs of [] \<Rightarrow> [[x]] | w # ws \<Rightarrow> (x # w) # ws))"

fun join :: "'a list \<Rightarrow> 'a list list \<Rightarrow> 'a list" where
  "join sep [] = []"
| "join sep [x] = x"
| "join sep (x # y # ys) = x @ sep @ join sep (y # ys)"

text \<open>
  \<^verbatim>\<open>str::lines\<close>: a line ends at a newline, a carriage return before that newline is dropped,
  and text after the last newline is a line unless it is empty.
\<close>

definition chop_cr :: "string \<Rightarrow> string" where
  "chop_cr l = (if l \<noteq> [] \<and> last l = carriage then butlast l else l)"

fun lines_from :: "string \<Rightarrow> string \<Rightarrow> string list" where
  "lines_from cur [] = (if cur = [] then [] else [rev cur])"
| "lines_from cur (c # cs) =
     (if c = newline then chop_cr (rev cur) # lines_from [] cs else lines_from (c # cur) cs)"

definition lines :: "string \<Rightarrow> string list" where
  "lines s = lines_from [] s"

fun words_from :: "string \<Rightarrow> string \<Rightarrow> string list" where
  "words_from cur [] = (if cur = [] then [] else [rev cur])"
| "words_from cur (c # cs) =
     (if is_space c
      then (if cur = [] then words_from [] cs else rev cur # words_from [] cs)
      else words_from (c # cur) cs)"

definition split_whitespace :: "string \<Rightarrow> string list" where
  "split_whitespace s = words_from [] s"

section \<open>Decimal numbers\<close>

definition digit_char :: "nat \<Rightarrow> char" where
  "digit_char d = char_of (48 + d)"

fun show_nat :: "nat \<Rightarrow> string" where
  "show_nat n = (if n < 10 then [digit_char n] else show_nat (n div 10) @ [digit_char (n mod 10)])"

declare show_nat.simps [simp del]

definition show_u16 :: "u16 \<Rightarrow> string" where
  "show_u16 w = show_nat (unat w)"

fun digits_from :: "nat \<Rightarrow> string \<Rightarrow> nat option" where
  "digits_from acc [] = Some acc"
| "digits_from acc (c # cs) =
     (if is_digit c then digits_from (10 * acc + (of_char c - 48)) cs else None)"

text \<open>
  \<^verbatim>\<open>parse::<uN>\<close> with values below \<open>bound\<close>: an optional \<open>+\<close>, then at least one digit, and an
  error on overflow.
\<close>

definition parse_unsigned :: "nat \<Rightarrow> string \<Rightarrow> nat option" where
  "parse_unsigned bound s =
     (let body = (case s of [] \<Rightarrow> [] | c # cs \<Rightarrow> if c = CHR ''+'' then cs else s)
      in if body = [] then None
         else (case digits_from 0 body of
                 Some n \<Rightarrow> if n < bound then Some n else None
               | None \<Rightarrow> None))"

text \<open>\<^verbatim>\<open>parse::<iN>\<close> for values in \<open>[- bound, bound)\<close>: a leading \<open>-\<close> as well.\<close>

definition parse_signed :: "nat \<Rightarrow> string \<Rightarrow> int option" where
  "parse_signed bound s =
     (case s of
        [] \<Rightarrow> None
      | c # cs \<Rightarrow>
          (if c = CHR ''-''
           then (if cs = [] then None
                 else (case digits_from 0 cs of
                         Some n \<Rightarrow> if n \<le> bound then Some (- int n) else None
                       | None \<Rightarrow> None))
           else map_option int (parse_unsigned bound s)))"

definition parse_u16 :: "string \<Rightarrow> u16 option" where
  "parse_u16 s = map_option of_nat (parse_unsigned (2 ^ 16) s)"

text \<open>A port is printed from its binary integer value, which is what evaluation uses.\<close>

function show_digits :: "int \<Rightarrow> string" where
  "show_digits i = (if i < 10 then [digit_char (nat i)] else show_digits (i div 10) @ [digit_char (nat (i mod 10))])"
  by auto
termination by (relation "measure nat") auto

declare show_digits.simps [simp del]

lemma show_digits_nat: "0 \<le> i \<Longrightarrow> show_digits i = show_nat (nat i)"
proof (induction i rule: show_digits.induct)
  case (1 i)
  have "nat i < 10 \<longleftrightarrow> i < 10" using 1(2) by (simp add: nat_less_iff)
  with 1 show ?case
    by (subst show_digits.simps, subst show_nat.simps) (auto simp: nat_div_distrib nat_mod_distrib)
qed

lemma show_u16_code [code]: "show_u16 w = show_digits (uint w)"
  by (simp add: show_digits_nat show_u16_def)

text \<open>The parsers, too, are evaluated on binary integers.\<close>

fun digits_int :: "int \<Rightarrow> string \<Rightarrow> int option" where
  "digits_int acc [] = Some acc"
| "digits_int acc (c # cs) =
     (if is_digit c then digits_int (10 * acc + (of_char c - 48)) cs else None)"

lemma digits_int_from: "digits_int (int acc) cs = map_option int (digits_from acc cs)"
proof (induction cs arbitrary: acc)
  case (Cons c cs)
  have "is_digit c \<Longrightarrow> (of_char c :: int) - 48 = int (of_char c - 48)"
    using of_nat_of_char [of c, where 'a = int] by (simp add: is_digit_def of_nat_diff del: of_nat_of_char)
  then show ?case using Cons [of "10 * acc + (of_char c - 48)"] by simp
qed simp

definition parse_below :: "int \<Rightarrow> string \<Rightarrow> int option" where
  "parse_below bound s =
     (let body = (case s of [] \<Rightarrow> [] | c # cs \<Rightarrow> if c = CHR ''+'' then cs else s)
      in if body = [] then None
         else (case digits_int 0 body of
                 Some n \<Rightarrow> if n < bound then Some n else None
               | None \<Rightarrow> None))"

lemma parse_below_unsigned: "parse_below (int b) s = map_option int (parse_unsigned b s)"
  using digits_int_from [of 0]
  by (auto simp: parse_below_def parse_unsigned_def Let_def split: option.splits list.splits)

lemma parse_u16_code [code]: "parse_u16 s = map_option of_int (parse_below 65536 s)"
  using parse_below_unsigned [of 65536 s] by (simp add: parse_u16_def option.map_comp o_def)

definition parse_i64 :: "string \<Rightarrow> int option" where
  "parse_i64 s = parse_signed (2 ^ 63) s"

lemma parse_i64_code [code]:
  "parse_i64 s =
     (case s of
        [] \<Rightarrow> None
      | c # cs \<Rightarrow>
          (if c = CHR ''-''
           then (if cs = [] then None
                 else (case digits_int 0 cs of
                         Some n \<Rightarrow> if n \<le> 9223372036854775808 then Some (- n) else None
                       | None \<Rightarrow> None))
           else parse_below 9223372036854775808 s))"
  using digits_int_from [of 0] parse_below_unsigned [of "2 ^ 63" s]
  by (auto simp: parse_i64_def parse_signed_def split: option.splits list.splits)

section \<open>Facts on the string operations\<close>

lemma strip_prefix_Some_iff [text_simps]: "strip_prefix p s = Some r \<longleftrightarrow> s = p @ r"
  by (induction p s rule: strip_prefix.induct) auto

lemma strip_prefix_append [simp]: "strip_prefix p (p @ r) = Some r"
  by (simp add: strip_prefix_Some_iff)

lemma strip_prefix_None_iff [text_simps]: "strip_prefix p s = None \<longleftrightarrow> (\<nexists>r. s = p @ r)"
  by (metis not_None_eq strip_prefix_Some_iff)

lemma strip_suffix_Some_iff [text_simps]: "strip_suffix p s = Some r \<longleftrightarrow> s = r @ p"
proof -
  have "strip_suffix p s = Some r \<longleftrightarrow> strip_prefix (rev p) (rev s) = Some (rev r)"
    by (auto simp: strip_suffix_def)
  also have "\<dots> \<longleftrightarrow> rev s = rev p @ rev r" by (simp add: strip_prefix_Some_iff)
  also have "\<dots> \<longleftrightarrow> s = r @ p" by (metis rev_append rev_rev_ident)
  finally show ?thesis .
qed

lemma strip_suffix_append [simp]: "strip_suffix p (r @ p) = Some r"
  by (simp add: strip_suffix_Some_iff)

lemma strip_suffix_None_iff [text_simps]: "strip_suffix p s = None \<longleftrightarrow> (\<nexists>r. s = r @ p)"
  by (metis not_None_eq strip_suffix_Some_iff)

lemma starts_with_iff [text_simps]: "starts_with p s \<longleftrightarrow> (\<exists>r. s = p @ r)"
  by (auto simp: starts_with_def strip_prefix_Some_iff)

lemma ends_with_iff [text_simps]: "ends_with p s \<longleftrightarrow> (\<exists>r. s = r @ p)"
  by (auto simp: ends_with_def strip_suffix_Some_iff)

lemma cut_at_Some: "cut_at p s = Some (a, b) \<Longrightarrow> s = a @ p @ b"
  by (induction p s arbitrary: a b rule: cut_at.induct)
    (auto simp: strip_prefix_Some_iff split: if_splits option.splits)

lemma cut_at_None: "cut_at p s = None \<Longrightarrow> s \<noteq> a @ p @ b"
proof (induction p s arbitrary: a rule: cut_at.induct)
  case (1 p)
  then show ?case by (auto split: if_splits)
next
  case (2 p c cs)
  then have n: "strip_prefix p (c # cs) = None" and r: "cut_at p cs = None"
    by (auto split: option.splits)
  show ?case
  proof (cases a)
    case Nil
    with n show ?thesis by (auto simp: strip_prefix_None_iff)
  next
    case (Cons x xs)
    with "2.IH" [OF n r, of xs] show ?thesis by auto
  qed
qed

lemma contains_str_iff [text_simps]: "contains_str p s \<longleftrightarrow> (\<exists>a b. s = a @ p @ b)"
  by (metis contains_str_def cut_at_None cut_at_Some not_None_eq surj_pair)

lemma split_once_Some: "split_once c s = Some (a, b) \<Longrightarrow> s = a @ c # b"
  by (auto simp: split_once_def dest: cut_at_Some)

lemma split_once_fresh: "split_once c s = Some (a, b) \<Longrightarrow> c \<notin> set a"
  unfolding split_once_def
  by (induction "[c]" s arbitrary: a b rule: cut_at.induct)
    (auto split: if_splits option.splits)

lemma split_once_append [simp]: "c \<notin> set a \<Longrightarrow> split_once c (a @ c # b) = Some (a, b)"
  by (induction a) (auto simp: split_once_def)

lemma split_once_None_iff [text_simps]: "split_once c s = None \<longleftrightarrow> c \<notin> set s"
  unfolding split_once_def
  by (induction s) (auto split: if_splits option.splits)

lemma trim_end_snoc_space: "is_space c \<Longrightarrow> trim_end (s @ [c]) = trim_end s"
  by (simp add: trim_end_def)

lemma trim_end_id: "s = [] \<or> \<not> is_space (last s) \<Longrightarrow> trim_end s = s"
  by (cases s rule: rev_cases) (auto simp: trim_end_def)

lemma trim_start_id: "s = [] \<or> \<not> is_space (hd s) \<Longrightarrow> trim_start s = s"
  by (cases s) (auto simp: trim_start_def)

lemma trim_id: "\<not> is_space (hd s) \<Longrightarrow> \<not> is_space (last s) \<Longrightarrow> trim s = s"
  by (simp add: trim_def trim_start_id trim_end_id)

lemma trim_newline: "s \<noteq> [] \<Longrightarrow> \<not> is_space (hd s) \<Longrightarrow> \<not> is_space (last s) \<Longrightarrow> trim (s @ [newline]) = s"
  by (simp add: trim_def trim_start_id trim_end_id trim_end_snoc_space is_space_def)

subsection \<open>Decimal printing and parsing\<close>

lemma is_digit_digit_char [simp]: "d < 10 \<Longrightarrow> is_digit (digit_char d)"
  by (simp add: is_digit_def digit_char_def)

lemma of_char_digit_char [simp]: "d < 10 \<Longrightarrow> (of_char (digit_char d) :: nat) = 48 + d"
  by (simp add: digit_char_def)

lemma digits_from_append:
  "digits_from acc (xs @ ys) =
     (case digits_from acc xs of Some n \<Rightarrow> digits_from n ys | None \<Rightarrow> None)"
  by (induction xs arbitrary: acc) auto

lemma digits_from_show_nat: "digits_from 0 (show_nat n) = Some n"
proof (induction n rule: show_nat.induct)
  case (1 n)
  show ?case
  proof (cases "n < 10")
    case True
    then show ?thesis by (simp add: show_nat.simps [of n])
  next
    case False
    with 1 show ?thesis by (simp add: show_nat.simps [of n] digits_from_append)
  qed
qed

lemma show_nat_digits: "c \<in> set (show_nat n) \<Longrightarrow> is_digit c"
proof (induction n rule: show_nat.induct)
  case (1 n)
  then show ?case by (cases "n < 10") (auto simp: show_nat.simps [of n])
qed

lemma show_nat_nonempty [simp]: "show_nat n \<noteq> []"
  by (subst show_nat.simps) simp

lemma show_nat_inject [simp]: "show_nat m = show_nat n \<longleftrightarrow> m = n"
  by (metis digits_from_show_nat option.inject)

lemma show_u16_inject [simp]: "show_u16 a = show_u16 b \<longleftrightarrow> a = b"
  by (auto simp: show_u16_def intro: unsigned_word_eqI)

lemma parse_unsigned_show_nat: "n < bound \<Longrightarrow> parse_unsigned bound (show_nat n) = Some n"
proof -
  assume n: "n < bound"
  obtain c cs where s: "show_nat n = c # cs" by (cases "show_nat n") auto
  then have "is_digit c" using show_nat_digits [of c n] by simp
  then have "c \<noteq> CHR ''+''" by (auto simp: is_digit_def)
  with n s show ?thesis
    using digits_from_show_nat [of n] by (simp add: parse_unsigned_def)
qed

lemma parse_unsigned_bound: "parse_unsigned bound s = Some n \<Longrightarrow> n < bound"
  by (auto simp: parse_unsigned_def Let_def split: if_splits option.splits)

lemma parse_u16_show_u16: "parse_u16 (show_u16 w) = Some w"
proof -
  have "unat w < 2 ^ 16" using unsigned_less [of w] by simp
  then show ?thesis by (simp add: parse_u16_def show_u16_def parse_unsigned_show_nat)
qed

subsection \<open>Lines and words\<close>

lemma lines_from_line:
  "newline \<notin> set l \<Longrightarrow>
   lines_from cur (l @ newline # rest) = chop_cr (rev cur @ l) # lines_from [] rest"
  by (induction l arbitrary: cur) auto

lemma lines_Nil [simp]: "lines [] = []"
  by (simp add: lines_def)

lemma lines_Cons_line:
  "newline \<notin> set l \<Longrightarrow> lines (l @ newline # rest) = chop_cr l # lines rest"
  by (simp add: lines_def lines_from_line)

lemma lines_unlines:
  "\<forall>l \<in> set ls. newline \<notin> set l \<and> carriage \<notin> set l \<Longrightarrow>
   lines (concat (map (\<lambda>l. l @ [newline]) ls)) = ls"
proof (induction ls)
  case (Cons l ls)
  then have "chop_cr l = l" by (auto simp: chop_cr_def dest: last_in_set)
  with Cons show ?case by (simp add: lines_Cons_line)
qed simp

lemma words_from_word:
  "\<forall>c \<in> set w. \<not> is_space c \<Longrightarrow> words_from cur (w @ rest) = words_from (rev w @ cur) rest"
  by (induction w arbitrary: cur) auto

lemma split_whitespace_word:
  assumes "\<forall>c \<in> set w. \<not> is_space c" and "w \<noteq> []"
  shows "split_whitespace (w @ CHR '' '' # rest) = w # split_whitespace rest"
    and "split_whitespace w = [w]"
  using assms words_from_word [of w "[]" "CHR '' '' # rest"] words_from_word [of w "[]" "[]"]
  by (auto simp: split_whitespace_def is_space_def)

lemma is_digit_not_space: "is_digit c \<Longrightarrow> \<not> is_space c"
  by (auto simp: is_digit_def is_space_def)

lemma show_nat_no_space: "\<forall>c \<in> set (show_nat n). \<not> is_space c"
  using show_nat_digits is_digit_not_space by blast

definition show_int :: "int \<Rightarrow> string" where
  "show_int i = (if i < 0 then CHR ''-'' # show_nat (nat (- i)) else show_nat (nat i))"

lemma show_int_nonempty [simp]: "show_int i \<noteq> []"
  by (simp add: show_int_def)

lemma show_int_no_space: "\<forall>c \<in> set (show_int i). \<not> is_space c"
  using show_nat_no_space by (simp add: show_int_def is_space_def)

lemma parse_signed_show_int:
  assumes "- int b \<le> i" and "i < int b"
  shows "parse_signed b (show_int i) = Some i"
proof (cases "i < 0")
  case True
  with assms show ?thesis
    by (simp add: show_int_def parse_signed_def digits_from_show_nat)
next
  case False
  obtain c cs where s: "show_nat (nat i) = c # cs" by (cases "show_nat (nat i)") auto
  then have "is_digit c" using show_nat_digits [of c "nat i"] by simp
  then have "c \<noteq> CHR ''-''" by (auto simp: is_digit_def)
  moreover have "parse_unsigned b (show_nat (nat i)) = Some (nat i)"
    using False assms by (intro parse_unsigned_show_nat) auto
  ultimately show ?thesis using False s by (simp add: show_int_def parse_signed_def)
qed

lemma show_nat_no_newline: "newline \<notin> set (show_nat n)" "carriage \<notin> set (show_nat n)"
  using show_nat_no_space by (auto simp: is_space_def)

lemma show_int_no_newline: "newline \<notin> set (show_int n)" "carriage \<notin> set (show_int n)"
  using show_int_no_space by (auto simp: is_space_def)

end
