(* ===== verification/Effects.thy ===== *)
theory Effects
  imports Prelude
begin

text \<open>
  Error values and the effect monad. An \<^verbatim>\<open>anyhow::Result\<close> function that touches the host is a
  value of type \<open>('s, 'a) io\<close>: it takes the host state and returns either an error or a result,
  with the new state in both cases, since an early \<^verbatim>\<open>?\<close> return keeps the effects made before it.
  Console output is not modelled.
\<close>

section \<open>Errors\<close>

datatype docker_error =
    ServerStatus nat  \<comment> \<open>\<^verbatim>\<open>DockerResponseServerError\<close> with its status code\<close>
  | Transport         \<comment> \<open>any other client error\<close>

text \<open>
  One constructor per way of failing in the source; the arguments are the values its message
  names. \<open>check_failure\<close> is one line of the report that \<^verbatim>\<open>validate::check_deploy\<close> collects.
\<close>

datatype error =
    IoError string
  | ParseError string
  | DockerError docker_error string
  | SpawnError string
  | CommandFailed string
  | PreflightFailed string
  | TailnetIpMissing
  | HealthPortUnknown string string
  | UnclosedPlaceholder string
  | MissingEnvVar string string
  | DoesNotReturn
  | InvalidLockName string
  | DeployInProgress
  | PullFailed string
  | ValidationFailed "check_failure list"
  | CutoverRefused string string
  | NoLocalImagesFor string
  | StalePreviewFor string string
  | HealthTimeout string
  | NoActiveSha string
  | ConstraintViolation string
  | NoPreviewPort string
  | MissingArgument string
  | ProcessExit nat
  | ToolError string
and check_failure =
    MissingRequiredEnv string
  | HostPathSubstitution error
  | HostPathMissing string
  | NamedVolume string error
  | ImagePull error
  | PortInUse "16 word"
  | UdpWithoutFixedPort string
  | UdpWithSubdomain string

section \<open>The effect monad\<close>

type_synonym 'a res = "error + 'a"
type_synonym ('s, 'a) io = "'s \<Rightarrow> 'a res \<times> 's"

definition io_return :: "'a \<Rightarrow> ('s, 'a) io" where
  "io_return a s = (Inr a, s)"

definition io_fail :: "error \<Rightarrow> ('s, 'a) io" where
  "io_fail e s = (Inl e, s)"

definition io_bind :: "('s, 'a) io \<Rightarrow> ('a \<Rightarrow> ('s, 'b) io) \<Rightarrow> ('s, 'b) io" where
  "io_bind m f s = (case m s of (Inl e, t) \<Rightarrow> (Inl e, t) | (Inr a, t) \<Rightarrow> f a t)"

definition io_then :: "('s, 'a) io \<Rightarrow> ('s, 'b) io \<Rightarrow> ('s, 'b) io" where
  "io_then m k = io_bind m (\<lambda>_. k)"

text \<open>
  \<open>io_try\<close> hands the result, error or not, to the caller, as a \<^verbatim>\<open>match\<close> on it does.
  \<open>DoesNotReturn\<close> stands for a call that never comes back: no caller can observe it, so it is
  the one error value that passes through.
\<close>

definition io_try :: "('s, 'a) io \<Rightarrow> ('s, 'a res) io" where
  "io_try m s =
     (case m s of
        (Inl e, t) \<Rightarrow> if e = DoesNotReturn then (Inl e, t) else (Inr (Inl e), t)
      | (Inr a, t) \<Rightarrow> (Inr (Inr a), t))"

definition io_lift :: "'a res \<Rightarrow> ('s, 'a) io" where
  "io_lift r s = (r, s)"

definition io_read :: "('s \<Rightarrow> 'a) \<Rightarrow> ('s, 'a) io" where
  "io_read f s = (Inr (f s), s)"

definition io_modify :: "('s \<Rightarrow> 's) \<Rightarrow> ('s, unit) io" where
  "io_modify f s = (Inr (), f s)"

definition io_when :: "bool \<Rightarrow> ('s, unit) io \<Rightarrow> ('s, unit) io" where
  "io_when b m = (if b then m else io_return ())"

primrec io_each :: "('a \<Rightarrow> ('s, unit) io) \<Rightarrow> 'a list \<Rightarrow> ('s, unit) io" where
  "io_each f [] = io_return ()"
| "io_each f (x # xs) = io_then (f x) (io_each f xs)"

primrec io_map :: "('a \<Rightarrow> ('s, 'b) io) \<Rightarrow> 'a list \<Rightarrow> ('s, 'b list) io" where
  "io_map f [] = io_return []"
| "io_map f (x # xs) = io_bind (f x) (\<lambda>y. io_bind (io_map f xs) (\<lambda>ys. io_return (y # ys)))"

lemmas io_defs = io_return_def io_fail_def io_bind_def io_then_def io_try_def io_lift_def
  io_read_def io_modify_def io_when_def

lemma io_apply [io_simps]:
  "io_return a s = (Inr a, s)"
  "io_fail e s = (Inl e, s)"
  "io_lift r s = (r, s)"
  "io_read f s = (Inr (f s), s)"
  "io_modify g s = (Inr (), g s)"
  by (simp_all add: io_defs)

lemma io_bind_apply [io_simps]:
  "m s = (Inr a, t) \<Longrightarrow> io_bind m f s = f a t"
  "m s = (Inl e, t) \<Longrightarrow> io_bind m f s = (Inl e, t)"
  by (simp_all add: io_bind_def)

lemma io_bind_laws [simp]:
  "io_bind (io_return a) f = f a"
  "io_bind m io_return = m"
  "io_bind (io_bind m f) g = io_bind m (\<lambda>a. io_bind (f a) g)"
  "io_bind (io_fail e) f = io_fail e"
  by (auto simp: io_defs fun_eq_iff split: sum.splits prod.splits)

subsection \<open>Hoare triples\<close>

text \<open>\<open>io_triple P m Q E\<close>: from a state in \<open>P\<close>, a result satisfies \<open>Q\<close> and an error leaves \<open>E\<close>.\<close>

definition io_triple ::
  "('s \<Rightarrow> bool) \<Rightarrow> ('s, 'a) io \<Rightarrow> ('a \<Rightarrow> 's \<Rightarrow> bool) \<Rightarrow> ('s \<Rightarrow> bool) \<Rightarrow> bool" where
  "io_triple P m Q E \<longleftrightarrow>
     (\<forall>s. P s \<longrightarrow> (case m s of (Inl e, t) \<Rightarrow> E t | (Inr a, t) \<Rightarrow> Q a t))"

definition io_keeps :: "('s \<Rightarrow> bool) \<Rightarrow> ('s, 'a) io \<Rightarrow> bool" where
  "io_keeps P m \<longleftrightarrow> (\<forall>s. P s \<longrightarrow> P (snd (m s)))"

lemma io_tripleI:
  assumes "\<And>s a t. P s \<Longrightarrow> m s = (Inr a, t) \<Longrightarrow> Q a t"
    and "\<And>s e t. P s \<Longrightarrow> m s = (Inl e, t) \<Longrightarrow> E t"
  shows "io_triple P m Q E"
  using assms by (fastforce simp: io_triple_def split: prod.splits sum.splits)

lemma io_tripleD:
  assumes "io_triple P m Q E" and "P s"
  shows "m s = (Inr a, t) \<Longrightarrow> Q a t" and "m s = (Inl e, t) \<Longrightarrow> E t"
  using assms by (fastforce simp: io_triple_def)+

lemma io_triple_conj:
  "io_triple P m Q E \<Longrightarrow> io_triple P' m Q' E' \<Longrightarrow>
   io_triple (\<lambda>s. P s \<and> P' s) m (\<lambda>a s. Q a s \<and> Q' a s) (\<lambda>s. E s \<and> E' s)"
  by (fastforce simp: io_triple_def split: prod.splits sum.splits)

lemma io_triple_weaken:
  assumes "io_triple P' m Q' E'" and "\<And>s. P s \<Longrightarrow> P' s"
    and "\<And>a s. Q' a s \<Longrightarrow> Q a s" and "\<And>s. E' s \<Longrightarrow> E s"
  shows "io_triple P m Q E"
  using assms by (fastforce simp: io_triple_def split: prod.splits sum.splits)

lemma io_triple_bind [io_valid]:
  assumes "io_triple P m R E" and "\<And>a. io_triple (R a) (f a) Q E"
  shows "io_triple P (io_bind m f) Q E"
  using assms by (fastforce simp: io_triple_def io_bind_def split: prod.splits sum.splits)

lemma io_triple_then [io_valid]:
  assumes "io_triple P m (\<lambda>_. R) E" and "io_triple R k Q E"
  shows "io_triple P (io_then m k) Q E"
  unfolding io_then_def by (rule io_triple_bind [OF assms(1)]) (rule assms(2))

lemma io_triple_return [io_valid]: "io_triple (Q a) (io_return a) Q E"
  by (simp add: io_triple_def io_return_def)

lemma io_triple_fail [io_valid]: "io_triple E (io_fail e) Q E"
  by (simp add: io_triple_def io_fail_def)

lemma io_triple_if [io_valid]:
  assumes "b \<Longrightarrow> io_triple P m Q E" and "\<not> b \<Longrightarrow> io_triple P m' Q E"
  shows "io_triple P (if b then m else m') Q E"
  using assms by simp

lemma io_triple_iff:
  "io_triple P m Q E \<longleftrightarrow> (\<forall>s. P s \<longrightarrow>
     (\<forall>a t. m s = (Inr a, t) \<longrightarrow> Q a t) \<and> (\<forall>e t. m s = (Inl e, t) \<longrightarrow> E t))"
  unfolding io_triple_def by (auto split: prod.splits sum.splits)

lemma io_triple_try [io_valid]:
  assumes "io_triple P m (\<lambda>a. Q (Inr a)) (\<lambda>s. (\<forall>e. Q (Inl e) s) \<and> E s)"
  shows "io_triple P (io_try m) Q E"
  unfolding io_triple_def
proof (intro allI impI)
  fix s assume "P s"
  with assms show "case io_try m s of (Inl e, t) \<Rightarrow> E t | (Inr a, t) \<Rightarrow> Q a t"
    by (cases "m s"; cases "fst (m s)") (auto simp: io_triple_iff io_try_def)
qed

lemma io_keeps_iff_triple: "io_keeps P m \<longleftrightarrow> io_triple P m (\<lambda>_. P) P"
proof -
  have "P (snd (m s)) \<longleftrightarrow> (case m s of (Inl e, t) \<Rightarrow> P t | (Inr a, t) \<Rightarrow> P t)" for s
    by (simp split: prod.splits sum.splits)
  then show ?thesis by (simp add: io_keeps_def io_triple_def)
qed

lemma io_keepsD: "io_keeps P m \<Longrightarrow> P s \<Longrightarrow> m s = (r, t) \<Longrightarrow> P t"
  by (fastforce simp: io_keeps_def)

lemma io_keeps_bind [io_valid]:
  "io_keeps P m \<Longrightarrow> (\<And>a. io_keeps P (f a)) \<Longrightarrow> io_keeps P (io_bind m f)"
  by (fastforce simp: io_keeps_def io_bind_def split: prod.splits sum.splits)

lemma io_keeps_then [io_valid]: "io_keeps P m \<Longrightarrow> io_keeps P k \<Longrightarrow> io_keeps P (io_then m k)"
  by (simp add: io_then_def io_keeps_bind)

lemma io_keeps_basic [io_valid]:
  "io_keeps P (io_return a)" "io_keeps P (io_fail e)" "io_keeps P (io_lift r)"
  "io_keeps P (io_read g)"
  by (simp_all add: io_keeps_def io_defs)

lemma io_keeps_try [io_valid]: "io_keeps P m \<Longrightarrow> io_keeps P (io_try m)"
  by (simp add: io_keeps_def io_try_def split_beta split: sum.splits)

lemma io_keeps_when [io_valid]: "(b \<Longrightarrow> io_keeps P m) \<Longrightarrow> io_keeps P (io_when b m)"
  by (simp add: io_when_def io_keeps_basic)

lemma io_keeps_if [io_valid]:
  "(b \<Longrightarrow> io_keeps P m) \<Longrightarrow> (\<not> b \<Longrightarrow> io_keeps P m') \<Longrightarrow> io_keeps P (if b then m else m')"
  by simp

lemma io_keeps_each [io_valid]: "(\<And>x. x \<in> set xs \<Longrightarrow> io_keeps P (f x)) \<Longrightarrow> io_keeps P (io_each f xs)"
  by (induction xs) (auto intro: io_keeps_then io_keeps_basic)

lemma io_keeps_map [io_valid]: "(\<And>x. x \<in> set xs \<Longrightarrow> io_keeps P (f x)) \<Longrightarrow> io_keeps P (io_map f xs)"
  by (induction xs) (auto intro!: io_keeps_bind io_keeps_basic)

lemma io_keeps_conj: "io_keeps P m \<Longrightarrow> io_keeps Q m \<Longrightarrow> io_keeps (\<lambda>s. P s \<and> Q s) m"
  by (auto simp: io_keeps_def)

lemma io_keeps_all: "(\<And>x. io_keeps (P x) m) \<Longrightarrow> io_keeps (\<lambda>s. \<forall>x. P x s) m"
  by (auto simp: io_keeps_def)

text \<open>Successful runs, step by step.\<close>

lemma io_bind_Inr_iff:
  "io_bind m f s = (Inr b, t) \<longleftrightarrow> (\<exists>a s'. m s = (Inr a, s') \<and> f a s' = (Inr b, t))"
  by (auto simp: io_bind_def split: prod.splits sum.splits)

lemma io_then_Inr_iff:
  "io_then m k s = (Inr b, t) \<longleftrightarrow> (\<exists>a s'. m s = (Inr a, s') \<and> k s' = (Inr b, t))"
  by (simp add: io_then_def io_bind_Inr_iff)

lemma io_basic_Inr_iff:
  "io_return a s = (Inr b, t) \<longleftrightarrow> b = a \<and> t = s"
  "io_read g s = (Inr b, t) \<longleftrightarrow> b = g s \<and> t = s"
  "io_lift r s = (Inr b, t) \<longleftrightarrow> r = Inr b \<and> t = s"
  "io_fail e s = (Inr b, t) \<longleftrightarrow> False"
  by (auto simp: io_defs)

lemmas io_Inr_iffs = io_bind_Inr_iff io_then_Inr_iff io_basic_Inr_iff

lemma io_map_Inr:
  "io_map f xs s = (Inr ys, t) \<Longrightarrow> list_all2 (\<lambda>x y. \<exists>u v. f x u = (Inr y, v)) xs ys"
proof (induction xs arbitrary: s ys)
  case (Cons x xs)
  then show ?case by (fastforce simp: io_Inr_iffs)
qed (simp add: io_Inr_iffs)

section \<open>Sequences of fallible pure steps\<close>

fun res_map :: "('a \<Rightarrow> 'b res) \<Rightarrow> 'a list \<Rightarrow> 'b list res" where
  "res_map f [] = Inr []"
| "res_map f (x # xs) =
     (case f x of
        Inl e \<Rightarrow> Inl e
      | Inr y \<Rightarrow> (case res_map f xs of Inl e \<Rightarrow> Inl e | Inr ys \<Rightarrow> Inr (y # ys)))"

lemma res_map_Inr: "res_map f xs = Inr ys \<Longrightarrow> list_all2 (\<lambda>x y. f x = Inr y) xs ys"
  by (induction xs arbitrary: ys) (auto split: sum.splits)

lemma res_map_Inr_in: "res_map f xs = Inr ys \<Longrightarrow> x \<in> set xs \<Longrightarrow> \<exists>y \<in> set ys. f x = Inr y"
  by (induction xs arbitrary: ys) (auto split: sum.splits)

lemma res_map_Inl: "res_map f xs = Inl e \<Longrightarrow> \<exists>x \<in> set xs. f x = Inl e"
  by (induction xs) (auto split: sum.splits)

end
