(* ===== verification/Files.thy ===== *)
theory Files
  imports Effects "HOL-Library.AList"
begin

text \<open>
  The file system as \<^verbatim>\<open>std::fs\<close> presents it: readable files with their contents in directory
  order, the directories that exist, and the paths on which the operating system refuses an
  operation (\<open>denied\<close>) or runs out of space after truncating (\<open>full\<close>). Paths are absolute
  strings.
\<close>

record fs =
  files :: "(string \<times> string) list"
  dirs :: "string list"
  denied :: "string \<Rightarrow> bool"
  full :: "string \<Rightarrow> bool"

section \<open>Paths\<close>

text \<open>\<^verbatim>\<open>Path::join\<close>: an absolute second component replaces the first.\<close>

definition path_join :: "string \<Rightarrow> string \<Rightarrow> string" where
  "path_join d p =
     (if starts_with ''/'' p then p
      else if d = [] \<or> last d = CHR ''/'' then d @ p
      else d @ ''/'' @ p)"

definition parent_dir :: "string \<Rightarrow> string" where
  "parent_dir p = (case rcut_at (CHR ''/'') p of Some (d, _) \<Rightarrow> d | None \<Rightarrow> [])"

definition file_name :: "string \<Rightarrow> string" where
  "file_name p = (case rcut_at (CHR ''/'') p of Some (_, n) \<Rightarrow> n | None \<Rightarrow> p)"

text \<open>\<^verbatim>\<open>Path::extension\<close> and \<^verbatim>\<open>file_stem\<close>: a leading dot does not start an extension.\<close>

definition stem_ext :: "string \<Rightarrow> string \<times> string option" where
  "stem_ext p =
     (case rcut_at (CHR ''.'') (file_name p) of
        Some (s, e) \<Rightarrow> if s = [] then (file_name p, None) else (s, Some e)
      | None \<Rightarrow> (file_name p, None))"

definition ancestors :: "string \<Rightarrow> string list" where
  "ancestors p = [take n p. n \<leftarrow> [1..<Suc (length p)], n = length p \<or> p ! n = CHR ''/'']"

section \<open>Operations\<close>

definition file_at :: "fs \<Rightarrow> string \<Rightarrow> string option" where
  "file_at f p = map_of (files f) p"

definition path_exists :: "fs \<Rightarrow> string \<Rightarrow> bool" where
  "path_exists f p \<longleftrightarrow> file_at f p \<noteq> None \<or> p \<in> set (dirs f)"

definition read_text :: "fs \<Rightarrow> string \<Rightarrow> string res" where
  "read_text f p =
     (if denied f p then Inl (IoError p)
      else case file_at f p of Some c \<Rightarrow> Inr c | None \<Rightarrow> Inl (IoError p))"

definition put_file :: "string \<Rightarrow> string \<Rightarrow> fs \<Rightarrow> fs" where
  "put_file p c f = f\<lparr>files := AList.update p c (files f)\<rparr>"

text \<open>\<^verbatim>\<open>fs::write\<close> opens with truncation, so a write that fails half way leaves an empty file.\<close>

definition write_text :: "string \<Rightarrow> string \<Rightarrow> (fs, unit) io" where
  "write_text p c f =
     (if denied f p \<or> parent_dir p \<notin> set (dirs f) then (Inl (IoError p), f)
      else if full f p \<and> c \<noteq> [] then (Inl (IoError p), put_file p [] f)
      else (Inr (), put_file p c f))"

definition create_dir_all :: "string \<Rightarrow> (fs, unit) io" where
  "create_dir_all p f =
     (if denied f p \<or> (\<exists>a \<in> set (ancestors p). file_at f a \<noteq> None) then (Inl (IoError p), f)
      else (Inr (), f\<lparr>dirs := dirs f @ filter (\<lambda>a. a \<notin> set (dirs f)) (ancestors p)\<rparr>))"

definition remove_file :: "string \<Rightarrow> (fs, unit) io" where
  "remove_file p f =
     (if denied f p \<or> file_at f p = None then (Inl (IoError p), f)
      else (Inr (), f\<lparr>files := AList.delete p (files f)\<rparr>))"

definition rename_file :: "string \<Rightarrow> string \<Rightarrow> (fs, unit) io" where
  "rename_file p q f =
     (case file_at f p of
        Some c \<Rightarrow>
          (if denied f p \<or> denied f q then (Inl (IoError p), f)
           else (Inr (), put_file q c (f\<lparr>files := AList.delete p (files f)\<rparr>)))
      | None \<Rightarrow> (Inl (IoError p), f))"

definition below :: "string \<Rightarrow> string \<Rightarrow> bool" where
  "below d p \<longleftrightarrow> starts_with (d @ ''/'') p"

definition remove_dir_all :: "string \<Rightarrow> (fs, unit) io" where
  "remove_dir_all p f =
     (if denied f p \<or> p \<notin> set (dirs f) then (Inl (IoError p), f)
      else (Inr (), f\<lparr>files := filter (\<lambda>(q, _). \<not> below p q) (files f),
                      dirs := filter (\<lambda>q. q \<noteq> p \<and> \<not> below p q) (dirs f)\<rparr>))"

text \<open>\<^verbatim>\<open>read_dir\<close>: the paths of the entries of a directory, in the order the system keeps them.\<close>

definition read_dir :: "string \<Rightarrow> fs \<Rightarrow> string list res" where
  "read_dir d f =
     (if denied f d \<or> d \<notin> set (dirs f) then Inl (IoError d)
      else Inr (filter (\<lambda>p. parent_dir p = d) (map fst (files f) @ dirs f)))"

definition empty_fs :: fs where
  "empty_fs = \<lparr>files = [], dirs = [[]], denied = (\<lambda>_. False), full = (\<lambda>_. False)\<rparr>"

section \<open>Facts\<close>

lemma empty_fs_simps [simp]:
  "file_at empty_fs p = None" "dirs empty_fs = [[]]" "denied empty_fs p = False"
  "full empty_fs p = False" "path_exists empty_fs p \<longleftrightarrow> p = []"
  by (auto simp: empty_fs_def file_at_def path_exists_def)

lemma file_at_put_file [simp]:
  "file_at (put_file p c f) q = (if q = p then Some c else file_at f q)"
  by (simp add: file_at_def put_file_def update_conv')

lemma put_file_frame [simp]:
  "dirs (put_file p c f) = dirs f" "denied (put_file p c f) = denied f"
  "full (put_file p c f) = full f"
  by (simp_all add: put_file_def)

lemma read_text_put_file [simp]:
  "read_text (put_file p c f) q =
     (if q = p then if denied f p then Inl (IoError p) else Inr c else read_text f q)"
  by (simp add: read_text_def)

lemma write_text_ok:
  "write_text p c f = (Inr (), g) \<Longrightarrow> g = put_file p c f \<and> \<not> denied f p"
  by (auto simp: write_text_def split: if_splits)

lemma write_text_frame:
  assumes "write_text p c f = (r, g)"
  shows "q \<noteq> p \<Longrightarrow> file_at g q = file_at f q" "denied g = denied f" "dirs g = dirs f"
    "full g = full f"
  using assms by (auto simp: write_text_def split: if_splits)

lemma file_at_write_other [simp]: "q \<noteq> p \<Longrightarrow> file_at (snd (write_text p c f)) q = file_at f q"
  by (simp add: write_text_def)

lemma create_dir_all_frame:
  assumes "create_dir_all p f = (r, g)"
  shows "files g = files f" "denied g = denied f" "full g = full f" "set (dirs f) \<subseteq> set (dirs g)"
  using assms by (auto simp: create_dir_all_def split: if_splits)

lemma ancestors_self: "p \<noteq> [] \<Longrightarrow> p \<in> set (ancestors p)"
  by (cases p) (auto simp: ancestors_def intro!: bexI [where x = "length p"])

lemma create_dir_all_ok: "create_dir_all p f = (Inr (), g) \<Longrightarrow> p \<noteq> [] \<Longrightarrow> p \<in> set (dirs g)"
  using ancestors_self [of p] by (auto simp: create_dir_all_def split: if_splits)

lemma parent_dir_join:
  assumes "CHR ''/'' \<notin> set n"
  shows "parent_dir (d @ ''/'' @ n) = d" "file_name (d @ ''/'' @ n) = n"
  using assms by (simp_all add: parent_dir_def file_name_def rcut_at_def)

lemma path_join_relative:
  "\<not> starts_with ''/'' p \<Longrightarrow> d \<noteq> [] \<Longrightarrow> last d \<noteq> CHR ''/'' \<Longrightarrow> path_join d p = d @ ''/'' @ p"
  by (simp add: path_join_def)

lemma rcut_at_Some:
  assumes "rcut_at c p = Some (d, n)"
  shows "p = d @ c # n \<and> c \<notin> set n"
proof -
  from assms obtain a b where "split_once c (rev p) = Some (a, b)" "d = rev b" "n = rev a"
    by (auto simp: rcut_at_def)
  with split_once_Some [of c "rev p" a b] split_once_fresh [of c "rev p" a b] show ?thesis
    by (metis append.assoc append_Cons append_Nil rev.simps(2) rev_append rev_rev_ident set_rev)
qed

lemma parent_dir_cases:
  assumes "parent_dir p = d" and "d \<noteq> []"
  shows "p = d @ ''/'' @ file_name p \<and> CHR ''/'' \<notin> set (file_name p)"
  using assms rcut_at_Some [of "CHR ''/''" p]
  by (auto simp: parent_dir_def file_name_def split: option.splits)

lemma ancestors_prefix: "a \<in> set (ancestors p) \<Longrightarrow> \<exists>r. p = a @ r \<and> (r = [] \<or> hd r = CHR ''/'')"
  unfolding ancestors_def
  by (auto split: if_splits) (metis append_take_drop_id hd_drop_conv_nth le_neq_implies_less less_Suc_eq_le)

lemma io_then_split:
  "io_then m k s = (r, t) \<longleftrightarrow>
     (\<exists>e. m s = (Inl e, t) \<and> r = Inl e) \<or> (\<exists>a u. m s = (Inr a, u) \<and> k u = (r, t))"
  by (auto simp: io_then_def io_bind_def split: prod.splits sum.splits)

lemma mkdir_same:
  assumes "create_dir_all d f = (r, g)"
  shows "file_at g = file_at f \<and> denied g = denied f \<and> full g = full f"
  using create_dir_all_frame [OF assms] by (simp add: file_at_def fun_eq_iff)

lemma write_cases:
  assumes "write_text p c f = (r, g)"
  shows "(r = Inr () \<and> g = put_file p c f \<and> \<not> denied f p) \<or>
    (r = Inl (IoError p) \<and> (g = f \<or> g = put_file p [] f))"
  using assms by (auto simp: write_text_def split: if_splits)

lemma mkdir_write_frame:
  assumes "io_then (create_dir_all d) (write_text p c) f = (r, g)"
  shows "q \<noteq> p \<Longrightarrow> file_at g q = file_at f q"
    and "denied g = denied f"
    and "r = Inr () \<Longrightarrow> file_at g p = Some c \<and> \<not> denied f p"
    and "r = Inl e \<Longrightarrow> file_at g p = file_at f p \<or> file_at g p = Some []"
proof -
  from assms consider e where "create_dir_all d f = (Inl e, g)" "r = Inl e"
    | u where "create_dir_all d f = (Inr (), u)" "write_text p c u = (r, g)"
    by (auto simp: io_then_split)
  then have "(q \<noteq> p \<longrightarrow> file_at g q = file_at f q) \<and> denied g = denied f \<and>
      (r = Inr () \<longrightarrow> file_at g p = Some c \<and> \<not> denied f p) \<and>
      (r = Inl e \<longrightarrow> file_at g p = file_at f p \<or> file_at g p = Some [])"
  proof cases
    case 1
    with mkdir_same [OF 1(1)] show ?thesis by simp
  next
    case 2
    show ?thesis using mkdir_same [OF 2(1)] write_cases [OF 2(2)] by auto
  qed
  then show "q \<noteq> p \<Longrightarrow> file_at g q = file_at f q"
    and "denied g = denied f"
    and "r = Inr () \<Longrightarrow> file_at g p = Some c \<and> \<not> denied f p"
    and "r = Inl e \<Longrightarrow> file_at g p = file_at f p \<or> file_at g p = Some []" by blast+
qed

end
