(* ===== verification/Config.thy ===== *)
theory Config
  imports Files
begin

text \<open>
  \<^verbatim>\<open>config.rs\<close>: the host paths, the deployment color with its parser, and the names derived
  from a service and a color.
\<close>

section \<open>Paths and constants\<close>

definition STATE_DIR :: string where "STATE_DIR = ''/opt/codery/state''"
definition CADDY_CONFIG :: string where "CADDY_CONFIG = ''/etc/caddy/Caddyfile''"
definition NGINX_CONFIG :: string where "NGINX_CONFIG = ''/opt/codery/proxy/apps-nginx.conf''"
definition APPS_S6_DIR :: string where "APPS_S6_DIR = ''/opt/codery/apps-s6.d''"
definition ENV_FILE :: string where "ENV_FILE = ''/opt/codery/.env''"
definition TAILSCALE_IP_FILE :: string where "TAILSCALE_IP_FILE = ''/run/tailscale.ip''"
definition REGISTRY :: string where "REGISTRY = ''ghcr.io/coderyoss/codery''"
definition SERVICES_DIR :: string where "SERVICES_DIR = ''/opt/codery/services''"
definition SUPERVISORD_CONF :: string where "SUPERVISORD_CONF = ''/etc/supervisor/supervisord.conf''"
definition GHCR_HOST :: string where "GHCR_HOST = ''ghcr.io''"
definition CADDY_ADMIN_PORT :: u16 where "CADDY_ADMIN_PORT = 2019"
definition MCP_PORT :: u16 where "MCP_PORT = 4040"
definition UI_PORT :: u16 where "UI_PORT = 4041"
definition ROUTES_YAML :: string where "ROUTES_YAML = ''/opt/codery/proxy/routes.yaml''"
definition DEFAULT_DOMAIN :: string where "DEFAULT_DOMAIN = ''example.com''"
definition MCP_EXEC_TOGGLE :: string where "MCP_EXEC_TOGGLE = ''/opt/codery/state/mcp-exec.enabled''"
definition MCP_EXEC_LOG_DIR :: string where "MCP_EXEC_LOG_DIR = ''/var/log/codery-ci-mcp''"

section \<open>The configured domain\<close>

fun domain_in_lines :: "string list \<Rightarrow> string" where
  "domain_in_lines [] = DEFAULT_DOMAIN"
| "domain_in_lines (l # ls) =
     (let line = trim l
      in if starts_with ''#'' line \<or> line = [] then domain_in_lines ls
         else case strip_prefix ''DOMAIN_NAME='' line of
                Some value \<Rightarrow> if trim value \<noteq> [] then trim value else domain_in_lines ls
              | None \<Rightarrow> domain_in_lines ls)"

definition load_domain :: "fs \<Rightarrow> string" where
  "load_domain f =
     (case read_text f ENV_FILE of
        Inl _ \<Rightarrow> DEFAULT_DOMAIN
      | Inr content \<Rightarrow> domain_in_lines (lines content))"

section \<open>Colors\<close>

datatype color = Blue | Green

definition color_str :: "color \<Rightarrow> string" where
  "color_str c = (case c of Blue \<Rightarrow> ''blue'' | Green \<Rightarrow> ''green'')"

definition color_parse :: "string \<Rightarrow> color option" where
  "color_parse s =
     (if s = ''blue'' then Some Blue else if s = ''green'' then Some Green else None)"

definition flip :: "color \<Rightarrow> color" where
  "flip c = (case c of Blue \<Rightarrow> Green | Green \<Rightarrow> Blue)"

text \<open>The colors in declaration order, so that the library's order and enumeration apply.\<close>

instantiation color :: linorder
begin
definition less_eq_color :: "color \<Rightarrow> color \<Rightarrow> bool" where
  "less_eq_color a b \<longleftrightarrow> a = Blue \<or> b = Green"
definition less_color :: "color \<Rightarrow> color \<Rightarrow> bool" where
  "less_color a b \<longleftrightarrow> a = Blue \<and> b = Green"
instance
proof
  fix x y z :: color
  show "x < y \<longleftrightarrow> x \<le> y \<and> \<not> y \<le> x"
    by (cases x; cases y) (simp_all add: less_eq_color_def less_color_def)
  show "x \<le> x" by (cases x) (simp_all add: less_eq_color_def)
  show "x \<le> y \<Longrightarrow> y \<le> z \<Longrightarrow> x \<le> z"
    by (cases x; cases y; cases z) (simp_all add: less_eq_color_def)
  show "x \<le> y \<Longrightarrow> y \<le> x \<Longrightarrow> x = y"
    by (cases x; cases y) (simp_all add: less_eq_color_def)
  show "x \<le> y \<or> y \<le> x" by (cases x; cases y) (simp_all add: less_eq_color_def)
qed
end

instantiation color :: enum
begin
definition enum_color :: "color list" where "enum_color = [Blue, Green]"
definition enum_all_color :: "(color \<Rightarrow> bool) \<Rightarrow> bool" where
  "enum_all_color P \<longleftrightarrow> P Blue \<and> P Green"
definition enum_ex_color :: "(color \<Rightarrow> bool) \<Rightarrow> bool" where
  "enum_ex_color P \<longleftrightarrow> P Blue \<or> P Green"
instance
proof
  have all: "x = Blue \<or> x = Green" for x :: color by (cases x) simp_all
  show "(UNIV :: color set) = set enum_class.enum"
    using all by (auto simp: enum_color_def)
  show "distinct (enum_class.enum :: color list)" by (simp add: enum_color_def)
  show "enum_class.enum_all P \<longleftrightarrow> Ball UNIV P" for P :: "color \<Rightarrow> bool"
    by (metis (full_types) UNIV_I all enum_all_color_def)
  show "enum_class.enum_ex P \<longleftrightarrow> Bex UNIV P" for P :: "color \<Rightarrow> bool"
    by (metis (full_types) UNIV_I all enum_ex_color_def)
qed
end

section \<open>Derived names\<close>

definition container_name :: "string \<Rightarrow> color \<Rightarrow> string" where
  "container_name service color = ''codery-'' @ service @ ''-'' @ color_str color"

definition image_ref :: "string \<Rightarrow> string \<Rightarrow> string" where
  "image_ref service sha = REGISTRY @ '':'' @ service @ ''-'' @ sha"

definition deploy_lock_path :: "string \<Rightarrow> string" where
  "deploy_lock_path service = ''/run/codery-ci-deploy-'' @ service @ ''.lock''"

section \<open>Facts\<close>

lemma flip_flip [simp]: "flip (flip c) = c"
  by (cases c) (simp_all add: flip_def)

lemma flip_neq [simp]: "flip c \<noteq> c" "c \<noteq> flip c"
  by (cases c; simp add: flip_def)+

lemma color_eq_flip: "d \<noteq> c \<Longrightarrow> d = flip c"
  by (cases c; cases d) (simp_all add: flip_def)

lemma color_parse_str [simp]: "color_parse (color_str c) = Some c"
  by (cases c) (simp_all add: color_parse_def color_str_def)

lemma color_parse_Some: "color_parse s = Some c \<Longrightarrow> s = color_str c"
  by (auto simp: color_parse_def color_str_def split: if_splits)

lemma color_str_trim: "trim (color_str c @ [newline]) = color_str c"
  by (cases c) (rule trim_newline; simp add: color_str_def is_space_def)+

lemma color_str_eq_iff [simp]: "color_str a = color_str b \<longleftrightarrow> a = b"
  by (cases a; cases b) (simp_all add: color_str_def)

text \<open>
  A color suffix determines service and color: no two (service, color) pairs share a container.
\<close>

lemma append_same_length: "length a = length b \<Longrightarrow> xs @ a = ys @ b \<longleftrightarrow> xs = ys \<and> a = b"
  by simp

lemma container_name_inject:
  "container_name s c = container_name t d \<longleftrightarrow> s = t \<and> c = d"
proof
  assume eq: "container_name s c = container_name t d"
  then have tails: "s @ ''-'' @ color_str c = t @ ''-'' @ color_str d"
    by (simp add: container_name_def)
  have "last (s @ ''-'' @ color_str c) = last (t @ ''-'' @ color_str d)"
    using tails by simp
  then have "c = d" by (cases c; cases d) (simp_all add: color_str_def)
  with tails show "s = t \<and> c = d" by simp
qed simp

lemma container_name_flip_neq [simp]:
  "container_name s (flip c) \<noteq> container_name s c"
  "container_name s c \<noteq> container_name s (flip c)"
  by (simp_all add: container_name_inject)

end
