(* ===== verification/Service_Def.thy ===== *)
theory Service_Def
  imports Config
begin

text \<open>
  \<^verbatim>\<open>service_def.rs\<close>: the service declaration, the port arithmetic of the blue/green scheme, the
  published port bindings, health-check ports, volume binds with their \<^verbatim>\<open>${VAR}\<close> substitution and
  the container environment. YAML parsing itself is \<^verbatim>\<open>serde_yaml\<close> and enters as a parameter.
\<close>

section \<open>Data\<close>

record port_scheme =
  blue_offset :: u16
  green_offset :: u16

datatype port_bind = BindAny | BindLoopback | BindTailnet

datatype port_protocol = ProtoTcp | ProtoUdp

record named_port =
  np_name :: string
  np_container_port :: u16
  np_subdomain :: "string option"
  np_fixed_port :: "u16 option"
  np_protocol :: port_protocol
  np_bind :: port_bind
  np_auth :: "string option"  \<comment> \<open>the \<^verbatim>\<open>env\<close> field of \<^verbatim>\<open>BasicAuth\<close>\<close>

record port_range =
  pr_start :: u16
  pr_end :: u16
  pr_bind :: port_bind

record binding_spec =
  bs_host :: u16
  bs_container :: u16
  bs_bind :: port_bind

datatype volume_mount =
    NamedVol string string          \<comment> \<open>name, container path\<close>
  | BindVol string string bool      \<comment> \<open>host path, container path, readonly\<close>

datatype health_check =
    TcpCheck string nat nat         \<comment> \<open>port name, timeout and interval in seconds\<close>
  | DockerCheck nat                 \<comment> \<open>timeout in seconds\<close>

record service_def =
  sd_service :: string
  sd_image :: string
  sd_port_scheme :: port_scheme
  sd_ports :: "named_port list"
  sd_port_range :: "port_range option"
  sd_volumes :: "volume_mount list"
  sd_required_env :: "string list"
  sd_env_overrides :: "(string \<times> string) list option"  \<comment> \<open>in the iteration order of the hash map\<close>
  sd_health_check :: health_check
  sd_network :: string
  sd_extra_hosts :: "string list"
  sd_network_aliases :: "string list"
  sd_allow_privilege_escalation :: bool
  sd_command :: "string list option"
  sd_entrypoint :: "string list option"
  sd_user :: "string option"
  sd_workdir :: "string option"
  sd_init :: bool
  sd_ipc :: "string option"

type_synonym yaml_parser = "string \<Rightarrow> service_def option"
type_synonym env_map = "string \<Rightarrow> string option"

section \<open>Ports\<close>

text \<open>
  \<^verbatim>\<open>u16\<close> addition wraps in the release profile, which is what runs on the host
  (\<^verbatim>\<open>Cargo.toml\<close> sets no \<^verbatim>\<open>overflow-checks\<close>).
\<close>

definition host_port :: "port_scheme \<Rightarrow> color \<Rightarrow> u16 \<Rightarrow> u16" where
  "host_port ps color container_port =
     (let offset = (case color of Blue \<Rightarrow> blue_offset ps | Green \<Rightarrow> green_offset ps)
      in container_port + offset)"

definition resolve_bind :: "port_bind \<Rightarrow> fs \<Rightarrow> string res" where
  "resolve_bind b f =
     (case b of
        BindAny \<Rightarrow> Inr ''0.0.0.0''
      | BindLoopback \<Rightarrow> Inr ''127.0.0.1''
      | BindTailnet \<Rightarrow>
          (case read_text f TAILSCALE_IP_FILE of
             Inl _ \<Rightarrow> Inl TailnetIpMissing
           | Inr s \<Rightarrow> if trim s = [] then Inl TailnetIpMissing else Inr (trim s)))"

definition port_binding_specs :: "service_def \<Rightarrow> color \<Rightarrow> binding_spec list" where
  "port_binding_specs def color =
     [\<lparr>bs_host = host_port (sd_port_scheme def) color (np_container_port p),
       bs_container = np_container_port p, bs_bind = np_bind p\<rparr>.
        p \<leftarrow> sd_ports def, \<not> (np_protocol p = ProtoUdp \<and> np_fixed_port p \<noteq> None)]
     @ (case sd_port_range def of
          None \<Rightarrow> []
        | Some r \<Rightarrow>
            [\<lparr>bs_host = host_port (sd_port_scheme def) color (of_nat c),
              bs_container = of_nat c, bs_bind = pr_bind r\<rparr>.
               c \<leftarrow> [unat (pr_start r)..<Suc (unat (pr_end r))]])"

definition port_mappings :: "service_def \<Rightarrow> color \<Rightarrow> (u16 \<times> u16) list" where
  "port_mappings def color = map (\<lambda>s. (bs_host s, bs_container s)) (port_binding_specs def color)"

definition health_named_port :: "service_def \<Rightarrow> string \<Rightarrow> named_port res" where
  "health_named_port def name =
     (case find (\<lambda>p. np_name p = name) (sd_ports def) of
        Some p \<Rightarrow> Inr p
      | None \<Rightarrow> Inl (HealthPortUnknown name (sd_service def)))"

definition health_port :: "service_def \<Rightarrow> color \<Rightarrow> u16 res" where
  "health_port def color =
     (case sd_health_check def of
        TcpCheck name _ _ \<Rightarrow>
          map_sum id (\<lambda>p. host_port (sd_port_scheme def) color (np_container_port p))
            (health_named_port def name)
      | DockerCheck _ \<Rightarrow> Inr 0)"

definition health_container_port :: "service_def \<Rightarrow> u16 res" where
  "health_container_port def =
     (case sd_health_check def of
        TcpCheck name _ _ \<Rightarrow> map_sum id np_container_port (health_named_port def name)
      | DockerCheck _ \<Rightarrow> Inr 0)"

section \<open>Images\<close>

definition sd_image_ref :: "service_def \<Rightarrow> string \<Rightarrow> string" where
  "sd_image_ref def sha = replace_str ''{sha}'' sha (sd_image def)"

section \<open>Placeholder substitution\<close>

text \<open>
  The loop rewrites the first \<^verbatim>\<open>${VAR}\<close> until none is left. It searches the rewritten text from its
  start, so a value that contains a placeholder is expanded again, and \<open>None\<close> is a loop that never
  ends.
\<close>

partial_function (option) substitute_loop :: "string \<Rightarrow> env_map \<Rightarrow> string \<Rightarrow> string res option" where
  "substitute_loop s env cur =
     (case cut_at ''${'' cur of
        None \<Rightarrow> Some (Inr cur)
      | Some (pre, rest) \<Rightarrow>
          (case cut_at ''}'' rest of
             None \<Rightarrow> Some (Inl (UnclosedPlaceholder s))
           | Some (var, post) \<Rightarrow>
               (case env var of
                  None \<Rightarrow> Some (Inl (MissingEnvVar var s))
                | Some value \<Rightarrow> substitute_loop s env (pre @ value @ post))))"

declare substitute_loop.simps [code]

definition substitute_env :: "string \<Rightarrow> env_map \<Rightarrow> string res option" where
  "substitute_env s env = substitute_loop s env s"

section \<open>Volumes and environment\<close>

definition resolve_volume :: "env_map \<Rightarrow> volume_mount \<Rightarrow> string res option" where
  "resolve_volume env vol =
     (case vol of
        NamedVol name container \<Rightarrow> Some (Inr (name @ '':'' @ container))
      | BindVol host container readonly \<Rightarrow>
          map_option (map_sum id (\<lambda>resolved.
              resolved @ '':'' @ container @ (if readonly then '':ro'' else [])))
            (substitute_env host env))"

fun resolve_volumes :: "env_map \<Rightarrow> volume_mount list \<Rightarrow> string list res option" where
  "resolve_volumes env [] = Some (Inr [])"
| "resolve_volumes env (v # vs) =
     (case resolve_volume env v of
        None \<Rightarrow> None
      | Some (Inl e) \<Rightarrow> Some (Inl e)
      | Some (Inr b) \<Rightarrow> map_option (map_sum id (\<lambda>bs. b # bs)) (resolve_volumes env vs))"

definition resolved_binds :: "service_def \<Rightarrow> env_map \<Rightarrow> string list res option" where
  "resolved_binds def env = resolve_volumes env (sd_volumes def)"

definition apply_override :: "string \<times> string \<Rightarrow> string list \<Rightarrow> string list" where
  "apply_override = (\<lambda>(k, v) env. filter (\<lambda>l. \<not> starts_with (k @ ''='') l) env @ [k @ ''='' @ v])"

definition resolved_env :: "service_def \<Rightarrow> string list \<Rightarrow> string list" where
  "resolved_env def raw =
     (case sd_env_overrides def of None \<Rightarrow> raw | Some os \<Rightarrow> fold apply_override os raw)"

section \<open>Loading\<close>

definition service_yaml_path :: "string \<Rightarrow> string" where
  "service_yaml_path service = SERVICES_DIR @ ''/'' @ service @ ''.yml''"

definition load_def_at :: "yaml_parser \<Rightarrow> fs \<Rightarrow> string \<Rightarrow> service_def res" where
  "load_def_at yaml f path =
     (case read_text f path of
        Inl e \<Rightarrow> Inl e
      | Inr data \<Rightarrow> (case yaml data of None \<Rightarrow> Inl (ParseError path) | Some d \<Rightarrow> Inr d))"

definition load_def :: "yaml_parser \<Rightarrow> fs \<Rightarrow> string \<Rightarrow> service_def res" where
  "load_def yaml f service = load_def_at yaml f (service_yaml_path service)"

definition load_all_defs :: "yaml_parser \<Rightarrow> fs \<Rightarrow> service_def list res" where
  "load_all_defs yaml f =
     (if \<not> path_exists f SERVICES_DIR then Inr []
      else case read_dir SERVICES_DIR f of
             Inl e \<Rightarrow> Inl e
           | Inr entries \<Rightarrow>
               res_map (load_def_at yaml f) (filter (\<lambda>p. snd (stem_ext p) = Some ''yml'') entries))"

section \<open>Facts on ports\<close>

definition offset_of :: "port_scheme \<Rightarrow> color \<Rightarrow> u16" where
  "offset_of ps color = (case color of Blue \<Rightarrow> blue_offset ps | Green \<Rightarrow> green_offset ps)"

lemma host_port_alt: "host_port ps c p = p + offset_of ps c"
  by (simp add: host_port_def offset_of_def Let_def)

lemma host_port_inject [simp]: "host_port ps c p = host_port ps c q \<longleftrightarrow> p = q"
  by (simp add: host_port_alt)

lemma unat_host_port:
  "unat (host_port ps c p) = (unat p + unat (offset_of ps c)) mod 65536"
  by (simp add: host_port_alt unat_word_ariths)

lemma unat_host_port_small:
  "unat p + unat (offset_of ps c) < 65536 \<Longrightarrow>
   unat (host_port ps c p) = unat p + unat (offset_of ps c)"
  by (simp add: unat_host_port)

lemma set_port_mappings:
  "set (port_mappings def c) =
     (\<lambda>p. (host_port (sd_port_scheme def) c p, p)) `
       (np_container_port ` {p \<in> set (sd_ports def).
           \<not> (np_protocol p = ProtoUdp \<and> np_fixed_port p \<noteq> None)} \<union>
        (case sd_port_range def of None \<Rightarrow> {}
         | Some r \<Rightarrow> of_nat ` {unat (pr_start r)..unat (pr_end r)}))"
  by (force simp: port_mappings_def port_binding_specs_def image_iff split: option.splits)

lemma port_mapping_host: "(h, p) \<in> set (port_mappings def c) \<Longrightarrow> h = host_port (sd_port_scheme def) c p"
  by (auto simp: set_port_mappings)

section \<open>Facts on substitution\<close>

text \<open>
  The reference semantics is one pass from left to right. The loop computes it when every value is
  \<open>plain\<close>: non-empty and free of the characters that could form a new placeholder.
\<close>

definition plain_value :: "string \<Rightarrow> bool" where
  "plain_value v \<longleftrightarrow> v \<noteq> [] \<and> CHR ''$'' \<notin> set v \<and> CHR ''{'' \<notin> set v"

lemma cut_at_length: "cut_at p s = Some (a, b) \<Longrightarrow> length b + length p \<le> length s"
  using cut_at_Some [of p s a b] by simp

function substitute_once :: "string \<Rightarrow> env_map \<Rightarrow> string \<Rightarrow> string res" where
  "substitute_once s env cur =
     (case cut_at ''${'' cur of
        None \<Rightarrow> Inr cur
      | Some (pre, rest) \<Rightarrow>
          (case cut_at ''}'' rest of
             None \<Rightarrow> Inl (UnclosedPlaceholder s)
           | Some (var, post) \<Rightarrow>
               (case env var of
                  None \<Rightarrow> Inl (MissingEnvVar var s)
                | Some value \<Rightarrow> map_sum id (\<lambda>t. pre @ value @ t) (substitute_once s env post))))"
  by pat_completeness auto
termination
  by (relation "measure (\<lambda>(s, env, cur). length cur)") (auto dest!: cut_at_length)

declare substitute_once.simps [simp del]

definition settled :: "string \<Rightarrow> bool" where
  "settled d \<longleftrightarrow> cut_at ''${'' d = None \<and> (d = [] \<or> last d \<noteq> CHR ''$'')"

lemma cut_at_Cons_skip:
  "strip_prefix p (c # cs) = None \<Longrightarrow> cut_at p (c # cs) = map_option (\<lambda>(a, b). (c # a, b)) (cut_at p cs)"
  by simp

lemma settled_Cons: "settled (c # d) \<Longrightarrow> settled d \<and> (d = [] \<longrightarrow> c \<noteq> CHR ''$'') \<and> strip_prefix ''${'' (c # d) = None"
  by (auto simp: settled_def split: option.splits if_splits)

lemma cut_at_settled:
  assumes "settled d"
  shows "cut_at ''${'' (d @ cur) = map_option (\<lambda>(a, b). (d @ a, b)) (cut_at ''${'' cur)"
  using assms
proof (induction d)
  case Nil
  then show ?case by (cases "cut_at ''${'' cur") auto
next
  case (Cons c d)
  from settled_Cons [OF Cons.prems] have d: "settled d" "d = [] \<longrightarrow> c \<noteq> CHR ''$''"
    and n: "strip_prefix ''${'' (c # d) = None" by auto
  have "strip_prefix ''${'' ((c # d) @ cur) = None"
    using d(2) n by (cases d) (auto split: if_splits)
  with Cons.IH [OF d(1)] show ?case
    by (cases "cut_at ''${'' cur") auto
qed

lemma no_dollar_settled: "CHR ''$'' \<notin> set v \<Longrightarrow> settled v"
  by (induction v) (auto simp: settled_def)

lemma settled_append: "settled d \<Longrightarrow> settled v \<Longrightarrow> settled (d @ v)"
  using cut_at_settled [of d v] by (auto simp: settled_def last_append)

lemma strip_prefix_shrink: "strip_prefix p (a @ b) = None \<Longrightarrow> strip_prefix p a = None"
  by (auto simp: strip_prefix_None_iff)

lemma cut_at_before_settled: "cut_at p cur = Some (pre, rest) \<Longrightarrow> p \<noteq> [] \<Longrightarrow> cut_at p pre = None"
proof (induction p cur arbitrary: pre rest rule: cut_at.induct)
  case (1 p)
  then show ?case by (simp split: if_splits)
next
  case (2 p c cs)
  show ?case
  proof (cases "strip_prefix p (c # cs)")
    case None
    with "2.prems" obtain a where a: "pre = c # a" "cut_at p cs = Some (a, rest)"
      by (auto split: option.splits)
    have "strip_prefix p pre = None"
      using None cut_at_Some [OF a(2)] a(1) strip_prefix_shrink [of p pre "p @ rest"] by simp
    with "2.IH" [OF None a(2) "2.prems"(2)] a(1) show ?thesis by simp
  next
    case (Some r)
    with "2.prems" show ?thesis by simp
  qed
qed

lemma settled_before_plain:
  assumes "cut_at ''${'' pre = None" and "plain_value v"
  shows "settled (pre @ v)"
proof -
  obtain c v' where v: "v = c # v'" "c \<noteq> CHR ''{''" "CHR ''$'' \<notin> set v"
    using assms(2) by (cases v) (auto simp: plain_value_def)
  have "cut_at ''${'' (pre @ v) = None"
    using assms(1)
  proof (induction pre)
    case Nil
    with v show ?case using no_dollar_settled [of v] by (simp add: settled_def)
  next
    case (Cons x pre)
    then show ?case using v(1,2) by (cases pre) (auto split: option.splits if_splits)
  qed
  moreover have "last (pre @ v) \<noteq> CHR ''$''"
    using v(1,3) last_in_set [of v] by auto
  ultimately show ?thesis by (simp add: settled_def)
qed

lemma substitute_loop_plain:
  assumes plain: "\<And>k v. env k = Some v \<Longrightarrow> plain_value v" and "settled d"
  shows "substitute_loop s env (d @ cur) = Some (map_sum id (\<lambda>t. d @ t) (substitute_once s env cur))"
  using assms
proof (induction s env cur arbitrary: d rule: substitute_once.induct)
  case (1 s env cur)
  note cut = cut_at_settled [OF "1.prems"(2), of cur]
  show ?case
  proof (cases "cut_at ''${'' cur")
    case None
    with cut show ?thesis
      by (simp add: substitute_loop.simps [of s env "d @ cur"] substitute_once.simps [of s env cur])
  next
    case (Some a)
    then obtain pre rest where pr: "cut_at ''${'' cur = Some (pre, rest)" by (cases a) auto
    show ?thesis
    proof (cases "cut_at ''}'' rest")
      case None
      with cut pr show ?thesis
        by (simp add: substitute_loop.simps [of s env "d @ cur"] substitute_once.simps [of s env cur])
    next
      case (Some b)
      then obtain var post where vp: "cut_at ''}'' rest = Some (var, post)" by (cases b) auto
      show ?thesis
      proof (cases "env var")
        case None
        with cut pr vp show ?thesis
          by (simp add: substitute_loop.simps [of s env "d @ cur"]
              substitute_once.simps [of s env cur])
      next
        case (Some val)
        have "settled (pre @ val)"
          using settled_before_plain [OF cut_at_before_settled [OF pr] "1.prems"(1) [OF Some]] by simp
        then have "settled (d @ pre @ val)" by (rule settled_append [OF "1.prems"(2)])
        from "1.IH" [OF pr refl vp refl Some "1.prems"(1) this] show ?thesis
          using cut pr vp Some
          by (simp add: substitute_loop.simps [of s env "d @ cur"] sum.map_comp comp_def
              substitute_once.simps [of s env cur])
      qed
    qed
  qed
qed

lemma settled_Nil [simp]: "settled []"
  by (simp add: settled_def)

section \<open>Facts on overrides\<close>

lemma starts_with_key:
  assumes "CHR ''='' \<notin> set k" and "CHR ''='' \<notin> set k'"
  shows "starts_with (k @ ''='') (k' @ ''='' @ v) \<longleftrightarrow> k = k'"
proof
  assume "starts_with (k @ ''='') (k' @ ''='' @ v)"
  then obtain r where "k' @ CHR ''='' # v = k @ CHR ''='' # r" by (auto simp: starts_with_iff)
  moreover have "split_once (CHR ''='') (k' @ CHR ''='' # v) = Some (k', v)"
    "split_once (CHR ''='') (k @ CHR ''='' # r) = Some (k, r)"
    using assms by simp_all
  ultimately show "k = k'" by (metis option.inject prod.inject)
qed (auto simp: starts_with_iff)

lemma apply_override_other:
  "\<not> starts_with (k @ ''='') l \<Longrightarrow> l \<in> set (apply_override (k, v) env) \<longleftrightarrow> l \<in> set env"
  by (auto simp: apply_override_def starts_with_iff)

lemma apply_override_same:
  "starts_with (k @ ''='') l \<Longrightarrow> l \<in> set (apply_override (k, v) env) \<longleftrightarrow> l = k @ ''='' @ v"
  by (auto simp: apply_override_def)

lemma fold_override_keeps:
  "\<forall>k \<in> fst ` set os. \<not> starts_with (k @ ''='') l \<Longrightarrow>
   l \<in> set (fold apply_override os env) \<longleftrightarrow> l \<in> set env"
proof (induction os arbitrary: env)
  case (Cons kv os)
  then have "\<not> starts_with (fst kv @ ''='') l" by simp
  then have "l \<in> set (apply_override (fst kv, snd kv) env) \<longleftrightarrow> l \<in> set env"
    by (rule apply_override_other)
  with Cons show ?case by simp
qed simp

lemma fold_override_wins:
  assumes "distinct (map fst os)" and "\<forall>(k, v) \<in> set os. CHR ''='' \<notin> set k"
    and "(k, v) \<in> set os"
  shows "l \<in> set (fold apply_override os env) \<and> starts_with (k @ ''='') l \<longleftrightarrow> l = k @ ''='' @ v"
  using assms
proof (induction os arbitrary: env)
  case (Cons kv os)
  obtain k0 v0 where kv: "kv = (k0, v0)" by force
  show ?case
  proof (cases "(k, v) \<in> set os")
    case True
    with Cons show ?thesis by simp
  next
    case False
    with Cons.prems kv have eq: "k0 = k" "v0 = v" by auto
    have keys: "CHR ''='' \<notin> set k" "k \<notin> fst ` set os" "\<forall>k' \<in> fst ` set os. CHR ''='' \<notin> set k'"
      using Cons.prems kv eq by auto
    show ?thesis
    proof (cases "starts_with (k @ ''='') l")
      case True
      then obtain r where "l = k @ ''='' @ r" by (auto simp: starts_with_iff)
      with keys have "\<forall>k' \<in> fst ` set os. \<not> starts_with (k' @ ''='') l"
        by (metis starts_with_key)
      from fold_override_keeps [OF this, of "apply_override kv env"] True show ?thesis
        by (simp add: kv eq apply_override_same)
    qed (auto simp: starts_with_iff)
  qed
qed simp

section \<open>Facts on divergence\<close>

lemma substitute_loop_self:
  assumes "env a = Some (''${'' @ a @ ''}'')" and "CHR ''}'' \<notin> set a"
  shows "substitute_loop s env (''${'' @ a @ ''}'') = None"
proof -
  have cut: "cut_at ''${'' (''${'' @ a @ ''}'') = Some ([], a @ ''}'')"
    "cut_at ''}'' (a @ ''}'') = Some (a, [])"
    using split_once_append [of "CHR ''}''" a "[]"] assms(2) by (simp_all add: split_once_def)
  have "env' = env \<longrightarrow> cur \<noteq> ''${'' @ a @ ''}''" if "substitute_loop t env' cur = Some r" for t env' cur r
  proof (rule substitute_loop.raw_induct [where P = "\<lambda>_ env' cur _. env' = env \<longrightarrow> cur \<noteq> ''${'' @ a @ ''}''", OF _ that])
    fix loop t env' cur r
    assume IH: "\<And>t env' cur r. loop t env' cur = Some r \<Longrightarrow> env' = env \<longrightarrow> cur \<noteq> ''${'' @ a @ ''}''"
      and step: "(case cut_at ''${'' cur of None \<Rightarrow> Some (Inr cur)
        | Some (pre, rest) \<Rightarrow>
            (case cut_at ''}'' rest of None \<Rightarrow> Some (Inl (UnclosedPlaceholder t))
             | Some (var, post) \<Rightarrow>
                 (case env' var of None \<Rightarrow> Some (Inl (MissingEnvVar var t))
                  | Some val \<Rightarrow> loop t env' (pre @ val @ post)))) = Some r"
    show "env' = env \<longrightarrow> cur \<noteq> ''${'' @ a @ ''}''"
    proof (intro impI notI)
      assume eq: "env' = env" "cur = ''${'' @ a @ ''}''"
      have "loop t env (''${'' @ a @ ''}'') = Some r"
        using step assms(1) unfolding eq cut option.case prod.case by simp
      from IH [OF this] show False by simp
    qed
  qed
  then show ?thesis by (metis not_None_eq)
qed

section \<open>Example declarations\<close>

text \<open>The declaration of the deploy tests, and the port part of \<^verbatim>\<open>containers/apps/service.yml\<close>.\<close>

definition paseo_def :: service_def where
  "paseo_def =
     \<lparr>sd_service = ''paseo'', sd_image = ''ghcr.io/coderyoss/codery:paseo-{sha}'',
      sd_port_scheme = \<lparr>blue_offset = 10000, green_offset = 20000\<rparr>,
      sd_ports = [\<lparr>np_name = ''opencode'', np_container_port = 3000, np_subdomain = Some ''opencode'',
        np_fixed_port = None, np_protocol = ProtoTcp, np_bind = BindAny, np_auth = None\<rparr>],
      sd_port_range = None, sd_volumes = [], sd_required_env = [], sd_env_overrides = None,
      sd_health_check = TcpCheck ''opencode'' 60 2, sd_network = ''codery-net'',
      sd_extra_hosts = [], sd_network_aliases = [], sd_allow_privilege_escalation = False,
      sd_command = None, sd_entrypoint = None, sd_user = None, sd_workdir = None, sd_init = False,
      sd_ipc = None\<rparr>"

definition apps_def :: service_def where
  "apps_def = paseo_def
     \<lparr>sd_service := ''apps'', sd_image := ''ghcr.io/coderyoss/codery:apps-{sha}'',
      sd_port_scheme := \<lparr>blue_offset = 0, green_offset = 10000\<rparr>,
      sd_ports :=
        [\<lparr>np_name = ''ssh'', np_container_port = 2022, np_subdomain = None,
          np_fixed_port = Some 3333, np_protocol = ProtoTcp, np_bind = BindTailnet, np_auth = None\<rparr>,
         \<lparr>np_name = ''mosh'', np_container_port = 61000, np_subdomain = None,
          np_fixed_port = Some 61000, np_protocol = ProtoUdp, np_bind = BindTailnet, np_auth = None\<rparr>],
      sd_port_range := Some \<lparr>pr_start = 8000, pr_end = 9000, pr_bind = BindLoopback\<rparr>,
      sd_env_overrides := Some [(''HOME'', ''/home/gem'')],
      sd_health_check := DockerCheck 90\<rparr>"

section \<open>Correctness\<close>

text \<open>The container ports that a declaration publishes: no UDP relay port is among them.\<close>

definition published_ports :: "service_def \<Rightarrow> u16 set" where
  "published_ports def =
     np_container_port ` set (filter (\<lambda>p. \<not> (np_protocol p = ProtoUdp \<and> np_fixed_port p \<noteq> None))
       (sd_ports def)) \<union>
     (case sd_port_range def of None \<Rightarrow> {}
      | Some r \<Rightarrow> of_nat ` {unat (pr_start r)..unat (pr_end r)})"

lemma set_port_mappings_published:
  "set (port_mappings def c) =
     (\<lambda>p. (host_port (sd_port_scheme def) c p, p)) ` published_ports def"
  unfolding set_port_mappings published_ports_def by (simp only: set_filter)

lemma apps_published: "published_ports apps_def = insert 2022 (of_nat ` {8000..9000})"
  by (simp add: published_ports_def apps_def_def atLeastAtMost_iff)

text \<open>
  C16: The blue and the green container of a service can run side by side: when the published
  container ports lie in a window narrower than the distance of the two offsets, and the highest of
  them plus the green offset stays below 65536, no host port computation wraps around and no host
  port is published for both colors.
\<close>

theorem colors_publish_disjoint_ports:
  assumes "\<forall>p \<in> published_ports def. lo \<le> unat p \<and> unat p \<le> hi"
    and "unat (blue_offset (sd_port_scheme def)) + (hi - lo) < unat (green_offset (sd_port_scheme def))"
    and "hi + unat (green_offset (sd_port_scheme def)) < 65536"
  shows "fst ` set (port_mappings def Blue) \<inter> fst ` set (port_mappings def Green) = {} \<and>
    (\<forall>c. \<forall>(h, p) \<in> set (port_mappings def c).
       unat h = unat p + unat (offset_of (sd_port_scheme def) c))"
proof -
  let ?ps = "sd_port_scheme def"
  have nw: "unat (host_port ?ps c p) = unat p + unat (offset_of ?ps c)" if "p \<in> published_ports def" for c p
  proof (rule unat_host_port_small)
    have "unat (offset_of ?ps c) \<le> unat (green_offset ?ps)"
      using assms(2) by (cases c) (simp_all add: offset_of_def)
    moreover have "unat p \<le> hi" using assms(1) that by blast
    ultimately show "unat p + unat (offset_of ?ps c) < 65536" using assms(3) by linarith
  qed
  have "host_port ?ps Blue p \<noteq> host_port ?ps Green q"
    if "p \<in> published_ports def" "q \<in> published_ports def" for p q
  proof
    assume "host_port ?ps Blue p = host_port ?ps Green q"
    then have "unat p + unat (blue_offset ?ps) = unat q + unat (green_offset ?ps)"
      using nw [OF that(1), of Blue] nw [OF that(2), of Green] by (simp add: offset_of_def)
    moreover have "lo \<le> unat q" "unat p \<le> hi" using assms(1) that by blast+
    ultimately show False using assms(2) by linarith
  qed
  then show ?thesis using nw by (auto simp: set_port_mappings_published)
qed

lemma colors_publish_disjoint_ports_witness:
  "fst ` set (port_mappings apps_def Blue) \<inter> fst ` set (port_mappings apps_def Green) = {}"
proof -
  have "\<forall>p \<in> published_ports apps_def. 2022 \<le> unat p \<and> unat p \<le> 9000"
    unfolding apps_published by (auto simp: unat_of_nat)
  from colors_publish_disjoint_ports [OF this] show ?thesis
    by (simp add: apps_def_def)
qed

text \<open>
  C18: Placeholder substitution terminates and is a single left-to-right pass over the text, with a
  missing variable or an unclosed placeholder as an error, whenever no environment value is empty or
  contains a dollar sign or an opening brace.
\<close>

theorem substitute_env_one_pass:
  assumes "\<forall>k v. env k = Some v \<longrightarrow> plain_value v"
  shows "substitute_env s env = Some (substitute_once s env s)"
  using substitute_loop_plain [of env "[]" s s] assms
  by (cases "substitute_once s env s") (simp_all add: substitute_env_def settled_def)

lemma substitute_env_one_pass_witness:
  "substitute_env ''${SSH_DIR}/keys'' [''SSH_DIR'' \<mapsto> ''/root/.ssh''] = Some (Inr ''/root/.ssh/keys'')"
proof -
  have "\<forall>k v. [''SSH_DIR'' \<mapsto> ''/root/.ssh''] k = Some v \<longrightarrow> plain_value v"
    by (simp add: plain_value_def)
  from substitute_env_one_pass [OF this, of "''${SSH_DIR}/keys''"] show ?thesis
    by (simp add: substitute_once.simps fun_upd_def)
qed



text \<open>
  In the environment of a container every YAML override wins: exactly one value, the declared
  one, is given for an overridden variable, and a line of the host's environment file is passed on
  exactly when it is not for an overridden variable.
\<close>

theorem resolved_env_overrides:
  assumes "sd_env_overrides def = Some os" and "distinct (map fst os)"
    and "\<forall>(k, v) \<in> set os. CHR ''='' \<notin> set k"
  shows "(\<forall>(k, v) \<in> set os. \<forall>l. l \<in> set (resolved_env def raw) \<and> starts_with (k @ ''='') l \<longleftrightarrow>
            l = k @ ''='' @ v) \<and>
    (\<forall>l. (\<forall>k \<in> fst ` set os. \<not> starts_with (k @ ''='') l) \<longrightarrow>
       l \<in> set (resolved_env def raw) \<longleftrightarrow> l \<in> set raw)"
  using fold_override_wins [OF assms(2,3)] fold_override_keeps [of os]
  by (auto simp: resolved_env_def assms(1))

lemma resolved_env_overrides_witness:
  "''HOME=/home/gem'' \<in> set (resolved_env apps_def [''HOME=/root'', ''A=1'']) \<and>
   ''HOME=/root'' \<notin> set (resolved_env apps_def [''HOME=/root'', ''A=1'']) \<and>
   ''A=1'' \<in> set (resolved_env apps_def [''HOME=/root'', ''A=1''])"
proof -
  have o: "sd_env_overrides apps_def = Some [(''HOME'', ''/home/gem'')]" by (simp add: apps_def_def)
  note r = resolved_env_overrides [OF o, of "[''HOME=/root'', ''A=1'']"]
  from r have w: "\<forall>l. l \<in> set (resolved_env apps_def [''HOME=/root'', ''A=1'']) \<and>
      starts_with ''HOME='' l \<longleftrightarrow> l = ''HOME=/home/gem''" by simp
  from r have k: "\<forall>l. \<not> starts_with ''HOME='' l \<longrightarrow>
      l \<in> set (resolved_env apps_def [''HOME=/root'', ''A=1'']) \<longleftrightarrow> l \<in> set [''HOME=/root'', ''A=1'']"
    by simp
  show ?thesis
    using w k [rule_format, of "''A=1''"] w [rule_format, of "''HOME=/root''"]
    by (auto simp: starts_with_def)
qed

end
