(* ===== verification/Database.thy ===== *)
theory Database
  imports Service_Def "HOL-Library.Multiset"
begin

text \<open>
  \<^verbatim>\<open>db.rs\<close>: the \<^verbatim>\<open>apps\<close> and \<^verbatim>\<open>previews\<close> tables with the constraints of their schema, the queries on
  them, and the unified route map that the proxies are generated from. A table is the list of its
  rows in insertion order; a statement that breaks a constraint fails and changes nothing.
\<close>

section \<open>Tables\<close>

record app_record =
  ar_name :: string
  ar_subdomain :: string
  ar_internal_port :: u16
  ar_command :: string
  ar_directory :: string
  ar_env :: "string option"
  ar_priority :: int
  ar_user :: string
  ar_restart :: string
  ar_no_cache :: bool
  ar_source :: string
  ar_created_at :: string

record preview_record =
  pv_service :: string
  pv_subdomain :: string
  pv_host_port :: u16
  pv_sha :: string
  pv_color :: string
  pv_created_at :: string

record db =
  db_apps :: "app_record list"
  db_previews :: "preview_record list"
  db_now :: string    \<comment> \<open>\<^verbatim>\<open>datetime('now')\<close>\<close>
  db_down :: bool     \<comment> \<open>the database file cannot be used\<close>

text \<open>The schema's PRIMARY KEY and UNIQUE constraints.\<close>

definition db_valid :: "db \<Rightarrow> bool" where
  "db_valid d \<longleftrightarrow>
     distinct (map ar_name (db_apps d)) \<and> distinct (map ar_subdomain (db_apps d)) \<and>
     distinct (map pv_service (db_previews d)) \<and> distinct (map pv_subdomain (db_previews d))"

definition db_guard :: "string \<Rightarrow> (db, 'a) io \<Rightarrow> (db, 'a) io" where
  "db_guard what m d = (if db_down d then (Inl (IoError what), d) else m d)"

section \<open>Apps\<close>

definition insert_app :: "app_record \<Rightarrow> (db, unit) io" where
  "insert_app app = db_guard ''insert app'' (\<lambda>d.
     if ar_name app \<in> ar_name ` set (db_apps d) \<or> ar_subdomain app \<in> ar_subdomain ` set (db_apps d)
     then (Inl (ConstraintViolation (ar_name app)), d)
     else (Inr (), d\<lparr>db_apps := db_apps d @ [app\<lparr>ar_created_at := db_now d\<rparr>]\<rparr>))"

definition delete_app :: "string \<Rightarrow> (db, bool) io" where
  "delete_app name = db_guard ''delete app'' (\<lambda>d.
     (Inr (\<exists>a \<in> set (db_apps d). ar_name a = name),
      d\<lparr>db_apps := filter (\<lambda>a. ar_name a \<noteq> name) (db_apps d)\<rparr>))"

definition set_app_source :: "string \<Rightarrow> string \<Rightarrow> (db, bool) io" where
  "set_app_source name source = db_guard ''set source'' (\<lambda>d.
     (Inr (\<exists>a \<in> set (db_apps d). ar_name a = name),
      d\<lparr>db_apps := map (\<lambda>a. if ar_name a = name then a\<lparr>ar_source := source\<rparr> else a) (db_apps d)\<rparr>))"

definition list_apps :: "db \<Rightarrow> app_record list res" where
  "list_apps d =
     (if db_down d then Inl (IoError ''list apps'') else Inr (sort_key ar_name (db_apps d)))"

definition find_app_by_name :: "db \<Rightarrow> string \<Rightarrow> app_record option res" where
  "find_app_by_name d name = map_sum id (find (\<lambda>a. ar_name a = name)) (list_apps d)"

definition port_claimed :: "db \<Rightarrow> u16 \<Rightarrow> bool res" where
  "port_claimed d port =
     (if db_down d then Inl (IoError ''check port'')
      else Inr (0 < length (filter (\<lambda>a. ar_internal_port a = port) (db_apps d))))"

section \<open>Previews\<close>

definition upsert_preview :: "preview_record \<Rightarrow> (db, unit) io" where
  "upsert_preview p = db_guard ''upsert preview'' (\<lambda>d.
     if \<exists>q \<in> set (db_previews d). pv_subdomain q = pv_subdomain p \<and> pv_service q \<noteq> pv_service p
     then (Inl (ConstraintViolation (pv_service p)), d)
     else if \<exists>q \<in> set (db_previews d). pv_service q = pv_service p
     then (Inr (), d\<lparr>db_previews :=
             map (\<lambda>q. if pv_service q = pv_service p then p\<lparr>pv_created_at := pv_created_at q\<rparr> else q)
               (db_previews d)\<rparr>)
     else (Inr (), d\<lparr>db_previews := db_previews d @ [p\<lparr>pv_created_at := db_now d\<rparr>]\<rparr>))"

definition delete_preview :: "string \<Rightarrow> (db, bool) io" where
  "delete_preview service = db_guard ''delete preview'' (\<lambda>d.
     (Inr (\<exists>p \<in> set (db_previews d). pv_service p = service),
      d\<lparr>db_previews := filter (\<lambda>p. pv_service p \<noteq> service) (db_previews d)\<rparr>))"

definition list_previews :: "db \<Rightarrow> preview_record list res" where
  "list_previews d =
     (if db_down d then Inl (IoError ''list previews'') else Inr (sort_key pv_service (db_previews d)))"

definition find_preview :: "db \<Rightarrow> string \<Rightarrow> preview_record option res" where
  "find_preview d service = map_sum id (find (\<lambda>p. pv_service p = service)) (list_previews d)"

definition preview_subdomain :: "string \<Rightarrow> string" where
  "preview_subdomain service = service @ ''-preview''"

section \<open>Static routes\<close>

record static_route =
  sr_subdomain :: string
  sr_port :: u16
  sr_target :: string

type_synonym routes_parser = "string \<Rightarrow> static_route list option"

definition load_static_routes :: "routes_parser \<Rightarrow> fs \<Rightarrow> static_route list res" where
  "load_static_routes yaml f =
     (if \<not> path_exists f ROUTES_YAML then Inr []
      else case read_text f ROUTES_YAML of
             Inl e \<Rightarrow> Inl e
           | Inr data \<Rightarrow>
               (case yaml data of None \<Rightarrow> Inl (ParseError ROUTES_YAML) | Some rs \<Rightarrow> Inr rs))"

definition default_static_routes :: "static_route list" where
  "default_static_routes =
     [\<lparr>sr_subdomain = ''mcp'', sr_port = MCP_PORT, sr_target = ''host''\<rparr>,
      \<lparr>sr_subdomain = ''ci'', sr_port = UI_PORT, sr_target = ''host''\<rparr>]"

section \<open>The unified route map\<close>

record unified_route =
  ur_subdomain :: string
  ur_port :: u16
  ur_target :: string
  ur_internal_port :: "u16 option"
  ur_no_cache :: bool
  ur_auth_env :: "string option"

definition def_routes :: "service_def \<Rightarrow> unified_route list" where
  "def_routes def =
     [\<lparr>ur_subdomain = s, ur_port = np_container_port p, ur_target = sd_service def,
       ur_internal_port = None, ur_no_cache = False, ur_auth_env = np_auth p\<rparr>.
        p \<leftarrow> sd_ports def, np_protocol p \<noteq> ProtoUdp,
        s \<leftarrow> (case np_subdomain p of None \<Rightarrow> [] | Some s \<Rightarrow> [s])]"

definition static_to_route :: "static_route \<Rightarrow> unified_route" where
  "static_to_route r =
     \<lparr>ur_subdomain = sr_subdomain r, ur_port = sr_port r, ur_target = sr_target r,
      ur_internal_port = None, ur_no_cache = False, ur_auth_env = None\<rparr>"

definition app_to_route :: "app_record \<Rightarrow> unified_route" where
  "app_to_route a =
     \<lparr>ur_subdomain = ar_subdomain a, ur_port = 8080, ur_target = ''apps'',
      ur_internal_port = Some (ar_internal_port a), ur_no_cache = ar_no_cache a,
      ur_auth_env = None\<rparr>"

definition preview_to_route :: "preview_record \<Rightarrow> unified_route" where
  "preview_to_route p =
     \<lparr>ur_subdomain = pv_subdomain p, ur_port = pv_host_port p, ur_target = ''host'',
      ur_internal_port = None, ur_no_cache = True, ur_auth_env = None\<rparr>"

text \<open>
  The hash map is an association list keyed by subdomain: \<^verbatim>\<open>or_insert\<close> keeps an entry that is
  there, \<^verbatim>\<open>insert\<close> replaces it. Its iteration order is irrelevant, since the values are sorted.
\<close>

type_synonym route_table = "(string \<times> unified_route) list"

definition or_insert :: "unified_route \<Rightarrow> route_table \<Rightarrow> route_table" where
  "or_insert r t = (case map_of t (ur_subdomain r) of Some _ \<Rightarrow> t | None \<Rightarrow> AList.update (ur_subdomain r) r t)"

definition put_route :: "unified_route \<Rightarrow> route_table \<Rightarrow> route_table" where
  "put_route r t = AList.update (ur_subdomain r) r t"

definition route_layers ::
  "service_def list \<Rightarrow> static_route list \<Rightarrow> app_record list \<Rightarrow> preview_record list \<Rightarrow> route_table" where
  "route_layers defs statics apps previews =
     fold put_route (map preview_to_route previews)
       (fold put_route (map app_to_route apps)
         (fold put_route (map static_to_route statics)
           (fold or_insert (concat (map def_routes defs)) [])))"

definition build_route_map ::
  "yaml_parser \<Rightarrow> routes_parser \<Rightarrow> fs \<Rightarrow> db \<Rightarrow> unified_route list res" where
  "build_route_map yaml ryaml f d =
     (case load_all_defs yaml f of
        Inl e \<Rightarrow> Inl e
      | Inr defs \<Rightarrow>
          (let statics = (case load_static_routes ryaml f of
                            Inl _ \<Rightarrow> default_static_routes | Inr rs \<Rightarrow> rs)
           in case list_apps d of
                Inl e \<Rightarrow> Inl e
              | Inr apps \<Rightarrow>
                  (case list_previews d of
                     Inl e \<Rightarrow> Inl e
                   | Inr previews \<Rightarrow>
                       Inr (sort_key ur_subdomain
                              (map snd (route_layers defs statics apps previews))))))"

section \<open>Facts on the tables\<close>

lemmas db_op_defs = insert_app_def delete_app_def set_app_source_def upsert_preview_def
  delete_preview_def db_guard_def

lemma distinct_map_filter_iff: "distinct (map f xs) \<Longrightarrow> distinct (map f (filter P xs))"
  by (induction xs) auto

lemma map_field_update:
  "(\<And>x. f (g x) = f x) \<Longrightarrow> map f (map (\<lambda>x. if P x then g x else x) xs) = map f xs"
  by simp

lemma insert_app_valid: "io_keeps db_valid (insert_app a)"
  by (auto simp: io_keeps_def db_op_defs db_valid_def)

lemma delete_app_valid: "io_keeps db_valid (delete_app n)"
  by (auto simp: io_keeps_def db_op_defs db_valid_def distinct_map_filter_iff)

lemma set_app_source_valid: "io_keeps db_valid (set_app_source n s)"
proof -
  let ?g = "\<lambda>a :: app_record. if ar_name a = n then a\<lparr>ar_source := s\<rparr> else a"
  have "ar_name \<circ> ?g = ar_name" "ar_subdomain \<circ> ?g = ar_subdomain"
    by (simp_all add: fun_eq_iff)
  then show ?thesis by (simp add: io_keeps_def db_op_defs db_valid_def)
qed

lemma delete_preview_valid: "io_keeps db_valid (delete_preview s)"
  by (auto simp: io_keeps_def db_op_defs db_valid_def distinct_map_filter_iff)

definition replace_preview :: "preview_record \<Rightarrow> preview_record list \<Rightarrow> preview_record list" where
  "replace_preview p ps =
     map (\<lambda>q. if pv_service q = pv_service p then p\<lparr>pv_created_at := pv_created_at q\<rparr> else q) ps"

lemma replace_preview_Cons:
  "replace_preview p (q # ps) =
     (if pv_service q = pv_service p then p\<lparr>pv_created_at := pv_created_at q\<rparr> else q) #
     replace_preview p ps"
  by (simp add: replace_preview_def)

lemma replace_preview_services: "map pv_service (replace_preview p ps) = map pv_service ps"
  by (simp add: replace_preview_def)

lemma replace_preview_subdomain_cases:
  "x \<in> pv_subdomain ` set (replace_preview p ps) \<Longrightarrow>
   x = pv_subdomain p \<and> pv_service p \<in> pv_service ` set ps \<or> x \<in> pv_subdomain ` set ps"
  by (induction ps) (auto simp: replace_preview_def split: if_splits)

lemma replace_preview_subdomains:
  assumes "distinct (map pv_service ps)" and "distinct (map pv_subdomain ps)"
    and "\<forall>q \<in> set ps. pv_subdomain q = pv_subdomain p \<longrightarrow> pv_service q = pv_service p"
  shows "distinct (map pv_subdomain (replace_preview p ps))"
  using assms
proof (induction ps)
  case (Cons q ps)
  note sub = replace_preview_subdomain_cases [of _ p ps]
  have IH: "distinct (map pv_subdomain (replace_preview p ps))" using Cons by simp
  have q: "pv_service q \<notin> pv_service ` set ps" "pv_subdomain q \<notin> pv_subdomain ` set ps"
    using Cons.prems by simp_all
  show ?case
  proof (cases "pv_service q = pv_service p")
    case True
    have "pv_subdomain p \<notin> pv_subdomain ` set ps"
    proof
      assume "pv_subdomain p \<in> pv_subdomain ` set ps"
      then obtain r where "r \<in> set ps" "pv_subdomain r = pv_subdomain p" by (metis imageE)
      moreover from this have "pv_service r = pv_service p" using Cons.prems(3) by simp
      ultimately show False using q(1) True by (metis image_eqI)
    qed
    with True q(1) sub have "pv_subdomain p \<notin> pv_subdomain ` set (replace_preview p ps)" by metis
    with IH True show ?thesis by (simp add: replace_preview_Cons)
  next
    case False
    then have "pv_subdomain q \<noteq> pv_subdomain p" using Cons.prems(3) by (metis list.set_intros(1))
    with q(2) sub have "pv_subdomain q \<notin> pv_subdomain ` set (replace_preview p ps)" by metis
    with IH False show ?thesis by (simp add: replace_preview_Cons)
  qed
qed (simp add: replace_preview_def)

lemma upsert_preview_alt:
  "upsert_preview p = db_guard ''upsert preview'' (\<lambda>d.
     if \<exists>q \<in> set (db_previews d). pv_subdomain q = pv_subdomain p \<and> pv_service q \<noteq> pv_service p
     then (Inl (ConstraintViolation (pv_service p)), d)
     else if \<exists>q \<in> set (db_previews d). pv_service q = pv_service p
     then (Inr (), d\<lparr>db_previews := replace_preview p (db_previews d)\<rparr>)
     else (Inr (), d\<lparr>db_previews := db_previews d @ [p\<lparr>pv_created_at := db_now d\<rparr>]\<rparr>))"
  unfolding upsert_preview_def replace_preview_def ..

lemma upsert_preview_valid: "io_keeps db_valid (upsert_preview p)"
  unfolding io_keeps_def
proof (intro allI impI)
  fix d assume v: "db_valid d"
  show "db_valid (snd (upsert_preview p d))"
  proof (cases "db_down d \<or> (\<exists>q \<in> set (db_previews d).
      pv_subdomain q = pv_subdomain p \<and> pv_service q \<noteq> pv_service p)")
    case True
    then have "snd (upsert_preview p d) = d" by (auto simp: upsert_preview_alt db_guard_def)
    with v show ?thesis by simp
  next
    case False
    show ?thesis
    proof (cases "\<exists>q \<in> set (db_previews d). pv_service q = pv_service p")
      case True
      have "distinct (map pv_subdomain (replace_preview p (db_previews d)))"
        by (rule replace_preview_subdomains) (use v False in \<open>auto simp: db_valid_def\<close>)
      moreover have "snd (upsert_preview p d) = d\<lparr>db_previews := replace_preview p (db_previews d)\<rparr>"
        using True False by (auto simp: upsert_preview_alt db_guard_def)
      ultimately show ?thesis using v by (simp add: db_valid_def replace_preview_services)
    next
      case not: False
      with False have "snd (upsert_preview p d) =
          d\<lparr>db_previews := db_previews d @ [p\<lparr>pv_created_at := db_now d\<rparr>]\<rparr>"
        by (auto simp: upsert_preview_alt db_guard_def)
      then show ?thesis using v False not by (auto simp: db_valid_def)
    qed
  qed
qed

section \<open>Facts on the route map\<close>

definition keyed :: "route_table \<Rightarrow> bool" where
  "keyed t \<longleftrightarrow> distinct (map fst t) \<and> (\<forall>(s, r) \<in> set t. ur_subdomain r = s)"

definition pick :: "string \<Rightarrow> unified_route list \<Rightarrow> unified_route option" where
  "pick s rs = find (\<lambda>r. ur_subdomain r = s) rs"

lemma keyed_Nil [simp]: "keyed []"
  by (simp add: keyed_def)

lemma set_update_subset: "set (AList.update k v t) \<subseteq> insert (k, v) (set t)"
  by (induction t) auto

lemma keyed_put: "keyed t \<Longrightarrow> keyed (put_route r t)"
  using set_update_subset [of "ur_subdomain r" r t]
  by (fastforce simp: keyed_def put_route_def distinct_update)

lemma keyed_or_insert: "keyed t \<Longrightarrow> keyed (or_insert r t)"
  using keyed_put [of t r] by (simp add: or_insert_def put_route_def split: option.splits)

lemma keyed_fold: "(\<And>t r. keyed t \<Longrightarrow> keyed (f r t)) \<Longrightarrow> keyed t \<Longrightarrow> keyed (fold f rs t)"
  by (induction rs arbitrary: t) auto

lemma keyed_layers: "keyed (route_layers defs statics apps previews)"
  unfolding route_layers_def by (intro keyed_fold keyed_put keyed_or_insert) simp_all

lemma pick_append: "pick s (xs @ ys) = (case pick s xs of Some r \<Rightarrow> Some r | None \<Rightarrow> pick s ys)"
  by (induction xs) (simp_all add: pick_def)

lemma map_of_put: "map_of (put_route r t) s = (if ur_subdomain r = s then Some r else map_of t s)"
  by (simp add: put_route_def update_conv')

lemma map_of_fold_put:
  "map_of (fold put_route rs t) s = (case pick s (rev rs) of Some r \<Rightarrow> Some r | None \<Rightarrow> map_of t s)"
proof (induction rs arbitrary: t)
  case (Cons r rs)
  show ?case
    unfolding fold.simps comp_def Cons rev.simps pick_append map_of_put
    by (simp add: pick_def split: option.splits)
qed (simp add: pick_def)

lemma map_of_or_insert:
  "map_of (or_insert r t) s =
     (case map_of t s of Some x \<Rightarrow> Some x | None \<Rightarrow> if ur_subdomain r = s then Some r else None)"
  by (auto simp: or_insert_def update_conv' split: option.splits)

lemma map_of_fold_or_insert:
  "map_of (fold or_insert rs t) s = (case map_of t s of Some x \<Rightarrow> Some x | None \<Rightarrow> pick s rs)"
proof (induction rs arbitrary: t)
  case (Cons r rs)
  show ?case
    unfolding fold.simps comp_def Cons map_of_or_insert
    by (simp add: pick_def split: option.splits)
qed (simp add: pick_def split: option.splits)

text \<open>The answer for one subdomain: previews first, then apps, static routes and declarations.\<close>

fun first_some :: "'a option list \<Rightarrow> 'a option" where
  "first_some [] = None"
| "first_some (x # xs) = (case x of Some a \<Rightarrow> Some a | None \<Rightarrow> first_some xs)"

definition layered_route ::
  "service_def list \<Rightarrow> static_route list \<Rightarrow> app_record list \<Rightarrow> preview_record list \<Rightarrow>
   string \<Rightarrow> unified_route option" where
  "layered_route defs statics apps previews s =
     first_some [pick s (rev (map preview_to_route previews)), pick s (rev (map app_to_route apps)),
       pick s (rev (map static_to_route statics)), pick s (concat (map def_routes defs))]"

lemma map_of_layers:
  "map_of (route_layers defs statics apps previews) s = layered_route defs statics apps previews s"
  by (simp add: route_layers_def layered_route_def map_of_fold_put map_of_fold_or_insert
      split: option.splits)

lemma keyed_subdomains: "keyed t \<Longrightarrow> map ur_subdomain (map snd t) = map fst t"
  by (auto simp: keyed_def)

lemma pick_unique:
  assumes "distinct (map ur_subdomain rs)"
  shows "pick s rs = Some r \<longleftrightarrow> r \<in> set rs \<and> ur_subdomain r = s"
  using assms unfolding pick_def by (induction rs) (auto simp: rev_image_eqI)

lemma pick_in: "pick s rs = Some r \<Longrightarrow> r \<in> set rs"
  by (auto simp: pick_def find_Some_iff)

lemma pick_None: "pick s rs = None \<longleftrightarrow> (\<forall>r \<in> set rs. ur_subdomain r \<noteq> s)"
  by (auto simp: pick_def find_None_iff)

lemma pick_keyed:
  assumes "keyed t" and "set rs = set (map snd t)" and "distinct (map ur_subdomain rs)"
  shows "pick s rs = map_of t s"
proof -
  have k: "distinct (map fst t)" "\<And>a r. (a, r) \<in> set t \<Longrightarrow> ur_subdomain r = a"
    using assms(1) by (auto simp: keyed_def)
  have "pick s rs = Some r \<longleftrightarrow> map_of t s = Some r" for r
  proof -
    have "r \<in> set rs \<longleftrightarrow> (\<exists>a. (a, r) \<in> set t)" using assms(2) by force
    then show ?thesis
      using k pick_unique [OF assms(3)] by (metis map_of_eq_Some_iff)
  qed
  then show ?thesis by (metis not_None_eq)
qed

lemma sort_key_routes:
  assumes "keyed t"
  shows "sorted (map ur_subdomain (sort_key ur_subdomain (map snd t)))"
    and "distinct (map ur_subdomain (sort_key ur_subdomain (map snd t)))"
    and "pick s (sort_key ur_subdomain (map snd t)) = map_of t s"
proof -
  let ?rs = "sort_key ur_subdomain (map snd t)"
  show "sorted (map ur_subdomain ?rs)" by simp
  have "mset (map ur_subdomain ?rs) = mset (map ur_subdomain (map snd t))"
    by (simp only: mset_map mset_sort)
  also have "\<dots> = mset (map fst t)" by (simp only: keyed_subdomains [OF assms])
  finally have "mset (map ur_subdomain ?rs) = mset (map fst t)" .
  then show d: "distinct (map ur_subdomain ?rs)"
    using assms by (metis keyed_def mset_eq_imp_distinct_iff)
  show "pick s ?rs = map_of t s" by (rule pick_keyed [OF assms _ d]) simp
qed

section \<open>Databases the statements can produce\<close>

inductive db_reach :: "db \<Rightarrow> bool" where
  created: "db_apps d = [] \<Longrightarrow> db_previews d = [] \<Longrightarrow> db_reach d"
| insert: "db_reach d \<Longrightarrow> insert_app a d = (r, d') \<Longrightarrow> db_reach d'"
| delete: "db_reach d \<Longrightarrow> delete_app n d = (b, d') \<Longrightarrow> db_reach d'"
| source: "db_reach d \<Longrightarrow> set_app_source n s d = (b, d') \<Longrightarrow> db_reach d'"
| upsert: "db_reach d \<Longrightarrow> upsert_preview p d = (r, d') \<Longrightarrow> db_reach d'"
| drop_preview: "db_reach d \<Longrightarrow> delete_preview s d = (b, d') \<Longrightarrow> db_reach d'"
| outside: "db_reach d \<Longrightarrow> db_reach (d\<lparr>db_now := t, db_down := f\<rparr>)"

lemma db_reach_valid: "db_reach d \<Longrightarrow> db_valid d"
proof (induction rule: db_reach.induct)
  case (created d)
  then show ?case by (simp add: db_valid_def)
next
  case (outside d t f)
  then show ?case by (simp add: db_valid_def)
qed (metis io_keepsD insert_app_valid delete_app_valid set_app_source_valid upsert_preview_valid
      delete_preview_valid)+

lemma find_by_key:
  assumes "distinct (map k xs)" and "x \<in> set xs" and "k x = n"
  shows "find (\<lambda>a. k a = n) xs = Some x"
  using assms by (induction xs) (auto simp: rev_image_eqI)

lemma find_sort_key:
  assumes "distinct (map k xs)" and "x \<in> set xs"
  shows "find (\<lambda>a. k a = k x) (sort_key (h :: _ \<Rightarrow> 'b :: linorder) xs) = Some x"
proof (rule find_by_key)
  have "mset (map k (sort_key h xs)) = mset (map k xs)" by (simp only: mset_map mset_sort)
  then show "distinct (map k (sort_key h xs))" using assms(1) mset_eq_imp_distinct_iff by metis
qed (use assms in simp_all)

lemma build_route_map_spec:
  assumes "build_route_map yaml ryaml f d = Inr routes"
  shows "sorted (map ur_subdomain routes) \<and> distinct (map ur_subdomain routes) \<and>
    (\<exists>defs apps previews. load_all_defs yaml f = Inr defs \<and> list_apps d = Inr apps \<and>
       list_previews d = Inr previews \<and>
       (\<forall>s. pick s routes =
          layered_route defs
            (case load_static_routes ryaml f of Inl _ \<Rightarrow> default_static_routes | Inr rs \<Rightarrow> rs)
            apps previews s))"
proof -
  let ?statics = "case load_static_routes ryaml f of Inl _ \<Rightarrow> default_static_routes | Inr rs \<Rightarrow> rs"
  from assms obtain defs apps previews where l: "load_all_defs yaml f = Inr defs"
    "list_apps d = Inr apps" "list_previews d = Inr previews"
    and r: "routes = sort_key ur_subdomain (map snd (route_layers defs ?statics apps previews))"
    by (auto simp: build_route_map_def Let_def split: sum.splits)
  note k = keyed_layers [of defs ?statics apps previews]
  from l sort_key_routes [OF k] map_of_layers [of defs ?statics apps previews] show ?thesis
    unfolding r by metis
qed

section \<open>Correctness\<close>


definition sample_app :: app_record where
  "sample_app =
     \<lparr>ar_name = ''web'', ar_subdomain = ''web'', ar_internal_port = 3000,
      ar_command = ''node server.js'', ar_directory = ''/home/gem/web'', ar_env = None,
      ar_priority = 100, ar_user = ''gem'', ar_restart = ''always'', ar_no_cache = False,
      ar_source = ''runtime'', ar_created_at = ''t0''\<rparr>"

definition sample_preview :: preview_record where
  "sample_preview =
     \<lparr>pv_service = ''apps'', pv_subdomain = ''web'', pv_host_port = 8082, pv_sha = ''abc'',
      pv_color = ''green'', pv_created_at = ''t0''\<rparr>"

definition sample_db :: db where
  "sample_db =
     \<lparr>db_apps = [sample_app], db_previews = [sample_preview], db_now = ''t0'', db_down = False\<rparr>"

lemma sample_db_reach: "db_reach sample_db"
proof -
  let ?d0 = "\<lparr>db_apps = [], db_previews = [], db_now = ''t0'', db_down = False\<rparr> :: db"
  let ?d1 = "?d0\<lparr>db_apps := [sample_app]\<rparr>"
  have "insert_app sample_app ?d0 = (Inr (), ?d1)"
    by (simp add: insert_app_def db_guard_def sample_app_def)
  moreover have "upsert_preview sample_preview ?d1 = (Inr (), sample_db)"
    by (simp add: upsert_preview_def db_guard_def sample_db_def sample_preview_def)
  moreover have "db_reach ?d0" by (rule db_reach.created) simp_all
  ultimately show ?thesis by (meson db_reach.insert db_reach.upsert)
qed


text \<open>
  C15: The route map is sorted by subdomain, has one route per subdomain, and answers every subdomain
  by precedence: a preview route wins over a runtime app, an app over a static route, and a static
  route over a port of a service declaration; UDP ports are never routed.
\<close>

theorem build_route_map_layers:
  assumes "build_route_map yaml ryaml f d = Inr routes"
  shows "sorted (map ur_subdomain routes) \<and> distinct (map ur_subdomain routes) \<and>
    (\<exists>defs apps previews. load_all_defs yaml f = Inr defs \<and> list_apps d = Inr apps \<and>
       list_previews d = Inr previews \<and>
       (\<forall>s. pick s routes =
          layered_route defs
            (case load_static_routes ryaml f of Inl _ \<Rightarrow> default_static_routes | Inr rs \<Rightarrow> rs)
            apps previews s))"
  by (rule build_route_map_spec [OF assms])

lemma build_route_map_layers_witness:
  "\<exists>routes. build_route_map (\<lambda>_. None) (\<lambda>_. None) empty_fs sample_db = Inr routes \<and>
     pick ''web'' routes = Some (preview_to_route sample_preview)"
proof -
  have l: "load_all_defs (\<lambda>_. None) empty_fs = Inr []"
    "load_static_routes (\<lambda>_. None) empty_fs = Inr []"
    by (simp_all add: load_all_defs_def load_static_routes_def SERVICES_DIR_def ROUTES_YAML_def)
  have q: "list_apps sample_db = Inr [sample_app]" "list_previews sample_db = Inr [sample_preview]"
    by (simp_all add: list_apps_def list_previews_def sample_db_def)
  obtain routes where r: "build_route_map (\<lambda>_. None) (\<lambda>_. None) empty_fs sample_db = Inr routes"
    using l q by (auto simp: build_route_map_def)
  have "pick ''web'' routes = layered_route [] [] [sample_app] [sample_preview] ''web''"
    using build_route_map_layers [OF r] l q by simp
  also have "\<dots> = Some (preview_to_route sample_preview)"
    by (simp add: layered_route_def pick_def preview_to_route_def sample_preview_def)
  finally show ?thesis using r by blast
qed

end
