(* ===== verification/S6_Bundles.thy ===== *)
theory S6_Bundles
  imports Database
begin

text \<open>
  The second half of \<^verbatim>\<open>db.rs\<close>: one s6 service bundle per runtime-managed app, the pruning of stale
  bundles, and the shell scripts in them with their quoting. File modes are not modelled.
\<close>

definition shell_quote :: "string \<Rightarrow> string" where
  "shell_quote s = [quote1] @ replace_str [quote1] [quote1, backslash, quote1, quote1] s @ [quote1]"

type_synonym env_json_parser = "string \<Rightarrow> (string \<times> string) list option"

definition render_env :: "env_json_parser \<Rightarrow> app_record \<Rightarrow> string" where
  "render_env json app =
     (case ar_env app of
        None \<Rightarrow> []
      | Some j \<Rightarrow>
          (case json j of
             None \<Rightarrow> []
           | Some pairs \<Rightarrow>
               concat (map (\<lambda>(k, v). ''export '' @ k @ ''='' @ shell_quote v @ [newline, newline])
                 (sort_key fst pairs))))"

definition run_header :: string where
  "run_header =
     ''#!/bin/bash'' @ [newline] @
     ''. /usr/local/bin/s6-load-locale-env'' @ [newline] @
     ''export PATH='' @ [quote2] @ ''/nix/var/nix/profiles/default/bin:$PATH'' @ [quote2] @ [newline] @
     ''export HOME=/home/gem'' @ [newline]"

definition render_run :: "env_json_parser \<Rightarrow> app_record \<Rightarrow> string" where
  "render_run json app =
     run_header @ render_env json app @
     ''cd '' @ shell_quote (ar_directory app) @ [newline, newline] @
     ''exec /command/s6-setuidgid '' @ shell_quote (ar_user app) @ '' bash -c '' @
     shell_quote (ar_command app) @ [newline, newline]"

definition render_finish :: "string \<Rightarrow> string" where
  "render_finish policy =
     (if policy = ''on_failure''
      then ''#!/bin/bash'' @ [newline] @ ''if [ '' @ [quote2] @ ''$1'' @ [quote2] @ '' = '' @ [quote2] @
           ''0'' @ [quote2] @ '' ]; then exec /command/s6-svc -d .; fi'' @ [newline] @ ''exit 0'' @ [newline]
      else ''#!/bin/bash'' @ [newline] @ ''exec /command/s6-svc -d .'' @ [newline])"

definition write_executable :: "string \<Rightarrow> string \<Rightarrow> (fs, unit) io" where
  "write_executable path content = write_text path content"

definition write_bundle :: "env_json_parser \<Rightarrow> string \<Rightarrow> app_record \<Rightarrow> (fs, unit) io" where
  "write_bundle json dir app =
     (let bdir = path_join dir (ar_name app)
      in io_then (create_dir_all (path_join bdir ''dependencies.d''))
        (io_then (write_text (path_join bdir ''type'') (''longrun'' @ [newline]))
        (io_then (write_text (path_join (path_join bdir ''dependencies.d'') ''base'') [])
        (io_then (write_text (path_join bdir ''timeout-kill'') (''10000'' @ [newline]))
        (io_then (write_executable (path_join bdir ''run'') (render_run json app))
        (if ar_restart app = ''always''
         then io_bind (io_try (remove_file (path_join bdir ''finish''))) (\<lambda>_. io_return ())
         else write_executable (path_join bdir ''finish'') (render_finish (ar_restart app))))))))"

definition managed :: "app_record list \<Rightarrow> string \<Rightarrow> bool" where
  "managed apps name \<longleftrightarrow> (\<exists>a \<in> set apps. ar_name a = name \<and> ar_source a = ''runtime'')"

definition prune_bundle :: "app_record list \<Rightarrow> string \<Rightarrow> (fs, unit) io" where
  "prune_bundle apps path f =
     (if path \<in> set (dirs f) \<and> \<not> managed apps (file_name path) then remove_dir_all path f
      else (Inr (), f))"

definition sync_s6_to_dir :: "env_json_parser \<Rightarrow> db \<Rightarrow> string \<Rightarrow> (fs, unit) io" where
  "sync_s6_to_dir json d dir =
     io_bind (io_lift (list_apps d)) (\<lambda>apps.
       io_then (create_dir_all dir)
         (io_bind (\<lambda>f. (read_dir dir f, f)) (\<lambda>entries.
            io_then (io_each (prune_bundle apps) entries)
              (io_each (write_bundle json dir) (filter (\<lambda>a. ar_source a = ''runtime'') apps)))))"

definition sync_s6 :: "env_json_parser \<Rightarrow> db \<Rightarrow> (fs, unit) io" where
  "sync_s6 json d = sync_s6_to_dir json d APPS_S6_DIR"

section \<open>A reading of the generated shell\<close>

text \<open>
  \<open>sh_lex cur quoted s\<close> reads the words of one simple command up to the end of its line, as a POSIX
  shell does: single quotes keep everything literally, a backslash outside them quotes the next
  character, blanks separate words. Any other character with a meaning to the shell makes the
  command not simple, and the result is \<open>None\<close>.
\<close>

definition sh_special :: "char \<Rightarrow> bool" where
  "sh_special c \<longleftrightarrow> c \<in> set ''$`;&|<>(){}*?[]#~!'' \<or> c = quote2"

fun sh_lex :: "string option \<Rightarrow> bool \<Rightarrow> string \<Rightarrow> (string list \<times> string) option" where
  "sh_lex cur True [] = None"
| "sh_lex cur True (c # cs) =
     (if c = quote1 then sh_lex cur False cs
      else sh_lex (Some (case cur of None \<Rightarrow> [c] | Some w \<Rightarrow> w @ [c])) True cs)"
| "sh_lex cur False [] = Some (case cur of None \<Rightarrow> [] | Some w \<Rightarrow> [w], [])"
| "sh_lex cur False [c] =
     (if c = quote1 \<or> c = backslash \<or> sh_special c then None
      else if c = newline \<or> c = CHR '' '' then Some (case cur of None \<Rightarrow> [] | Some w \<Rightarrow> [w], [])
      else Some ([case cur of None \<Rightarrow> [c] | Some w \<Rightarrow> w @ [c]], []))"
| "sh_lex cur False (c # d # cs) =
     (if c = quote1 then sh_lex (Some (case cur of None \<Rightarrow> [] | Some w \<Rightarrow> w)) True (d # cs)
      else if c = backslash then sh_lex (Some (case cur of None \<Rightarrow> [d] | Some w \<Rightarrow> w @ [d])) False cs
      else if sh_special c then None
      else if c = newline then Some (case cur of None \<Rightarrow> [] | Some w \<Rightarrow> [w], d # cs)
      else if c = CHR '' ''
        then map_option (\<lambda>(ws, r). ((case cur of None \<Rightarrow> ws | Some w \<Rightarrow> w # ws), r))
               (sh_lex None False (d # cs))
      else sh_lex (Some (case cur of None \<Rightarrow> [c] | Some w \<Rightarrow> w @ [c])) False (d # cs))"

definition sh_words :: "string \<Rightarrow> (string list \<times> string) option" where
  "sh_words s = sh_lex None False s"

lemma replace_quote:
  "replace_str [q] r (c # cs) = (if c = q then r else [c]) @ replace_str [q] r cs"
  "replace_str [q] r [] = []"
  by (simp_all add: replace_str.simps [of _ _ "c # cs"] replace_str.simps [of _ _ "[]"])

lemma sh_lex_quoted:
  "sh_lex (Some w) True (replace_str [quote1] [quote1, backslash, quote1, quote1] s @ quote1 # rest) =
   sh_lex (Some (w @ s)) False rest"
proof (induction s arbitrary: w)
  case Nil
  then show ?case by (simp add: replace_quote)
next
  case (Cons c s)
  show ?case
  proof (cases "c = quote1")
    case True
    show ?thesis
    proof (cases "replace_str [quote1] [quote1, backslash, quote1, quote1] s")
      case Nil
      with True Cons [of "w @ [quote1]"] show ?thesis by (simp add: replace_quote)
    next
      case (Cons d ds)
      with True Cons.IH [of "w @ [quote1]"] show ?thesis by (simp add: replace_quote)
    qed
  next
    case False
    with Cons [of "w @ [c]"] show ?thesis by (simp add: replace_quote)
  qed
qed

lemma sh_lex_shell_quote:
  "sh_lex cur False (shell_quote s @ rest) =
   sh_lex (Some ((case cur of None \<Rightarrow> [] | Some w \<Rightarrow> w) @ s)) False rest"
  using sh_lex_quoted [of "case cur of None \<Rightarrow> [] | Some w \<Rightarrow> w" s rest]
  by (cases "replace_str [quote1] [quote1, backslash, quote1, quote1] s")
    (simp_all add: shell_quote_def)

lemma sh_lex_blank_quote:
  "sh_lex cur False (CHR '' '' # shell_quote s @ rest) =
   map_option (\<lambda>(ws, r). ((case cur of None \<Rightarrow> ws | Some w \<Rightarrow> w # ws), r))
     (sh_lex (Some s) False rest)"
proof -
  obtain d ds where q: "shell_quote s @ rest = d # ds" by (simp add: shell_quote_def)
  have "sh_lex None False (d # ds) = sh_lex (Some s) False rest"
    using sh_lex_shell_quote [of None s rest] q by simp
  then show ?thesis unfolding q by (simp add: sh_special_def)
qed

section \<open>What a sync leaves on disk\<close>

definition plain_dir :: "string \<Rightarrow> bool" where
  "plain_dir d \<longleftrightarrow> d \<noteq> [] \<and> last d \<noteq> CHR ''/''"

definition plain_name :: "string \<Rightarrow> bool" where
  "plain_name n \<longleftrightarrow> n \<noteq> [] \<and> CHR ''/'' \<notin> set n"

lemma join_plain: "plain_dir d \<Longrightarrow> plain_name n \<Longrightarrow> path_join d n = d @ ''/'' @ n"
  by (rule path_join_relative) (auto simp: plain_dir_def plain_name_def starts_with_iff)

lemma plain_dir_join: "plain_name n \<Longrightarrow> plain_dir (d @ ''/'' @ n)"
  by (auto simp: plain_dir_def plain_name_def dest: last_in_set)

lemma bundle_names [simp]:
  "plain_name ''type''" "plain_name ''dependencies.d''" "plain_name ''base''"
  "plain_name ''timeout-kill''" "plain_name ''run''" "plain_name ''finish''"
  by (simp_all add: plain_name_def)

definition bundle_dir :: "string \<Rightarrow> app_record \<Rightarrow> string" where
  "bundle_dir dir app = dir @ ''/'' @ ar_name app"

lemma write_bundle_alt:
  assumes "plain_dir dir" and "plain_name (ar_name app)"
  shows "write_bundle json dir app =
      (let b = bundle_dir dir app
       in io_then (create_dir_all (b @ ''/dependencies.d''))
        (io_then (write_text (b @ ''/type'') (''longrun'' @ [newline]))
        (io_then (write_text (b @ ''/dependencies.d/base'') [])
        (io_then (write_text (b @ ''/timeout-kill'') (''10000'' @ [newline]))
        (io_then (write_text (b @ ''/run'') (render_run json app))
        (if ar_restart app = ''always''
         then io_bind (io_try (remove_file (b @ ''/finish''))) (\<lambda>_. io_return ())
         else write_text (b @ ''/finish'') (render_finish (ar_restart app))))))))"
proof -
  have b: "path_join dir (ar_name app) = bundle_dir dir app" "plain_dir (bundle_dir dir app)"
    using assms by (simp_all add: join_plain bundle_dir_def plain_dir_join [simplified])
  have d: "plain_dir (bundle_dir dir app @ ''/dependencies.d'')"
    by (simp add: plain_dir_def)
  show ?thesis
    unfolding write_bundle_def Let_def b write_executable_def
    using b(2) d by (simp add: join_plain)
qed

lemma keeps_write_other: "p \<noteq> q \<Longrightarrow> io_keeps (\<lambda>f. file_at f p = c) (write_text q t)"
  by (simp add: io_keeps_def)

lemma keeps_mkdir: "io_keeps (\<lambda>f. file_at f p = c) (create_dir_all d)"
  unfolding io_keeps_def by (metis mkdir_same prod.collapse)

lemma keeps_remove_other: "p \<noteq> q \<Longrightarrow> io_keeps (\<lambda>f. file_at f p = c) (remove_file q)"
  by (simp add: io_keeps_def remove_file_def file_at_def delete_conv')

lemmas keeps_file = keeps_write_other keeps_mkdir keeps_remove_other

lemma write_bundle_other:
  assumes "plain_dir dir" and "plain_name (ar_name app)" and "\<not> below (bundle_dir dir app) p"
  shows "io_keeps (\<lambda>f. file_at f p = c) (write_bundle json dir app)"
proof -
  have n: "p \<noteq> bundle_dir dir app @ ''/'' @ x" for x
    using assms(3) by (auto simp: below_def starts_with_iff)
  then have m: "p \<noteq> bundle_dir dir app @ CHR ''/'' # x" for x by simp
  show ?thesis
    unfolding write_bundle_alt [OF assms(1,2)] Let_def
    by (intro io_valid keeps_file) (use m in auto)
qed

lemma triple_write: "io_triple P (write_text q t) (\<lambda>_ f. file_at f q = Some t) (\<lambda>_. True)"
  by (auto simp: io_triple_def write_text_def)

lemma triple_of_keeps:
  "io_keeps P m \<Longrightarrow> io_triple P m (\<lambda>_. P) (\<lambda>_. True)"
  by (auto simp: io_keeps_iff_triple elim: io_triple_weaken)

lemma triple_true: "io_triple P m (\<lambda>_ _. True) (\<lambda>_. True)"
  by (simp add: io_triple_def split: prod.splits sum.splits)

lemma write_bundle_run:
  assumes "plain_dir dir" and "plain_name (ar_name app)"
  shows "io_triple P (write_bundle json dir app)
    (\<lambda>_ f. file_at f (bundle_dir dir app @ ''/run'') = Some (render_run json app)) (\<lambda>_. True)"
  unfolding write_bundle_alt [OF assms] Let_def
  by (rule io_triple_then [OF triple_true] io_triple_then [OF triple_write] triple_of_keeps
      io_keeps_if io_keeps_bind io_keeps_try keeps_file io_keeps_basic | simp)+

lemma bundle_below:
  assumes "plain_name (ar_name a)" "plain_name (ar_name b)" and "ar_name a \<noteq> ar_name b"
  shows "\<not> below (bundle_dir dir a) (bundle_dir dir b @ ''/'' @ x)"
proof
  assume "below (bundle_dir dir a) (bundle_dir dir b @ ''/'' @ x)"
  then obtain r where "ar_name b @ ''/'' @ x = ar_name a @ ''/'' @ r"
    by (auto simp: below_def bundle_dir_def starts_with_iff)
  moreover have "split_once (CHR ''/'') (ar_name b @ ''/'' @ x) = Some (ar_name b, x)"
    "split_once (CHR ''/'') (ar_name a @ ''/'' @ r) = Some (ar_name a, r)"
    using assms by (simp_all add: plain_name_def)
  ultimately show False using assms(3) by simp
qed

definition run_ready :: "env_json_parser \<Rightarrow> string \<Rightarrow> app_record \<Rightarrow> fs \<Rightarrow> bool" where
  "run_ready json dir a f \<longleftrightarrow> file_at f (bundle_dir dir a @ ''/run'') = Some (render_run json a)"

lemma write_bundles_ready:
  assumes "plain_dir dir" and "\<forall>a \<in> set apps. plain_name (ar_name a)"
    and "distinct (map ar_name apps)"
  shows "io_triple (\<lambda>_. True) (io_each (write_bundle json dir) apps)
    (\<lambda>_ f. \<forall>a \<in> set apps. run_ready json dir a f) (\<lambda>_. True)"
  using assms(2,3)
proof (induction apps)
  case (Cons a apps)
  have pa: "plain_name (ar_name a)" using Cons.prems(1) by (rule bspec) simp
  have pb: "\<forall>b \<in> set apps. plain_name (ar_name b)" using Cons.prems(1) by (meson list.set_intros(2))
  have "io_keeps (run_ready json dir a) (write_bundle json dir b)" if "b \<in> set apps" for b
  proof -
    have "ar_name b \<noteq> ar_name a" using Cons.prems(2) that by (metis distinct.simps(2) image_eqI list.simps(9) set_map)
    then have "\<not> below (bundle_dir dir b) (bundle_dir dir a @ ''/'' @ ''run'')"
      using pb pa that by (intro bundle_below) simp_all
    then show ?thesis
      unfolding run_ready_def using pb that assms(1) by (intro write_bundle_other) simp_all
  qed
  then have keep: "io_triple (run_ready json dir a) (io_each (write_bundle json dir) apps)
      (\<lambda>_. run_ready json dir a) (\<lambda>_. True)"
    by (intro triple_of_keeps io_keeps_each)
  have "distinct (map ar_name apps)" using Cons.prems(2) by simp
  note rest = Cons.IH [OF pb this]
  have "io_triple (run_ready json dir a) (io_each (write_bundle json dir) apps)
      (\<lambda>_ f. \<forall>b \<in> set (a # apps). run_ready json dir b f) (\<lambda>_. True)"
    by (rule io_triple_weaken [OF io_triple_conj [OF keep rest]]) simp_all
  moreover have "io_triple (\<lambda>_. True) (write_bundle json dir a) (\<lambda>_. run_ready json dir a) (\<lambda>_. True)"
    unfolding run_ready_def by (rule write_bundle_run [OF assms(1) pa])
  ultimately show ?case unfolding io_each.simps by (rule io_triple_then [rotated])
qed (simp add: io_triple_def io_defs)

definition pruned :: "app_record list \<Rightarrow> string \<Rightarrow> string list \<Rightarrow> fs \<Rightarrow> bool" where
  "pruned apps dir todo f \<longleftrightarrow>
     (\<forall>p \<in> set (dirs f). parent_dir p = dir \<longrightarrow> p \<in> set todo \<or> managed apps (file_name p))"

lemma prune_step:
  "io_triple (pruned apps dir (x # xs)) (prune_bundle apps x) (\<lambda>_. pruned apps dir xs) (\<lambda>_. True)"
  unfolding io_triple_iff pruned_def prune_bundle_def remove_dir_all_def
  by (auto split: if_splits)

lemma prune_all:
  "io_triple (pruned apps dir xs) (io_each (prune_bundle apps) xs) (\<lambda>_. pruned apps dir []) (\<lambda>_. True)"
proof (induction xs)
  case (Cons x xs)
  then show ?case unfolding io_each.simps by (rule io_triple_then [OF prune_step])
qed (simp add: io_triple_def io_defs)

lemma ancestors_in_dir:
  assumes "a \<in> set (ancestors (dir @ ''/'' @ n @ ''/'' @ m))" and "plain_dir dir" and "plain_name n"
    and "CHR ''/'' \<notin> set m" and "parent_dir a = dir"
  shows "file_name a = n"
proof -
  have a: "a = dir @ ''/'' @ file_name a" "CHR ''/'' \<notin> set (file_name a)"
    using parent_dir_cases [OF assms(5)] assms(2) by (auto simp: plain_dir_def)
  obtain r where "dir @ ''/'' @ n @ ''/'' @ m = a @ r" "r = [] \<or> hd r = CHR ''/''"
    using ancestors_prefix [OF assms(1)] by blast
  with a(1) have eq: "n @ ''/'' @ m = file_name a @ r" by (metis append.assoc same_append_eq)
  then have "r \<noteq> []" using a(2) by (metis append_Nil2 in_set_conv_decomp append_Cons append_Nil)
  with \<open>r = [] \<or> _\<close> obtain r' where "r = CHR ''/'' # r'" by (cases r) auto
  with eq have "split_once (CHR ''/'') (n @ CHR ''/'' # m) = Some (file_name a, r')"
    using a(2) by simp
  then show ?thesis using assms(3) by (simp add: plain_name_def)
qed

lemma keeps_pruned:
  "io_keeps (pruned apps dir xs) (write_text q t)" "io_keeps (pruned apps dir xs) (remove_file q)"
  by (auto simp: io_keeps_def write_text_def remove_file_def pruned_def)

lemma write_bundle_pruned:
  assumes "plain_dir dir" and "plain_name (ar_name a)" and "managed apps (ar_name a)"
  shows "io_keeps (pruned apps dir []) (write_bundle json dir a)"
proof -
  have "managed apps (file_name p)"
    if "p \<in> set (ancestors (bundle_dir dir a @ ''/dependencies.d''))" "parent_dir p = dir" for p
    using ancestors_in_dir [of p dir "ar_name a" "''dependencies.d''"] that assms
    by (simp add: bundle_dir_def)
  then have "io_keeps (pruned apps dir []) (create_dir_all (bundle_dir dir a @ ''/dependencies.d''))"
    by (auto simp: io_keeps_def create_dir_all_def pruned_def)
  then show ?thesis
    unfolding write_bundle_alt [OF assms(1,2)] Let_def
    by (intro io_valid keeps_pruned)
qed

definition runtime_apps :: "app_record list \<Rightarrow> app_record list" where
  "runtime_apps apps = filter (\<lambda>a. ar_source a = ''runtime'') apps"

lemma managed_runtime: "a \<in> set (runtime_apps apps) \<Longrightarrow> managed apps (ar_name a)"
  by (auto simp: runtime_apps_def managed_def)

lemma read_dir_entries:
  "read_dir dir f = Inr es \<Longrightarrow> pruned apps dir es f"
  by (auto simp: read_dir_def pruned_def split: if_splits)

lemma sync_runs:
  assumes "sync_s6_to_dir json d dir f = (Inr (), g)"
  obtains apps es f1 f2 where "list_apps d = Inr apps" "read_dir dir f1 = Inr es"
    "io_each (prune_bundle apps) es f1 = (Inr (), f2)"
    "io_each (write_bundle json dir) (runtime_apps apps) f2 = (Inr (), g)"
  using assms unfolding sync_s6_to_dir_def runtime_apps_def
  by (auto simp: io_defs split: sum.splits prod.splits)

lemma sync_s6_to_dir_ok:
  assumes "sync_s6_to_dir json d dir f = (Inr (), g)" and "db_valid d" and "plain_dir dir"
    and "\<forall>a \<in> set (db_apps d). plain_name (ar_name a)"
  shows "(\<forall>a \<in> set (runtime_apps (db_apps d)). run_ready json dir a g) \<and>
    pruned (db_apps d) dir [] g"
proof -
  obtain apps es f1 f2 where r: "list_apps d = Inr apps" "read_dir dir f1 = Inr es"
    "io_each (prune_bundle apps) es f1 = (Inr (), f2)"
    "io_each (write_bundle json dir) (runtime_apps apps) f2 = (Inr (), g)"
    using sync_runs [OF assms(1)] .
  have s: "set apps = set (db_apps d)" and dist: "distinct (map ar_name apps)"
  proof -
    have eq: "apps = sort_key ar_name (db_apps d)"
      using r(1) by (auto simp: list_apps_def split: if_splits)
    then show "set apps = set (db_apps d)" by simp
    have "mset (map ar_name apps) = mset (map ar_name (db_apps d))"
      unfolding eq by (simp only: mset_map mset_sort)
    then show "distinct (map ar_name apps)"
      using assms(2) mset_eq_imp_distinct_iff unfolding db_valid_def by metis
  qed
  have names: "\<forall>a \<in> set (runtime_apps apps). plain_name (ar_name a)"
    using assms(4) unfolding s [symmetric] runtime_apps_def by (metis filter_is_subset subsetD)
  have dist': "distinct (map ar_name (runtime_apps apps))"
    unfolding runtime_apps_def using dist by (rule distinct_map_filter_iff)
  have ready: "\<forall>a \<in> set (runtime_apps apps). run_ready json dir a g"
    using io_tripleD(1) [OF write_bundles_ready [OF assms(3) names dist'] _ r(4)] by simp
  have "pruned apps dir [] f2"
    by (rule io_tripleD(1) [OF prune_all read_dir_entries [OF r(2)] r(3)])
  moreover have "io_keeps (pruned apps dir []) (io_each (write_bundle json dir) (runtime_apps apps))"
    using names by (intro io_keeps_each write_bundle_pruned assms(3) managed_runtime) simp_all
  ultimately have "pruned apps dir [] g" using r(4) by (blast intro: io_keepsD)
  moreover have "managed apps = managed (db_apps d)" unfolding managed_def s ..
  moreover have "set (runtime_apps apps) = set (runtime_apps (db_apps d))"
    using s by (simp add: runtime_apps_def)
  ultimately show ?thesis using ready by (simp add: pruned_def)
qed

section \<open>Correctness\<close>

text \<open>
  C14: When \<^verbatim>\<open>sync_s6\<close> succeeds, every runtime-managed app of the database has its run script in place
  with the current contents, and no directory is left for an app that was deleted or is no longer
  runtime-managed.
\<close>

theorem sync_s6_complete:
  assumes "sync_s6 json d f = (Inr (), g)" and "db_reach d"
    and "\<forall>a \<in> set (db_apps d). plain_name (ar_name a)"
  shows "(\<forall>a \<in> set (db_apps d). ar_source a = ''runtime'' \<longrightarrow>
            file_at g (APPS_S6_DIR @ ''/'' @ ar_name a @ ''/run'') = Some (render_run json a)) \<and>
         (\<forall>p \<in> set (dirs g). parent_dir p = APPS_S6_DIR \<longrightarrow>
            (\<exists>a \<in> set (db_apps d). ar_name a = file_name p \<and> ar_source a = ''runtime''))"
  using sync_s6_to_dir_ok [OF assms(1) [unfolded sync_s6_def] db_reach_valid [OF assms(2)] _ assms(3)]
  by (simp add: plain_dir_def APPS_S6_DIR_def runtime_apps_def run_ready_def bundle_dir_def
      pruned_def managed_def)

lemma sync_s6_sample: "fst (sync_s6 (\<lambda>_. None) sample_db empty_fs) = Inr ()"
  by code_simp

lemma sync_s6_complete_witness:
  "\<exists>g. sync_s6 (\<lambda>_. None) sample_db empty_fs = (Inr (), g) \<and>
     file_at g ''/opt/codery/apps-s6.d/web/run'' = Some (render_run (\<lambda>_. None) sample_app)"
proof -
  obtain g where g: "sync_s6 (\<lambda>_. None) sample_db empty_fs = (Inr (), g)"
    using sync_s6_sample by (metis prod.collapse)
  have n: "\<forall>a \<in> set (db_apps sample_db). plain_name (ar_name a)"
    by (simp add: sample_db_def sample_app_def plain_name_def)
  show ?thesis
    using g sync_s6_complete [OF g sample_db_reach n]
    by (simp add: sample_db_def sample_app_def APPS_S6_DIR_def)
qed

text \<open>
  C17: The run script ends with two simple shell commands that change to the directory of the app and
  execute its command as its user: whatever quotes, blanks, newlines or shell characters these
  values contain, each reaches its program as exactly one unchanged argument.
\<close>

theorem render_run_quoting:
  "\<exists>tail rest rest'. render_run json app = run_header @ render_env json app @ tail \<and>
     sh_words tail = Some ([''cd'', ar_directory app], newline # rest) \<and>
     sh_words rest = Some ([''exec'', ''/command/s6-setuidgid'', ar_user app, ''bash'', ''-c'',
       ar_command app], rest')"
proof -
  let ?rest = "''exec /command/s6-setuidgid '' @ shell_quote (ar_user app) @ '' bash -c '' @
     shell_quote (ar_command app) @ [newline, newline]"
  let ?tail = "''cd '' @ shell_quote (ar_directory app) @ [newline, newline] @ ?rest"
  have "render_run json app = run_header @ render_env json app @ ?tail"
    by (simp add: render_run_def)
  moreover have "sh_words ?tail = Some ([''cd'', ar_directory app], newline # ?rest)"
    by (simp add: sh_words_def sh_special_def sh_lex_blank_quote)
  moreover have "sh_words ?rest = Some ([''exec'', ''/command/s6-setuidgid'', ar_user app, ''bash'',
       ''-c'', ar_command app], [newline])"
    by (simp add: sh_words_def sh_special_def sh_lex_blank_quote)
  ultimately show ?thesis by blast
qed

end
