(* ===== verification/State_Files.thy ===== *)
theory State_Files
  imports Config
begin

text \<open>
  \<^verbatim>\<open>state.rs\<close>: the two files per service that record the active color and the active image tag.
\<close>

definition state_path :: "string \<Rightarrow> string" where
  "state_path service = path_join STATE_DIR (service @ ''.color'')"

definition sha_path :: "string \<Rightarrow> string" where
  "sha_path service = path_join STATE_DIR (service @ ''.sha'')"

definition read_active :: "string \<Rightarrow> fs \<Rightarrow> color res" where
  "read_active service f =
     (let path = state_path service
      in if \<not> path_exists f path then Inr Blue
         else case read_text f path of
                Inl e \<Rightarrow> Inl e
              | Inr text \<Rightarrow> Inr (case color_parse (trim text) of Some c \<Rightarrow> c | None \<Rightarrow> Blue))"

definition write_active :: "string \<Rightarrow> color \<Rightarrow> (fs, unit) io" where
  "write_active service color =
     (let path = state_path service
      in io_then (create_dir_all (parent_dir path))
           (write_text path (color_str color @ [newline])))"

definition read_active_sha :: "string \<Rightarrow> fs \<Rightarrow> string option" where
  "read_active_sha service f =
     (case read_text f (sha_path service) of
        Inl _ \<Rightarrow> None
      | Inr s \<Rightarrow> if trim s \<noteq> [] then Some (trim s) else None)"

definition write_active_sha :: "string \<Rightarrow> string \<Rightarrow> (fs, unit) io" where
  "write_active_sha service sha =
     (let path = sha_path service
      in io_then (create_dir_all (parent_dir path)) (write_text path (sha @ [newline])))"

section \<open>Facts\<close>

definition service_ok :: "string \<Rightarrow> bool" where
  "service_ok s \<longleftrightarrow> CHR ''/'' \<notin> set s"

lemma service_ok_paths:
  assumes "service_ok s"
  shows "state_path s = STATE_DIR @ ''/'' @ s @ ''.color''"
    and "sha_path s = STATE_DIR @ ''/'' @ s @ ''.sha''"
proof -
  have "\<not> starts_with ''/'' (s @ x)" if "x \<noteq> [] \<and> hd x = CHR ''.''" for x
    using assms that by (cases s; cases x) (auto simp: service_ok_def starts_with_iff)
  then show "state_path s = STATE_DIR @ ''/'' @ s @ ''.color''"
    and "sha_path s = STATE_DIR @ ''/'' @ s @ ''.sha''"
    by (simp_all add: state_path_def sha_path_def path_join_relative STATE_DIR_def)
qed

lemma state_path_eq_iff: "service_ok s \<Longrightarrow> service_ok t \<Longrightarrow> state_path s = state_path t \<longleftrightarrow> s = t"
  by (simp add: service_ok_paths)

lemma sha_path_eq_iff: "service_ok s \<Longrightarrow> service_ok t \<Longrightarrow> sha_path s = sha_path t \<longleftrightarrow> s = t"
  by (simp add: service_ok_paths)

lemma state_sha_path_neq: "service_ok s \<Longrightarrow> service_ok t \<Longrightarrow> state_path s \<noteq> sha_path t"
proof
  assume ok: "service_ok s" "service_ok t" and eq: "state_path s = sha_path t"
  have "last (state_path s) = CHR ''r''" "last (sha_path t) = CHR ''a''"
    using ok by (simp_all add: service_ok_paths)
  with eq show False by simp
qed

lemma read_active_file:
  "file_at f (state_path s) = Some (color_str c @ [newline]) \<Longrightarrow> \<not> denied f (state_path s) \<Longrightarrow>
   read_active s f = Inr c"
  by (simp add: read_active_def path_exists_def read_text_def color_str_trim Let_def)

lemma write_active_read:
  assumes "write_active s c f = (Inr (), g)"
  shows "read_active s g = Inr c"
  using mkdir_write_frame (2,3) [OF assms [unfolded write_active_def Let_def]]
  by (auto intro: read_active_file)

lemma trim_Nil [simp]: "trim [] = []"
  by (simp add: trim_def trim_start_def trim_end_def)

lemma read_active_empty:
  "file_at f (state_path s) = Some [] \<Longrightarrow> \<not> denied f (state_path s) \<Longrightarrow> read_active s f = Inr Blue"
  by (simp add: read_active_def path_exists_def read_text_def color_parse_def Let_def)

definition clean_sha :: "string \<Rightarrow> bool" where
  "clean_sha sha \<longleftrightarrow> sha \<noteq> [] \<and> \<not> is_space (hd sha) \<and> \<not> is_space (last sha)"

lemma write_active_sha_read:
  assumes "write_active_sha s sha f = (Inr (), g)" and "clean_sha sha"
  shows "read_active_sha s g = Some sha"
proof -
  have "file_at g (sha_path s) = Some (sha @ [newline])" "\<not> denied g (sha_path s)"
    using mkdir_write_frame (2,3) [OF assms(1) [unfolded write_active_sha_def Let_def]] by auto
  then show ?thesis
    using assms(2) by (simp add: read_active_sha_def read_text_def trim_newline clean_sha_def)
qed

lemma read_active_cong:
  "file_at g (state_path s) = file_at f (state_path s) \<Longrightarrow> denied g = denied f \<Longrightarrow>
   dirs g = dirs f \<Longrightarrow> read_active s g = read_active s f"
  by (simp add: read_active_def path_exists_def read_text_def Let_def)

end
