(* ===== verification/Platform.thy ===== *)
theory Platform
  imports S6_Bundles State_Files
begin

text \<open>
  What the orchestrator calls but does not contain: the Docker engine (through \<^verbatim>\<open>bollard\<close>), child
  processes, sockets, timers and the YAML and JSON parsers. Each is a field of \<open>platform\<close>, an
  arbitrary transformer of the state \<^typ>\<open>'e\<close> of the outside world. A \<open>world\<close> is the file system,
  the database and that outside state.
\<close>

section \<open>The Docker API\<close>

datatype health_status = Healthy | Unhealthy | OtherHealth

record container_info =
  ci_running :: "bool option"
  ci_status :: "string option"
  ci_health :: "health_status option"
  ci_image :: "string option"
  ci_networks :: "(string \<times> string) list"  \<comment> \<open>network name, IP address\<close>
  ci_restart_count :: "int option"
  ci_exit_code :: "int option"
  ci_error :: "string option"
  ci_started_at :: "string option"
  ci_finished_at :: "string option"

record image_info =
  im_id :: string
  im_repo_tags :: "string list"
  im_created :: int

record credentials =
  cr_username :: string
  cr_password :: string
  cr_server :: string

text \<open>One entry of the engine's container list.\<close>

record container_summary =
  cs_id :: "string option"
  cs_names :: "string list option"
  cs_image :: "string option"
  cs_image_id :: "string option"
  cs_status :: "string option"
  cs_state :: "string option"

record port_publish =
  pp_key :: string        \<comment> \<open>for example \<open>3000/tcp\<close>\<close>
  pp_host_ip :: string
  pp_host_port :: string

record container_config =
  cc_name :: string
  cc_image :: string
  cc_env :: "string list"
  cc_cmd :: "string list option"
  cc_entrypoint :: "string list option"
  cc_user :: "string option"
  cc_workdir :: "string option"
  cc_exposed :: "string list"
  cc_ports :: "port_publish list"
  cc_network :: string
  cc_binds :: "string list"
  cc_extra_hosts :: "string list option"
  cc_security_opt :: "string list option"
  cc_init :: "bool option"
  cc_ipc :: "string option"
  cc_restart :: string
  cc_aliases :: "string list option"

record spawn_output =
  so_success :: bool
  so_code :: "int option"
  so_stdout :: string
  so_stderr :: string

type_synonym 'a dk = "docker_error + 'a"

section \<open>The platform\<close>

record 'e platform =
  pf_connect :: "'e \<Rightarrow> bool"
  pf_inspect :: "string \<Rightarrow> 'e \<Rightarrow> container_info dk \<times> 'e"
  pf_list_containers :: "'e \<Rightarrow> container_summary list dk \<times> 'e"  \<comment> \<open>running and stopped\<close>
  pf_create :: "container_config \<Rightarrow> 'e \<Rightarrow> unit dk \<times> 'e"
  pf_start :: "string \<Rightarrow> 'e \<Rightarrow> unit dk \<times> 'e"
  pf_stop :: "string \<Rightarrow> 'e \<Rightarrow> unit dk \<times> 'e"
  pf_remove :: "string \<Rightarrow> 'e \<Rightarrow> unit dk \<times> 'e"
  pf_create_network :: "string \<Rightarrow> 'e \<Rightarrow> unit dk \<times> 'e"
  pf_inspect_volume :: "string \<Rightarrow> 'e \<Rightarrow> unit dk \<times> 'e"
  pf_create_volume :: "string \<Rightarrow> 'e \<Rightarrow> unit dk \<times> 'e"
  pf_list_images :: "string \<Rightarrow> 'e \<Rightarrow> image_info list dk \<times> 'e"
  pf_pull :: "string \<Rightarrow> credentials option \<Rightarrow> 'e \<Rightarrow> unit dk \<times> 'e"
  pf_remove_image :: "string \<Rightarrow> 'e \<Rightarrow> unit dk \<times> 'e"
  pf_exec :: "string \<Rightarrow> string list \<Rightarrow> 'e \<Rightarrow> string dk \<times> 'e"
  pf_spawn :: "string list \<Rightarrow> (string \<times> string) list \<Rightarrow> 'e \<Rightarrow> spawn_output option \<times> 'e"
  pf_tcp_bind :: "u16 \<Rightarrow> 'e \<Rightarrow> bool \<times> 'e"
  pf_tcp_connect :: "u16 \<Rightarrow> 'e \<Rightarrow> bool \<times> 'e"
  pf_sleep :: "nat \<Rightarrow> 'e \<Rightarrow> 'e"
  pf_yaml_service :: yaml_parser
  pf_yaml_routes :: routes_parser
  pf_json_env :: env_json_parser
  pf_json_backend_state :: "string \<Rightarrow> string option option"  \<comment> \<open>not JSON, no such string, its value\<close>
  pf_logs :: "string \<Rightarrow> 'e \<Rightarrow> string dk list \<times> 'e"  \<comment> \<open>the last 50 entries, as they arrive\<close>
  pf_download :: "string \<Rightarrow> string \<Rightarrow> 'e \<Rightarrow> string dk list \<times> 'e"  \<comment> \<open>an archive in chunks\<close>
  pf_untar :: "string \<Rightarrow> string option option list option"  \<comment> \<open>unreadable; per entry: broken, no text, text\<close>

record 'e world =
  w_fs :: fs
  w_db :: db
  w_ext :: 'e

section \<open>Lifting\<close>

definition on_fs :: "(fs, 'a) io \<Rightarrow> ('e world, 'a) io" where
  "on_fs m w = (case m (w_fs w) of (r, f) \<Rightarrow> (r, w\<lparr>w_fs := f\<rparr>))"

definition on_db :: "(db, 'a) io \<Rightarrow> ('e world, 'a) io" where
  "on_db m w = (case m (w_db w) of (r, d) \<Rightarrow> (r, w\<lparr>w_db := d\<rparr>))"

definition read_fs :: "(fs \<Rightarrow> 'a res) \<Rightarrow> ('e world, 'a) io" where
  "read_fs g w = (g (w_fs w), w)"

definition read_db :: "(db \<Rightarrow> 'a res) \<Rightarrow> ('e world, 'a) io" where
  "read_db g w = (g (w_db w), w)"

text \<open>A Docker call whose error the caller examines, and one that is passed on with \<^verbatim>\<open>?\<close>.\<close>

definition dk_call :: "('e \<Rightarrow> 'a dk \<times> 'e) \<Rightarrow> ('e world, 'a dk) io" where
  "dk_call g w = (case g (w_ext w) of (r, e) \<Rightarrow> (Inr r, w\<lparr>w_ext := e\<rparr>))"

definition dk_ask :: "string \<Rightarrow> ('e \<Rightarrow> 'a dk \<times> 'e) \<Rightarrow> ('e world, 'a) io" where
  "dk_ask what g =
     io_bind (dk_call g) (\<lambda>r. case r of Inl e \<Rightarrow> io_fail (DockerError e what) | Inr a \<Rightarrow> io_return a)"

definition docker_connect :: "'e platform \<Rightarrow> ('e world, unit) io" where
  "docker_connect K w =
     (if pf_connect K (w_ext w) then (Inr (), w)
      else (Inl (DockerError Transport ''failed to connect to Docker socket''), w))"

definition spawn :: "'e platform \<Rightarrow> string list \<Rightarrow> (string \<times> string) list \<Rightarrow>
    ('e world, spawn_output option) io" where
  "spawn K argv envs w =
     (case pf_spawn K argv envs (w_ext w) of (r, e) \<Rightarrow> (Inr r, w\<lparr>w_ext := e\<rparr>))"

definition ext_bool :: "('e \<Rightarrow> bool \<times> 'e) \<Rightarrow> ('e world, bool) io" where
  "ext_bool g w = (case g (w_ext w) of (b, e) \<Rightarrow> (Inr b, w\<lparr>w_ext := e\<rparr>))"

definition ext_read :: "('e \<Rightarrow> 'a \<times> 'e) \<Rightarrow> ('e world, 'a) io" where
  "ext_read g w = (case g (w_ext w) of (x, e) \<Rightarrow> (Inr x, w\<lparr>w_ext := e\<rparr>))"

definition sleep_ms :: "'e platform \<Rightarrow> nat \<Rightarrow> ('e world, unit) io" where
  "sleep_ms K ms w = (Inr (), w\<lparr>w_ext := pf_sleep K ms (w_ext w)\<rparr>)"

definition sleep :: "'e platform \<Rightarrow> nat \<Rightarrow> ('e world, unit) io" where
  "sleep K secs = sleep_ms K (1000 * secs)"

text \<open>\<^verbatim>\<open>db::open\<close>: the directory of the database file is created first.\<close>

definition db_open :: "('e world, unit) io" where
  "db_open = io_then (on_fs (create_dir_all ''/opt/codery''))
     (\<lambda>w. if db_down (w_db w) then (Inl (IoError ''/opt/codery/codery.db''), w) else (Inr (), w))"

text \<open>Whether the engine reports a container as running; an unreachable or absent one is not.\<close>

definition running_flag :: "container_info dk \<Rightarrow> bool" where
  "running_flag r = (case r of Inl _ \<Rightarrow> False | Inr i \<Rightarrow> (case ci_running i of Some b \<Rightarrow> b | None \<Rightarrow> False))"

section \<open>Frames\<close>

text \<open>
  Lifted operations leave the other parts of the world alone. A predicate on one part is kept by
  every operation on another.
\<close>

lemma keeps_on_fs [io_valid]:
  "io_keeps (\<lambda>f. P f) m \<Longrightarrow> io_keeps (\<lambda>w. P (w_fs w)) (on_fs m)"
  by (auto simp: io_keeps_def on_fs_def split: prod.splits)

lemma fs_frame [io_valid]:
  "io_keeps (\<lambda>w. P (w_fs w)) (on_db m)" "io_keeps (\<lambda>w. P (w_fs w)) (dk_call g)"
  "io_keeps (\<lambda>w. P (w_fs w)) (spawn K argv envs)" "io_keeps (\<lambda>w. P (w_fs w)) (ext_bool h)"
  "io_keeps (\<lambda>w. P (w_fs w)) (sleep K n)" "io_keeps (\<lambda>w. P (w_fs w)) (sleep_ms K n)"
  by (simp_all add: io_keeps_def on_db_def dk_call_def spawn_def ext_bool_def sleep_def sleep_ms_def
      split: prod.splits)

lemma db_frame [io_valid]:
  "io_keeps (\<lambda>w. P (w_db w)) (on_fs n)" "io_keeps (\<lambda>w. P (w_db w)) (dk_call g)"
  "io_keeps (\<lambda>w. P (w_db w)) (spawn K argv envs)" "io_keeps (\<lambda>w. P (w_db w)) (ext_bool h)"
  "io_keeps (\<lambda>w. P (w_db w)) (sleep K k)" "io_keeps (\<lambda>w. P (w_db w)) (sleep_ms K k)"
  by (simp_all add: io_keeps_def on_fs_def dk_call_def spawn_def ext_bool_def sleep_def sleep_ms_def
      split: prod.splits)

lemma keeps_on_db [io_valid]:
  "io_keeps (\<lambda>d. P d) m \<Longrightarrow> io_keeps (\<lambda>w. P (w_db w)) (on_db m)"
  by (auto simp: io_keeps_def on_db_def split: prod.splits)

lemma ext_frame [io_valid]:
  "io_keeps (\<lambda>w. P (w_ext w)) (on_fs n)" "io_keeps (\<lambda>w. P (w_ext w)) (on_db m)"
  by (simp_all add: io_keeps_def on_fs_def on_db_def split: prod.splits)

lemma world_reads [io_valid]:
  "io_keeps P (read_fs f)" "io_keeps P (read_db d)" "io_keeps P (docker_connect K)"
  by (simp_all add: io_keeps_def read_fs_def read_db_def docker_connect_def)

lemma keeps_dk_call:
  "(\<And>e r e'. P e \<Longrightarrow> g e = (r, e') \<Longrightarrow> P e') \<Longrightarrow> io_keeps (\<lambda>w. P (w_ext w)) (dk_call g)"
  by (auto simp: io_keeps_def dk_call_def split: prod.splits)

lemma keeps_dk_ask:
  "io_keeps P (dk_call g) \<Longrightarrow> io_keeps P (dk_ask what g)"
  unfolding dk_ask_def
  by (rule io_keeps_bind) (auto simp: io_keeps_basic split: sum.splits)

end
