(* ===== verification/Caddy.thy ===== *)
theory Caddy
  imports Platform
begin

text \<open>
  \<^verbatim>\<open>caddy.rs\<close>: the environment pairs handed to Caddy, the upstream port of a route, the rendered
  Caddyfile, and the write-then-reload of \<^verbatim>\<open>apply_all\<close>.
\<close>

section \<open>Environment pairs\<close>

definition env_line :: "string \<Rightarrow> bool" where
  "env_line l \<longleftrightarrow> trim l \<noteq> [] \<and> \<not> starts_with ''#'' l"

definition unquote :: "string \<Rightarrow> string" where
  "unquote raw =
     (if 2 \<le> length raw \<and>
         ((starts_with [quote2] raw \<and> ends_with [quote2] raw) \<or>
          (starts_with [quote1] raw \<and> ends_with [quote1] raw))
      then butlast (tl raw) else raw)"

definition env_pair :: "string \<Rightarrow> (string \<times> string) option" where
  "env_pair l = map_option (\<lambda>(k, v). (k, unquote (trim v))) (split_once (CHR ''='') l)"

definition load_env_pairs :: "fs \<Rightarrow> (string \<times> string) list" where
  "load_env_pairs f =
     (case read_text f ENV_FILE of
        Inl _ \<Rightarrow> []
      | Inr content \<Rightarrow>
          (let pairs = List.map_filter env_pair (filter env_line (lines content))
           in if \<exists>(k, _) \<in> set pairs. k = ''TAILSCALE_IP'' then pairs
              else case read_text f TAILSCALE_IP_FILE of
                     Inl _ \<Rightarrow> pairs
                   | Inr ip \<Rightarrow> if trim ip \<noteq> [] then pairs @ [(''TAILSCALE_IP'', trim ip)] else pairs))"

section \<open>Routes\<close>

definition route_fqdn :: "string \<Rightarrow> string \<Rightarrow> string" where
  "route_fqdn subdomain domain =
     (if CHR ''.'' \<in> set subdomain then subdomain else subdomain @ ''.'' @ domain)"

definition paseo_host_port :: "color \<Rightarrow> u16 \<Rightarrow> u16" where
  "paseo_host_port color container_port =
     container_port + (case color of Blue \<Rightarrow> 10000 | Green \<Rightarrow> 20000)"

text \<open>The port Caddy forwards a route to; \<open>colors\<close> is the map of the active colors.\<close>

definition upstream_port ::
  "yaml_parser \<Rightarrow> fs \<Rightarrow> (string \<Rightarrow> color option) \<Rightarrow> unified_route \<Rightarrow> u16" where
  "upstream_port yaml f colors route =
     (let color = (\<lambda>t. case colors t of Some c \<Rightarrow> c | None \<Rightarrow> Blue)
      in if ur_target route = ''host'' then ur_port route
         else if ur_target route = ''paseo'' then paseo_host_port (color ''paseo'') (ur_port route)
         else if ur_target route = ''apps''
         then ur_port route + (case color ''apps'' of Blue \<Rightarrow> 0 | Green \<Rightarrow> 10000)
         else case load_def yaml f (ur_target route) of
                Inr def \<Rightarrow> host_port (sd_port_scheme def) (color (ur_target route)) (ur_port route)
              | Inl _ \<Rightarrow> ur_port route)"

definition caddy_block :: "string \<Rightarrow> u16 \<Rightarrow> bool \<Rightarrow> string option \<Rightarrow> bool option \<Rightarrow> string" where
  "caddy_block host port no_cache auth_env env_present =
     (let cache_headers =
            (if no_cache
             then [newline] @ ''    header {'' @ [newline] @
                  ''        Cache-Control '' @ [quote2] @
                    ''no-store, no-cache, must-revalidate, max-age=0'' @ [quote2, newline] @
                  ''        Pragma '' @ [quote2] @ ''no-cache'' @ [quote2, newline] @
                  ''        Expires '' @ [quote2] @ ''0'' @ [quote2, newline] @
                  ''    }''
             else []);
          auth_directive =
            (case (auth_env, env_present) of
               (Some env, Some True) \<Rightarrow>
                 ''    basic_auth {'' @ [newline] @ ''        {$'' @ env @ ''}'' @ [newline] @
                 ''    }'' @ [newline]
             | _ \<Rightarrow> [])
      in [newline] @ host @ '' {'' @ [newline] @
         ''    bind {$TAILSCALE_IP}'' @ [newline] @
         auth_directive @ ''    reverse_proxy localhost:'' @ show_u16 port @ cache_headers @ [newline] @
         ''}'' @ [newline])"

definition route_block ::
  "yaml_parser \<Rightarrow> fs \<Rightarrow> (string \<Rightarrow> color option) \<Rightarrow> string \<Rightarrow> unified_route \<Rightarrow> string" where
  "route_block yaml f colors domain route =
     caddy_block (route_fqdn (ur_subdomain route) domain) (upstream_port yaml f colors route)
       (ur_no_cache route) (ur_auth_env route)
       (map_option (\<lambda>e. \<exists>(k, _) \<in> set (load_env_pairs f). k = e) (ur_auth_env route))"

definition caddy_header :: string where
  "caddy_header =
     ''{'' @ [newline] @ ''    acme_dns cloudflare {$CLOUDFLARE_API_TOKEN}'' @ [newline] @ ''}'' @ [newline]"

definition generate_from_routes ::
  "yaml_parser \<Rightarrow> fs \<Rightarrow> unified_route list \<Rightarrow> (string \<Rightarrow> color option) \<Rightarrow> string \<Rightarrow> string" where
  "generate_from_routes yaml f routes colors domain =
     caddy_header @ concat (map (route_block yaml f colors domain) routes)"

section \<open>Applying\<close>

definition reload_caddy :: "'e platform \<Rightarrow> ('e world, unit) io" where
  "reload_caddy K =
     io_bind (io_read (\<lambda>w. load_env_pairs (w_fs w))) (\<lambda>envs.
       io_bind (spawn K [''caddy'', ''reload'', ''--config'', CADDY_CONFIG, ''--adapter'', ''caddyfile''] envs)
         (\<lambda>out. case out of
            None \<Rightarrow> io_fail (SpawnError ''failed to run caddy reload'')
          | Some r \<Rightarrow> if so_success r then io_return () else io_fail (CommandFailed (so_stderr r))))"

definition active_colors :: "fs \<Rightarrow> service_def list \<Rightarrow> string \<Rightarrow> color option" where
  "active_colors f defs =
     map_of (map (\<lambda>d. (sd_service d,
        case read_active (sd_service d) f of Inr c \<Rightarrow> c | Inl _ \<Rightarrow> Blue)) defs)"

definition apply_all :: "'e platform \<Rightarrow> ('e world, unit) io" where
  "apply_all K =
     io_bind (read_fs (load_all_defs (pf_yaml_service K))) (\<lambda>defs.
     io_bind (io_read (\<lambda>w. load_domain (w_fs w))) (\<lambda>domain.
     io_bind (io_read (\<lambda>w. active_colors (w_fs w) defs)) (\<lambda>colors.
     io_then db_open
     (io_bind (\<lambda>w. (build_route_map (pf_yaml_service K) (pf_yaml_routes K) (w_fs w) (w_db w), w))
       (\<lambda>routes.
     io_bind (io_read (\<lambda>w. generate_from_routes (pf_yaml_service K) (w_fs w) routes colors domain))
       (\<lambda>content.
     io_then (on_fs (write_text CADDY_CONFIG content)) (reload_caddy K)))))))"

section \<open>Facts\<close>

lemma read_fs_frame_lemma: "io_keeps P (\<lambda>w. (g w, w))"
  by (simp add: io_keeps_def)

text \<open>Applying Caddy changes one file and creates the database directory, nothing else.\<close>

lemma keeps_mkdir_path:
  "p \<notin> set (ancestors d) \<Longrightarrow>
   io_keeps (\<lambda>f. file_at f p = c \<and> denied f = n \<and> path_exists f p = x) (create_dir_all d)"
  by (auto simp: io_keeps_def create_dir_all_def path_exists_def file_at_def split: if_splits)

lemma keeps_write_path:
  "p \<noteq> q \<Longrightarrow>
   io_keeps (\<lambda>f. file_at f p = c \<and> denied f = n \<and> path_exists f p = x) (write_text q t)"
  by (auto simp: io_keeps_def write_text_def path_exists_def)

lemma def_route_port:
  assumes "route \<in> set (def_routes def)"
  shows "ur_target route = sd_service def \<and>
    (host_port (sd_port_scheme def) c (ur_port route), ur_port route) \<in> set (port_mappings def c)"
  using assms by (force simp: def_routes_def set_port_mappings split: option.splits)

definition hardcoded_offset :: "string \<Rightarrow> color \<Rightarrow> u16 option" where
  "hardcoded_offset target c =
     (if target = ''paseo'' then Some (case c of Blue \<Rightarrow> 10000 | Green \<Rightarrow> 20000)
      else if target = ''apps'' then Some (case c of Blue \<Rightarrow> 0 | Green \<Rightarrow> 10000)
      else None)"

lemma upstream_port_alt:
  assumes "load_def yaml f (ur_target route) = Inr def" and "ur_target route \<noteq> ''host''"
    and "colors (ur_target route) = Some c"
  shows "upstream_port yaml f colors route =
    ur_port route + (case hardcoded_offset (ur_target route) c of
        Some k \<Rightarrow> k | None \<Rightarrow> offset_of (sd_port_scheme def) c)"
  using assms
  by (auto simp: upstream_port_def hardcoded_offset_def paseo_host_port_def host_port_alt Let_def)

section \<open>Correctness\<close>

text \<open>
  C20: The upstream port that Caddy uses for a route of a service declaration is a host port that the
  active container of the service publishes, with the container port of the route behind it, exactly
  when the hard-coded offset of the service, if it has one, is the offset of its YAML port scheme.
\<close>

theorem caddy_upstream_published:
  assumes "load_def yaml f (sd_service def) = Inr def" and "route \<in> set (def_routes def)"
    and "sd_service def \<noteq> ''host''" and "colors (sd_service def) = Some c"
  shows "(upstream_port yaml f colors route, ur_port route) \<in> set (port_mappings def c) \<longleftrightarrow>
    (case hardcoded_offset (sd_service def) c of
       None \<Rightarrow> True | Some k \<Rightarrow> k = offset_of (sd_port_scheme def) c)"
proof -
  note r = def_route_port [OF assms(2), of c]
  have u: "upstream_port yaml f colors route = ur_port route +
      (case hardcoded_offset (sd_service def) c of
         Some k \<Rightarrow> k | None \<Rightarrow> offset_of (sd_port_scheme def) c)"
    using upstream_port_alt [of yaml f route def colors c] assms r by simp
  show ?thesis
    using r port_mapping_host [of "upstream_port yaml f colors route" "ur_port route" def c]
    by (auto simp: u host_port_alt split: option.splits)
qed

definition paseo_fs :: fs where
  "paseo_fs = put_file (service_yaml_path ''paseo'') ''paseo'' empty_fs"

lemma caddy_upstream_published_witness:
  "\<exists>route \<in> set (def_routes paseo_def).
     (upstream_port (\<lambda>_. Some paseo_def) paseo_fs [''paseo'' \<mapsto> Green] route, 3000)
       \<in> set (port_mappings paseo_def Green)"
proof -
  have l: "load_def (\<lambda>_. Some paseo_def) paseo_fs (sd_service paseo_def) = Inr paseo_def"
    by (simp add: load_def_def load_def_at_def paseo_fs_def paseo_def_def)
  obtain route where r: "route \<in> set (def_routes paseo_def)" "ur_port route = 3000"
    by (auto simp: def_routes_def paseo_def_def)
  have "(upstream_port (\<lambda>_. Some paseo_def) paseo_fs [''paseo'' \<mapsto> Green] route, ur_port route)
      \<in> set (port_mappings paseo_def Green)"
    using caddy_upstream_published [OF l r(1), of "[''paseo'' \<mapsto> Green]" Green]
    by (simp add: paseo_def_def hardcoded_offset_def offset_of_def)
  with r show ?thesis by auto
qed

end
