(* ===== verification/Images.thy ===== *)
theory Images
  imports Caddy
begin

text \<open>
  \<^verbatim>\<open>images.rs\<close>: local ref lookup, pulling with registry credentials, listing and pruning.
\<close>

record local_image =
  li_sha :: string
  li_tag :: string
  li_created :: int

section \<open>Registries and credentials\<close>

definition registry_of :: "string \<Rightarrow> string option" where
  "registry_of ref =
     (if CHR ''/'' \<notin> set ref then None
      else let first = hd (split_on (CHR ''/'') ref)
           in if CHR ''.'' \<in> set first \<or> CHR '':'' \<in> set first \<or> first = ''localhost''
              then Some first else None)"

fun ghcr_lines :: "string option \<Rightarrow> string option \<Rightarrow> string list \<Rightarrow> string option \<times> string option" where
  "ghcr_lines u p [] = (u, p)"
| "ghcr_lines u p (l # ls) =
     (case strip_prefix ''GHCR_USERNAME='' l of
        Some v \<Rightarrow> ghcr_lines (Some v) p ls
      | None \<Rightarrow> (case strip_prefix ''GHCR_TOKEN='' l of
                   Some v \<Rightarrow> ghcr_lines u (Some v) ls
                 | None \<Rightarrow> ghcr_lines u p ls))"

definition ghcr_credentials :: "fs \<Rightarrow> credentials option" where
  "ghcr_credentials f =
     (case read_text f ENV_FILE of
        Inl _ \<Rightarrow> None
      | Inr content \<Rightarrow>
          (case ghcr_lines None None (lines content) of
             (Some u, Some p) \<Rightarrow> Some \<lparr>cr_username = u, cr_password = p, cr_server = GHCR_HOST\<rparr>
           | _ \<Rightarrow> None))"

definition credentials_for :: "fs \<Rightarrow> string \<Rightarrow> credentials option" where
  "credentials_for f ref =
     (if registry_of ref = Some ''ghcr.io'' then ghcr_credentials f else None)"

section \<open>Pulling\<close>

definition image_exists_locally :: "'e platform \<Rightarrow> string \<Rightarrow> ('e world, bool) io" where
  "image_exists_locally K ref =
     io_then (docker_connect K)
       (io_bind (dk_ask ''failed to list images'' (pf_list_images K ref)) (\<lambda>images.
          io_return (images \<noteq> [])))"

definition pull :: "'e platform \<Rightarrow> string \<Rightarrow> ('e world, unit) io" where
  "pull K ref =
     io_then (docker_connect K)
       (io_bind (io_read (\<lambda>w. credentials_for (w_fs w) ref)) (\<lambda>credentials.
          io_bind (dk_call (pf_pull K ref credentials)) (\<lambda>r.
            case r of Inr _ \<Rightarrow> io_return () | Inl _ \<Rightarrow> io_fail (PullFailed ref))))"

definition pull_if_missing :: "'e platform \<Rightarrow> string \<Rightarrow> ('e world, unit) io" where
  "pull_if_missing K ref =
     io_bind (image_exists_locally K ref) (\<lambda>present.
       if present then io_return () else pull K ref)"

section \<open>Listing and pruning\<close>

definition service_filter :: "string \<Rightarrow> string" where
  "service_filter service = REGISTRY @ '':'' @ service @ ''-*''"

definition newest_first :: "('a \<Rightarrow> int) \<Rightarrow> 'a list \<Rightarrow> 'a list" where
  "newest_first created = sort_key (\<lambda>i. - created i)"

definition prune_victims :: "image_info list \<Rightarrow> image_info list" where
  "prune_victims images = drop 2 (newest_first im_created images)"

definition prune :: "'e platform \<Rightarrow> string \<Rightarrow> ('e world, unit) io" where
  "prune K service =
     io_then (docker_connect K)
       (io_bind (dk_ask ''failed to list images'' (pf_list_images K (service_filter service)))
          (\<lambda>images. io_each (\<lambda>ref.
              io_bind (dk_call (pf_remove_image K (im_id ref))) (\<lambda>_. io_return ()))
            (prune_victims images)))"

definition local_images_of :: "string \<Rightarrow> image_info list \<Rightarrow> local_image list" where
  "local_images_of service images =
     newest_first li_created
       [\<lparr>li_sha = sha, li_tag = tag, li_created = im_created img\<rparr>.
         img \<leftarrow> images, tag \<leftarrow> im_repo_tags img,
         sha \<leftarrow> (case strip_prefix (REGISTRY @ '':'' @ service @ ''-'') tag of
                   Some s \<Rightarrow> [s] | None \<Rightarrow> [])]"

definition list_local :: "'e platform \<Rightarrow> string \<Rightarrow> ('e world, local_image list) io" where
  "list_local K service =
     io_then (docker_connect K)
       (io_bind (dk_ask ''failed to list images'' (pf_list_images K (service_filter service)))
          (\<lambda>images. io_return (local_images_of service images)))"

section \<open>Facts\<close>

lemma split_on_nonempty: "split_on c s \<noteq> []"
  by (cases s) (auto split: list.splits)

lemma hd_split_on: "hd (split_on c s) = takeWhile (\<lambda>x. x \<noteq> c) s"
proof (induction s)
  case (Cons x s)
  then show ?case
    using split_on_nonempty [of c s] by (auto split: list.splits)
qed simp

lemma split_on_prefix:
  assumes "c \<in> set s"
  shows "\<exists>r. s = hd (split_on c s) @ c # r"
  unfolding hd_split_on
  using assms by (induction s) auto

lemma registry_of_Some: "registry_of ref = Some r \<Longrightarrow> \<exists>path. ref = r @ ''/'' @ path"
  using split_on_prefix [of "CHR ''/''" ref]
  by (auto simp: registry_of_def Let_def split: if_splits)

lemma ghcr_credentials_server: "ghcr_credentials f = Some c \<Longrightarrow> cr_server c = ''ghcr.io''"
  by (auto simp: ghcr_credentials_def GHCR_HOST_def split: sum.splits prod.splits option.splits)

lemma take_drop_newest:
  fixes images :: "image_info list"
  assumes "k \<in> set (take 2 (newest_first im_created images))" and "v \<in> set (prune_victims images)"
  shows "im_created v \<le> im_created k"
proof -
  let ?s = "newest_first im_created images"
  have "sorted (map (\<lambda>i. - im_created i) ?s)" by (simp add: newest_first_def)
  moreover have "map (\<lambda>i. - im_created i) ?s =
      map (\<lambda>i. - im_created i) (take 2 ?s) @ map (\<lambda>i. - im_created i) (drop 2 ?s)"
    by (metis append_take_drop_id map_append)
  ultimately have "\<forall>x \<in> set (map (\<lambda>i. - im_created i) (take 2 ?s)).
      \<forall>y \<in> set (map (\<lambda>i. - im_created i) (drop 2 ?s)). x \<le> y"
    by (metis sorted_append)
  then show ?thesis using assms by (auto simp: prune_victims_def)
qed

section \<open>Correctness\<close>

text \<open>
  The GitHub registry credentials of the environment file leave the host only for an image
  reference whose registry component is exactly the GitHub registry; every other pull is anonymous.
\<close>

theorem credentials_only_for_ghcr:
  assumes "credentials_for f ref = Some c"
  shows "(\<exists>path. ref = ''ghcr.io/'' @ path) \<and> cr_server c = ''ghcr.io''"
proof -
  have "registry_of ref = Some ''ghcr.io''" "ghcr_credentials f = Some c"
    using assms by (auto simp: credentials_for_def split: if_splits)
  with registry_of_Some [of ref "''ghcr.io''"] ghcr_credentials_server show ?thesis by force
qed

definition ghcr_fs :: fs where
  "ghcr_fs = put_file ENV_FILE (''GHCR_USERNAME=bot'' @ [newline] @ ''GHCR_TOKEN=secret'' @ [newline]) empty_fs"

lemma ghcr_fs_credentials:
  "credentials_for ghcr_fs ''ghcr.io/coderyoss/codery:apps-abc'' =
     Some \<lparr>cr_username = ''bot'', cr_password = ''secret'', cr_server = ''ghcr.io''\<rparr>"
  by code_simp

lemma credentials_only_for_ghcr_witness:
  "\<exists>path. ''ghcr.io/coderyoss/codery:apps-abc'' = ''ghcr.io/'' @ path"
  using credentials_only_for_ghcr [OF ghcr_fs_credentials] by (rule conjunct1)

text \<open>
  Pruning asks to remove all but two of the listed images, each exactly once, and the two that
  stay are at least as recent as every image it removes.
\<close>

theorem prune_keeps_two_newest:
  "\<exists>kept. mset images = mset kept + mset (prune_victims images) \<and>
     length kept = min 2 (length images) \<and>
     (\<forall>k \<in> set kept. \<forall>v \<in> set (prune_victims images). im_created v \<le> im_created k)"
proof (intro exI conjI ballI)
  let ?s = "newest_first im_created images"
  have "mset images = mset ?s" by (simp add: newest_first_def)
  also have "\<dots> = mset (take 2 ?s) + mset (prune_victims images)"
    unfolding prune_victims_def by (metis append_take_drop_id mset_append)
  finally show "mset images = mset (take 2 ?s) + mset (prune_victims images)" .
  show "length (take 2 ?s) = min 2 (length images)" by (simp add: newest_first_def)
  show "im_created v \<le> im_created k" if "k \<in> set (take 2 ?s)" "v \<in> set (prune_victims images)" for k v
    by (rule take_drop_newest [OF that])
qed

definition sample_images :: "image_info list" where
  "sample_images = map (\<lambda>t. \<lparr>im_id = show_nat (nat t), im_repo_tags = [], im_created = t\<rparr>) [5, 9, 7]"

lemma prune_keeps_two_newest_witness:
  "\<exists>kept. length kept = 2 \<and> mset sample_images = mset kept + mset (prune_victims sample_images)"
proof -
  have "min 2 (length sample_images) = 2" by (simp add: sample_images_def)
  then show ?thesis using prune_keeps_two_newest [of sample_images] by metis
qed

text \<open>
  The images of a service are told apart by a name prefix only: an image of a service whose name
  extends another one by a dash is listed, under a wrong tag, among the images of the shorter one.
\<close>

theorem local_images_prefix_clash:
  assumes "img \<in> set images" and "image_ref (service @ ''-'' @ suffix) sha \<in> set (im_repo_tags img)"
  shows "\<exists>i \<in> set (local_images_of service images).
    li_tag i = image_ref (service @ ''-'' @ suffix) sha \<and> li_sha i = suffix @ ''-'' @ sha"
proof -
  have "strip_prefix (REGISTRY @ '':'' @ service @ ''-'') (image_ref (service @ ''-'' @ suffix) sha) =
      Some (suffix @ ''-'' @ sha)"
    by (simp add: strip_prefix_Some_iff image_ref_def)
  then have "\<lparr>li_sha = suffix @ ''-'' @ sha, li_tag = image_ref (service @ ''-'' @ suffix) sha,
      li_created = im_created img\<rparr> \<in> set (local_images_of service images)"
    using assms unfolding local_images_of_def newest_first_def by (force simp: image_iff)
  then show ?thesis by force
qed

lemma local_images_prefix_clash_witness:
  "\<exists>i \<in> set (local_images_of ''devbox''
        [\<lparr>im_id = ''i'', im_repo_tags = [''ghcr.io/coderyoss/codery:devbox-gpu-abc''], im_created = 1\<rparr>]).
     li_sha i = ''gpu-abc''"
  using local_images_prefix_clash [of "\<lparr>im_id = ''i'',
      im_repo_tags = [''ghcr.io/coderyoss/codery:devbox-gpu-abc''], im_created = 1\<rparr>"
      "[\<lparr>im_id = ''i'', im_repo_tags = [''ghcr.io/coderyoss/codery:devbox-gpu-abc''],
        im_created = 1\<rparr>]" "''devbox''" "''gpu''" "''abc''"]
  by (auto simp: image_ref_def REGISTRY_def)

end
