(* ===== verification/Reference_Engine.thy ===== *)
theory Reference_Engine
  imports Platform
begin

text \<open>
  A small concrete platform: containers with an image and a running flag, a list of images, and
  helper programs that succeed. It models nothing of the repository; the witnesses of the
  development run the modelled code on it.
\<close>

record engine =
  en_containers :: "(string \<times> (string \<times> bool)) list"
  en_images :: "image_info list"

definition en_up :: "engine \<Rightarrow> string \<Rightarrow> bool" where
  "en_up e n \<longleftrightarrow> (case map_of (en_containers e) n of Some (_, b) \<Rightarrow> b | None \<Rightarrow> False)"

definition en_inspect :: "string \<Rightarrow> engine \<Rightarrow> container_info dk \<times> engine" where
  "en_inspect n e =
     (case map_of (en_containers e) n of
        None \<Rightarrow> Inl (ServerStatus 404)
      | Some (i, b) \<Rightarrow> Inr \<lparr>ci_running = Some b, ci_status = None,
          ci_health = (if b then Some Healthy else None), ci_image = Some i,
          ci_networks = [(''codery-net'', ''172.18.0.2'')], ci_restart_count = Some 0,
          ci_exit_code = Some (if b then 0 else 143), ci_error = None, ci_started_at = None,
          ci_finished_at = None\<rparr>, e)"

definition en_list_containers :: "engine \<Rightarrow> container_summary list dk \<times> engine" where
  "en_list_containers e =
     (Inr (map (\<lambda>(n, i, b). \<lparr>cs_id = Some n, cs_names = Some [CHR ''/'' # n], cs_image = Some i,
        cs_image_id = None, cs_status = None,
        cs_state = Some (if b then ''running'' else ''exited'')\<rparr>) (en_containers e)), e)"

definition en_set :: "string \<Rightarrow> string \<times> bool \<Rightarrow> engine \<Rightarrow> engine" where
  "en_set n v e = e\<lparr>en_containers := AList.update n v (en_containers e)\<rparr>"

definition en_create :: "container_config \<Rightarrow> engine \<Rightarrow> unit dk \<times> engine" where
  "en_create c e =
     (case map_of (en_containers e) (cc_name c) of
        Some _ \<Rightarrow> (Inl (ServerStatus 409), e)
      | None \<Rightarrow> (Inr (), en_set (cc_name c) (cc_image c, False) e))"

definition en_start :: "string \<Rightarrow> engine \<Rightarrow> unit dk \<times> engine" where
  "en_start n e =
     (case map_of (en_containers e) n of
        None \<Rightarrow> (Inl (ServerStatus 404), e)
      | Some (i, _) \<Rightarrow> (Inr (), en_set n (i, True) e))"

definition en_stop :: "string \<Rightarrow> engine \<Rightarrow> unit dk \<times> engine" where
  "en_stop n e =
     (case map_of (en_containers e) n of
        None \<Rightarrow> (Inl (ServerStatus 404), e)
      | Some (i, b) \<Rightarrow> if b then (Inr (), en_set n (i, False) e) else (Inl (ServerStatus 304), e))"

definition en_remove :: "string \<Rightarrow> engine \<Rightarrow> unit dk \<times> engine" where
  "en_remove n e =
     (case map_of (en_containers e) n of
        None \<Rightarrow> (Inl (ServerStatus 404), e)
      | Some _ \<Rightarrow> (Inr (), e\<lparr>en_containers := AList.delete n (en_containers e)\<rparr>))"

definition en_list_images :: "string \<Rightarrow> engine \<Rightarrow> image_info list dk \<times> engine" where
  "en_list_images pattern e =
     (Inr (filter (\<lambda>i. \<exists>t \<in> set (im_repo_tags i). t = pattern \<or>
        (ends_with ''*'' pattern \<and> starts_with (butlast pattern) t)) (en_images e)), e)"

text \<open>Helper programs succeed; \<^verbatim>\<open>docker exec\<close> does so in running containers only.\<close>

definition en_spawn :: "string list \<Rightarrow> (string \<times> string) list \<Rightarrow> engine \<Rightarrow> spawn_output option \<times> engine" where
  "en_spawn argv envs e =
     (Some \<lparr>so_success = (case argv of
          c # sub # n # _ \<Rightarrow> c = ''docker'' \<and> sub = ''exec'' \<longrightarrow> en_up e n | _ \<Rightarrow> True),
        so_code = Some 0, so_stdout = ''RUNNING'', so_stderr = []\<rparr>, e)"

definition en_platform :: "engine platform" where
  "en_platform =
     \<lparr>pf_connect = (\<lambda>_. True), pf_inspect = en_inspect, pf_list_containers = en_list_containers,
      pf_create = en_create, pf_start = en_start,
      pf_stop = en_stop, pf_remove = en_remove, pf_create_network = (\<lambda>_ e. (Inr (), e)),
      pf_inspect_volume = (\<lambda>_ e. (Inr (), e)), pf_create_volume = (\<lambda>_ e. (Inr (), e)),
      pf_list_images = en_list_images, pf_pull = (\<lambda>_ _ e. (Inr (), e)),
      pf_remove_image = (\<lambda>i e. (Inr (), e\<lparr>en_images := filter (\<lambda>m. im_id m \<noteq> i) (en_images e)\<rparr>)),
      pf_exec = (\<lambda>_ _ e. (Inr [], e)),
      pf_spawn = en_spawn,
      pf_tcp_bind = (\<lambda>_ e. (True, e)), pf_tcp_connect = (\<lambda>_ e. (True, e)), pf_sleep = (\<lambda>_ e. e),
      pf_yaml_service = (\<lambda>t. if t = ''paseo'' then Some paseo_def
        else if t = ''apps'' then Some apps_def else None),
      pf_yaml_routes = (\<lambda>_. None), pf_json_env = (\<lambda>_. None),
      pf_json_backend_state = (\<lambda>_. Some (Some ''Running'')),
      pf_logs = (\<lambda>n e. (if en_up e n then [Inr ''ready'', Inr ''listening ''] else [], e)),
      pf_download = (\<lambda>n p e. (case map_of (en_containers e) n of
        None \<Rightarrow> [Inl (ServerStatus 404)] | Some _ \<Rightarrow> [Inr ''127.0.0.1 '', Inr ''localhost''], e)),
      pf_untar = (\<lambda>t. if t = [] then None else Some [Some (Some t)])\<rparr>"

text \<open>A host with the paseo declaration, an environment file and a blue paseo container.\<close>

definition en_fs :: fs where
  "en_fs =
     \<lparr>files = [(SERVICES_DIR @ ''/paseo.yml'', ''paseo''), (ENV_FILE, ''A=1'' @ [newline])],
      dirs = [[], ''/run'', ''/etc'', ''/etc/caddy'', ''/opt'', ''/opt/codery'', STATE_DIR, SERVICES_DIR,
        ''/opt/codery/proxy''],
      denied = (\<lambda>_. False), full = (\<lambda>_. False)\<rparr>"

definition en_world :: "engine world" where
  "en_world =
     \<lparr>w_fs = en_fs, w_db = sample_db,
      w_ext = \<lparr>en_containers = [(''codery-paseo-blue'', (''ghcr.io/coderyoss/codery:paseo-old'', True))],
        en_images = [\<lparr>im_id = ''sha256:1'', im_repo_tags = [''ghcr.io/coderyoss/codery:paseo-new''],
          im_created = 2\<rparr>]\<rparr>\<rparr>"

lemma map_of_en_set: "map_of (en_containers (en_set n v e)) k = (if k = n then Some v else map_of (en_containers e) k)"
  by (simp add: en_set_def update_conv')

end
