(* ===== verification/Validate.thy ===== *)
theory Validate
  imports Images Reference_Engine
begin

text \<open>
  \<^verbatim>\<open>preflight.rs\<close> and \<^verbatim>\<open>validate.rs\<close>: the host checks before any deploy, and the six checks on a
  declaration, which are all made and whose failures are reported together.
\<close>

section \<open>Preflight\<close>

definition check_supervisord :: "'e platform \<Rightarrow> ('e world, unit) io" where
  "check_supervisord K =
     io_bind (spawn K [''supervisorctl'', ''-c'', SUPERVISORD_CONF, ''status''] []) (\<lambda>out.
       case out of
         None \<Rightarrow> io_fail (SpawnError ''failed to run supervisorctl'')
       | Some r \<Rightarrow>
           if \<exists>l \<in> set (lines (so_stdout r)). contains_str ''RUNNING'' l then io_return ()
           else io_fail (PreflightFailed ''supervisord: no programs RUNNING''))"

definition check_tailscale :: "'e platform \<Rightarrow> ('e world, unit) io" where
  "check_tailscale K =
     io_bind (spawn K [''tailscale'', ''status'', ''--json''] []) (\<lambda>out.
       case out of
         None \<Rightarrow> io_fail (SpawnError ''failed to run tailscale'')
       | Some r \<Rightarrow>
           (case pf_json_backend_state K (so_stdout r) of
              None \<Rightarrow> io_fail (ParseError ''tailscale status output not JSON'')
            | Some state \<Rightarrow>
                if (case state of Some s \<Rightarrow> s | None \<Rightarrow> ''unknown'') = ''Running'' then io_return ()
                else io_fail (PreflightFailed ''tailscale'')))"

definition check_caddy :: "'e platform \<Rightarrow> ('e world, unit) io" where
  "check_caddy K =
     io_bind (ext_bool (pf_tcp_connect K CADDY_ADMIN_PORT)) (\<lambda>reachable.
       if reachable then io_return ()
       else io_fail (PreflightFailed ''caddy admin API not reachable''))"

definition preflight_run :: "'e platform \<Rightarrow> ('e world, unit) io" where
  "preflight_run K = io_then (check_supervisord K) (io_then (check_tailscale K) (check_caddy K))"

section \<open>Declaration checks\<close>

text \<open>The environment file as a map; a later line for the same variable replaces an earlier one.\<close>

definition env_of_lines :: "string list \<Rightarrow> env_map" where
  "env_of_lines ls = map_of (rev (List.map_filter (split_once (CHR ''='')) ls))"

definition load_env_map :: "fs \<Rightarrow> env_map" where
  "load_env_map f =
     (case read_text f ENV_FILE of
        Inl _ \<Rightarrow> (\<lambda>_. None)
      | Inr content \<Rightarrow> env_of_lines (filter env_line (lines content)))"

definition check_required_env :: "service_def \<Rightarrow> env_map \<Rightarrow> check_failure list" where
  "check_required_env def env =
     map MissingRequiredEnv (filter (\<lambda>k. env k = None) (sd_required_env def))"

text \<open>
  The checks have a substitution of their own, beside the one of \<^verbatim>\<open>service_def.rs\<close> that a deploy uses.
\<close>

partial_function (option) validate_substitute_loop :: "string \<Rightarrow> env_map \<Rightarrow> string \<Rightarrow> string res option" where
  "validate_substitute_loop s env result =
     (case cut_at ''${'' result of
        None \<Rightarrow> Some (Inr result)
      | Some (pre, rest) \<Rightarrow>
          (case cut_at ''}'' rest of
             None \<Rightarrow> Some (Inl (UnclosedPlaceholder s))
           | Some (var_name, post) \<Rightarrow>
               (case env var_name of
                  None \<Rightarrow> Some (Inl (MissingEnvVar var_name s))
                | Some value \<Rightarrow> validate_substitute_loop s env (pre @ value @ post))))"

declare validate_substitute_loop.simps [code]

definition validate_substitute_env :: "string \<Rightarrow> env_map \<Rightarrow> string res option" where
  "validate_substitute_env s env = validate_substitute_loop s env s"

text \<open>Both give the same text or error, and both run for ever on the same inputs.\<close>

lemma validate_loop_some:
  assumes "validate_substitute_loop s env cur = Some r"
  shows "substitute_loop s env cur = Some r"
proof (rule validate_substitute_loop.raw_induct [where P = "\<lambda>s env cur r. substitute_loop s env cur = Some r", OF _ assms])
  fix loop s env cur r
  assume IH: "\<And>s env cur r. loop s env cur = Some r \<Longrightarrow> substitute_loop s env cur = Some r"
    and "(case cut_at ''${'' cur of None \<Rightarrow> Some (Inr cur)
      | Some (pre, rest) \<Rightarrow> (case cut_at ''}'' rest of None \<Rightarrow> Some (Inl (UnclosedPlaceholder s))
          | Some (var, post) \<Rightarrow> (case env var of None \<Rightarrow> Some (Inl (MissingEnvVar var s))
              | Some value \<Rightarrow> loop s env (pre @ value @ post)))) = Some r"
  then show "substitute_loop s env cur = Some r"
    by (subst substitute_loop.simps) (auto split: option.splits prod.splits)
qed

lemma substitute_loop_some:
  assumes "substitute_loop s env cur = Some r"
  shows "validate_substitute_loop s env cur = Some r"
proof (rule substitute_loop.raw_induct [where P = "\<lambda>s env cur r. validate_substitute_loop s env cur = Some r", OF _ assms])
  fix loop s env cur r
  assume IH: "\<And>s env cur r. loop s env cur = Some r \<Longrightarrow> validate_substitute_loop s env cur = Some r"
    and "(case cut_at ''${'' cur of None \<Rightarrow> Some (Inr cur)
      | Some (pre, rest) \<Rightarrow> (case cut_at ''}'' rest of None \<Rightarrow> Some (Inl (UnclosedPlaceholder s))
          | Some (var, post) \<Rightarrow> (case env var of None \<Rightarrow> Some (Inl (MissingEnvVar var s))
              | Some value \<Rightarrow> loop s env (pre @ value @ post)))) = Some r"
  then show "validate_substitute_loop s env cur = Some r"
    by (subst validate_substitute_loop.simps) (auto split: option.splits prod.splits)
qed

lemma validate_substitute_env_eq [simp]: "validate_substitute_env s env = substitute_env s env"
  unfolding validate_substitute_env_def substitute_env_def
  by (metis not_Some_eq validate_loop_some substitute_loop_some)

definition check_host_path :: "env_map \<Rightarrow> fs \<Rightarrow> volume_mount \<Rightarrow> check_failure list res" where
  "check_host_path env f vol =
     (case vol of
        NamedVol _ _ \<Rightarrow> Inr []
      | BindVol host _ _ \<Rightarrow>
          (case validate_substitute_env host env of
             None \<Rightarrow> Inl DoesNotReturn
           | Some (Inl e) \<Rightarrow> Inr [HostPathSubstitution e]
           | Some (Inr resolved) \<Rightarrow>
               Inr (if path_exists f resolved then [] else [HostPathMissing resolved])))"

definition check_host_paths :: "env_map \<Rightarrow> fs \<Rightarrow> volume_mount list \<Rightarrow> check_failure list res" where
  "check_host_paths env f vols = map_sum id concat (res_map (check_host_path env f) vols)"

definition ensure_named_volume :: "'e platform \<Rightarrow> string \<Rightarrow> ('e world, unit) io" where
  "ensure_named_volume K name =
     io_bind (dk_call (pf_inspect_volume K name)) (\<lambda>r.
       case r of
         Inr _ \<Rightarrow> io_return ()
       | Inl (ServerStatus code) \<Rightarrow>
           if code = 404 then dk_ask name (pf_create_volume K name)
           else io_fail (DockerError (ServerStatus code) name)
       | Inl Transport \<Rightarrow> io_fail (DockerError Transport name))"

definition check_named_volume :: "'e platform \<Rightarrow> volume_mount \<Rightarrow> ('e world, check_failure list) io" where
  "check_named_volume K vol =
     (case vol of
        BindVol _ _ _ \<Rightarrow> io_return []
      | NamedVol name _ \<Rightarrow>
          io_bind (io_try (ensure_named_volume K name)) (\<lambda>r.
            case r of Inl e \<Rightarrow> io_return [NamedVolume name e] | Inr _ \<Rightarrow> io_return []))"

definition check_image :: "'e platform \<Rightarrow> string \<Rightarrow> ('e world, check_failure list) io" where
  "check_image K ref =
     io_bind (io_try (pull_if_missing K ref)) (\<lambda>r.
       case r of Inl e \<Rightarrow> io_return [ImagePull e] | Inr _ \<Rightarrow> io_return [])"

definition check_port :: "'e platform \<Rightarrow> u16 set \<Rightarrow> u16 \<Rightarrow> ('e world, check_failure list) io" where
  "check_port K active_ports port =
     (if port \<in> active_ports then io_return []
      else io_bind (ext_bool (pf_tcp_bind K port)) (\<lambda>free.
             io_return (if free then [] else [PortInUse port])))"

definition check_udp_port :: "named_port \<Rightarrow> check_failure list" where
  "check_udp_port p =
     (if np_protocol p \<noteq> ProtoUdp then []
      else (if np_fixed_port p = None then [UdpWithoutFixedPort (np_name p)] else []) @
           (if np_subdomain p \<noteq> None then [UdpWithSubdomain (np_name p)] else []))"

definition check_udp :: "service_def \<Rightarrow> check_failure list" where
  "check_udp def = concat (map check_udp_port (sd_ports def))"

definition active_or_blue :: "string \<Rightarrow> fs \<Rightarrow> color" where
  "active_or_blue service f = (case read_active service f of Inr c \<Rightarrow> c | Inl _ \<Rightarrow> Blue)"

definition check_deploy :: "'e platform \<Rightarrow> service_def \<Rightarrow> string \<Rightarrow> color \<Rightarrow> ('e world, unit) io" where
  "check_deploy K def sha inactive =
     io_bind (io_read (\<lambda>w. load_env_map (w_fs w))) (\<lambda>env.
     io_bind (io_return (check_required_env def env)) (\<lambda>e1.
     io_bind (read_fs (\<lambda>f. check_host_paths env f (sd_volumes def))) (\<lambda>e2.
     io_bind (io_map (check_named_volume K) (sd_volumes def)) (\<lambda>e3.
     io_bind (check_image K (sd_image_ref def sha)) (\<lambda>e4.
     io_bind (io_read (\<lambda>w. active_or_blue (sd_service def) (w_fs w))) (\<lambda>active.
     io_bind (io_map (check_port K (fst ` set (port_mappings def active)))
                (map fst (port_mappings def inactive))) (\<lambda>e5.
     (let errors = e1 @ e2 @ concat e3 @ e4 @ concat e5 @ check_udp def
      in if errors = [] then io_return () else io_fail (ValidationFailed errors)))))))))"

section \<open>Facts\<close>

lemma io_bind_Inr:
  "io_bind m f s = (Inr b, t) \<Longrightarrow> \<exists>a u. m s = (Inr a, u) \<and> f a u = (Inr b, t)"
  by (auto simp: io_bind_def split: prod.splits sum.splits)

lemma check_host_path_Inr:
  "check_host_path env f (BindVol host c ro) = Inr [] \<Longrightarrow>
   \<exists>p. substitute_env host env = Some (Inr p) \<and> path_exists f p"
  by (auto simp: check_host_path_def split: option.splits sum.splits if_splits)

lemma check_udp_ok:
  assumes "check_udp def = []" and "p \<in> set (sd_ports def)" and "np_protocol p = ProtoUdp"
  shows "np_fixed_port p \<noteq> None \<and> np_subdomain p = None"
proof -
  have "check_udp_port p = []" using assms(1,2) by (simp add: check_udp_def)
  then show ?thesis using assms(3) by (simp add: check_udp_port_def split: if_splits)
qed

lemma check_deploy_Inr:
  assumes "check_deploy K def sha inactive w = (Inr (), w')"
  shows "check_required_env def (load_env_map (w_fs w)) = []"
    and "check_host_paths (load_env_map (w_fs w)) (w_fs w) (sd_volumes def) = Inr []"
    and "check_udp def = []"
  using assms unfolding check_deploy_def
  by (auto dest!: io_bind_Inr simp: io_read_def io_return_def read_fs_def io_fail_def Let_def
      split: if_splits)

lemma check_host_paths_Inr:
  assumes "check_host_paths env f vols = Inr []" and "v \<in> set vols"
  shows "check_host_path env f v = Inr []"
proof -
  obtain ys where ys: "res_map (check_host_path env f) vols = Inr ys" "concat ys = []"
    using assms(1) unfolding check_host_paths_def
    by (cases "res_map (check_host_path env f) vols") auto
  from res_map_Inr_in [OF ys(1) assms(2)] ys(2) show ?thesis by auto
qed

section \<open>Correctness\<close>

text \<open>
  C21: A deploy is allowed only if every required variable is in the environment file, every bind
  mount resolves to a host path that exists, and every UDP port has a fixed port and no subdomain.
\<close>

theorem check_deploy_sound:
  assumes "check_deploy K def sha inactive w = (Inr (), w')"
  shows "(\<forall>k \<in> set (sd_required_env def). load_env_map (w_fs w) k \<noteq> None) \<and>
    (\<forall>host c ro. BindVol host c ro \<in> set (sd_volumes def) \<longrightarrow>
       (\<exists>p. substitute_env host (load_env_map (w_fs w)) = Some (Inr p) \<and> path_exists (w_fs w) p)) \<and>
    (\<forall>p \<in> set (sd_ports def). np_protocol p = ProtoUdp \<longrightarrow>
       np_fixed_port p \<noteq> None \<and> np_subdomain p = None)"
proof (intro conjI ballI allI impI)
  note ok = check_deploy_Inr [OF assms]
  show "load_env_map (w_fs w) k \<noteq> None" if "k \<in> set (sd_required_env def)" for k
    using ok(1) that by (simp add: check_required_env_def filter_empty_conv)
  show "\<exists>p. substitute_env host (load_env_map (w_fs w)) = Some (Inr p) \<and> path_exists (w_fs w) p"
    if "BindVol host c ro \<in> set (sd_volumes def)" for host c ro
    by (rule check_host_path_Inr [OF check_host_paths_Inr [OF ok(2) that]])
  show "np_fixed_port p \<noteq> None" "np_subdomain p = None"
    if "p \<in> set (sd_ports def)" "np_protocol p = ProtoUdp" for p
    using check_udp_ok [OF ok(3) that] by blast+
qed

definition checked_def :: service_def where
  "checked_def = paseo_def\<lparr>sd_required_env := [''A''], sd_volumes := [BindVol ''/opt/codery'' ''/x'' True]\<rparr>"

lemma en_check_deploy: "fst (check_deploy en_platform checked_def ''new'' Green en_world) = Inr ()"
  by code_simp

lemma check_deploy_sound_witness:
  "load_env_map (w_fs en_world) ''A'' \<noteq> None \<and>
   (\<exists>p. substitute_env ''/opt/codery'' (load_env_map (w_fs en_world)) = Some (Inr p) \<and>
      path_exists (w_fs en_world) p)"
proof -
  obtain t where c: "check_deploy en_platform checked_def ''new'' Green en_world = (Inr (), t)"
    using en_check_deploy by (metis prod.collapse)
  have "''A'' \<in> set (sd_required_env checked_def)"
    "BindVol ''/opt/codery'' ''/x'' True \<in> set (sd_volumes checked_def)"
    by (simp_all add: checked_def_def)
  with check_deploy_sound [OF c] show ?thesis by blast
qed

end
