(* ===== verification/Deploy.thy ===== *)
theory Deploy
  imports State_Files Service_Def "HOL-Library.Sublist"
begin

text \<open>
  The orchestration core of \<^verbatim>\<open>deploy.rs\<close>: the \<^verbatim>\<open>DeployDeps\<close> trait as a record of effectful operations
  over an arbitrary host state, and \<^verbatim>\<open>start_inactive\<close>, \<^verbatim>\<open>cutover\<close> and \<^verbatim>\<open>deploy_service\<close> written over it
  with every call in the order of the source. The locale \<open>deploy_host\<close> states what an
  implementation of the trait owes; what a deploy guarantees is proved from it once.
\<close>

section \<open>The trait\<close>

record 's deploy_deps =
  dd_preflight :: "('s, unit) io"
  dd_read_active :: "string \<Rightarrow> ('s, color) io"
  dd_read_active_sha :: "string \<Rightarrow> 's \<Rightarrow> string option"
  dd_write_active :: "string \<Rightarrow> color \<Rightarrow> ('s, unit) io"
  dd_write_active_sha :: "string \<Rightarrow> string \<Rightarrow> ('s, unit) io"
  dd_apply_caddy :: "('s, unit) io"
  dd_ensure_network :: "string \<Rightarrow> ('s, unit) io"
  dd_validate :: "service_def \<Rightarrow> string \<Rightarrow> color \<Rightarrow> ('s, unit) io"
  dd_start_container :: "service_def \<Rightarrow> string \<Rightarrow> color \<Rightarrow> ('s, unit) io"
  dd_remove_container :: "string \<Rightarrow> ('s, unit) io"
  dd_stop_container :: "string \<Rightarrow> ('s, unit) io"
  dd_health_check :: "service_def \<Rightarrow> color \<Rightarrow> ('s, unit) io"
  dd_prune_images :: "string \<Rightarrow> ('s, unit) io"
  dd_ensure_nginx_config :: "('s, unit) io"
  dd_container_running :: "string \<Rightarrow> ('s, bool) io"

section \<open>The orchestration\<close>

definition start_inactive ::
  "'s deploy_deps \<Rightarrow> service_def \<Rightarrow> string \<Rightarrow> color \<Rightarrow> ('s, unit) io" where
  "start_inactive D def sha inactive =
     io_then (dd_validate D def sha inactive)
    (io_then (dd_remove_container D (container_name (sd_service def) inactive))
    (io_then (dd_ensure_nginx_config D)
    (io_then (dd_start_container D def sha inactive)
    (dd_health_check D def inactive))))"

definition cutover ::
  "'s deploy_deps \<Rightarrow> service_def \<Rightarrow> string \<Rightarrow> color \<Rightarrow> color \<Rightarrow> ('s, unit) io" where
  "cutover D def sha active inactive =
     (let inactive_container = container_name (sd_service def) inactive;
          active_container = container_name (sd_service def) active
      in io_bind (dd_container_running D inactive_container) (\<lambda>running.
           if \<not> running then io_fail (CutoverRefused inactive_container active_container)
           else io_then (dd_write_active D (sd_service def) inactive)
               (io_then (dd_write_active_sha D (sd_service def) sha)
               (io_then (dd_apply_caddy D)
               (io_then (dd_stop_container D active_container)
               (dd_prune_images D (sd_service def)))))))"

definition deploy_service :: "'s deploy_deps \<Rightarrow> service_def \<Rightarrow> string \<Rightarrow> ('s, unit) io" where
  "deploy_service D def sha =
     io_then (dd_preflight D)
    (io_then (dd_ensure_network D (sd_network def))
    (io_bind (dd_read_active D (sd_service def)) (\<lambda>active.
       let inactive = flip active;
           rest = io_then (start_inactive D def sha inactive) (cutover D def sha active inactive)
       in io_bind (io_read (dd_read_active_sha D (sd_service def))) (\<lambda>recorded.
            if recorded = Some sha
            then io_bind (dd_container_running D (container_name (sd_service def) active)) (\<lambda>running.
                   if running then io_return () else rest)
            else rest))))"

section \<open>The contract of a host\<close>

text \<open>
  A view of the host: which containers are up, the recorded color and the recorded tag. An operation
  that leaves the view alone is \<open>quiet\<close>; one that may only affect one container is \<open>local\<close> to it.
\<close>

definition quiet :: "('s \<Rightarrow> 'v) \<Rightarrow> ('s, 'a) io \<Rightarrow> bool" where
  "quiet view m \<longleftrightarrow> (\<forall>s. view (snd (m s)) = view s)"

definition local_to :: "('s \<Rightarrow> string \<Rightarrow> bool) \<Rightarrow> ('s \<Rightarrow> 'v) \<Rightarrow> string \<Rightarrow> ('s, 'a) io \<Rightarrow> bool" where
  "local_to up state n m \<longleftrightarrow>
     (\<forall>s k. k \<noteq> n \<longrightarrow> up s k \<longrightarrow> up (snd (m s)) k) \<and> (\<forall>s. state (snd (m s)) = state s)"

locale deploy_host =
  fixes D :: "'s deploy_deps"
    and svc :: string
    and up :: "'s \<Rightarrow> string \<Rightarrow> bool"
    and color :: "'s \<Rightarrow> color"
    and sha_of :: "'s \<Rightarrow> string option"
  assumes quiet_preflight: "quiet (\<lambda>s. (up s, color s, sha_of s)) (dd_preflight D)"
    and quiet_network: "quiet (\<lambda>s. (up s, color s, sha_of s)) (dd_ensure_network D n)"
    and quiet_read: "quiet (\<lambda>s. (up s, color s, sha_of s)) (dd_read_active D svc)"
    and quiet_validate: "quiet (\<lambda>s. (up s, color s, sha_of s)) (dd_validate D def sha c)"
    and quiet_caddy: "quiet (\<lambda>s. (up s, color s, sha_of s)) (dd_apply_caddy D)"
    and quiet_prune: "quiet (\<lambda>s. (up s, color s, sha_of s)) (dd_prune_images D svc)"
    and quiet_nginx: "quiet (\<lambda>s. (up s, color s, sha_of s)) (dd_ensure_nginx_config D)"
    and quiet_running: "quiet (\<lambda>s. (up s, color s, sha_of s)) (dd_container_running D n)"
    and read_color: "dd_read_active D svc s = (Inr c, t) \<Longrightarrow> c = color s"
    and read_sha: "dd_read_active_sha D svc s = sha_of s"
    and running_up: "dd_container_running D n s = (Inr True, t) \<Longrightarrow> up s n"
    and start_local: "sd_service def = svc \<Longrightarrow>
      local_to up (\<lambda>s. (color s, sha_of s)) (container_name svc c) (dd_start_container D def sha c)"
    and health_local: "sd_service def = svc \<Longrightarrow>
      local_to up (\<lambda>s. (color s, sha_of s)) (container_name svc c) (dd_health_check D def c)"
    and remove_local: "local_to up (\<lambda>s. (color s, sha_of s)) n (dd_remove_container D n)"
    and stop_local: "local_to up (\<lambda>s. (color s, sha_of s)) n (dd_stop_container D n)"
    and write_color: "dd_write_active D svc c s = (r, t) \<Longrightarrow> c = flip (color s) \<Longrightarrow>
      up t = up s \<and> sha_of t = sha_of s \<and> (r = Inr () \<longrightarrow> color t = c) \<and> color t \<in> {color s, c}"
    and write_sha: "dd_write_active_sha D svc sha s = (r, t) \<Longrightarrow>
      up t = up s \<and> color t = color s \<and> (r = Inr () \<longrightarrow> clean_sha sha \<longrightarrow> sha_of t = Some sha) \<and>
      (r \<noteq> Inr () \<longrightarrow> sha_of t \<in> {sha_of s, None})"
begin

definition serving :: "'s \<Rightarrow> bool" where
  "serving s \<longleftrightarrow> up s (container_name svc (color s))"

lemma quietD:
  assumes "quiet (\<lambda>s. (up s, color s, sha_of s)) m" and "m s = (r, t)"
  shows "up t = up s" "color t = color s" "sha_of t = sha_of s"
proof -
  have "(up (snd (m s)), color (snd (m s)), sha_of (snd (m s))) = (up s, color s, sha_of s)"
    using assms(1) unfolding quiet_def by blast
  then show "up t = up s" "color t = color s" "sha_of t = sha_of s" using assms(2) by simp_all
qed

lemma localD:
  assumes "local_to up (\<lambda>s. (color s, sha_of s)) n m" and "m s = (r, t)"
  shows "k \<noteq> n \<Longrightarrow> up s k \<Longrightarrow> up t k" "color t = color s" "sha_of t = sha_of s"
proof -
  have "\<forall>s k. k \<noteq> n \<longrightarrow> up s k \<longrightarrow> up (snd (m s)) k"
    and "(color (snd (m s)), sha_of (snd (m s))) = (color s, sha_of s)"
    using assms(1) unfolding local_to_def by blast+
  then show "k \<noteq> n \<Longrightarrow> up s k \<Longrightarrow> up t k" "color t = color s" "sha_of t = sha_of s"
    using assms(2) by (metis snd_conv, simp_all)
qed

lemma keeps_quiet:
  assumes "quiet (\<lambda>s. (up s, color s, sha_of s)) m"
  shows "io_keeps (\<lambda>s. F (up s) (color s) (sha_of s)) m"
  unfolding io_keeps_def
proof (intro allI impI)
  fix s assume "F (up s) (color s) (sha_of s)"
  then show "F (up (snd (m s))) (color (snd (m s))) (sha_of (snd (m s)))"
    by (simp only: quietD [OF assms prod.collapse [symmetric]])
qed

lemma keeps_local:
  assumes "local_to up (\<lambda>s. (color s, sha_of s)) n m" and "k \<noteq> n"
  shows "io_keeps (\<lambda>s. (x \<longrightarrow> up s k) \<and> F (color s) (sha_of s)) m"
  unfolding io_keeps_def
proof (intro allI impI)
  fix s assume "(x \<longrightarrow> up s k) \<and> F (color s) (sha_of s)"
  then show "(x \<longrightarrow> up (snd (m s)) k) \<and> F (color (snd (m s))) (sha_of (snd (m s)))"
    using localD(1) [OF assms(1) prod.collapse [symmetric] assms(2), of s]
    by (simp only: localD(2,3) [OF assms(1) prod.collapse [symmetric]]) blast
qed

definition live :: "bool \<Rightarrow> color \<Rightarrow> 's \<Rightarrow> bool" where
  "live x a s \<longleftrightarrow> (x \<longrightarrow> up s (container_name svc a)) \<and> color s = a"

lemma live_serving: "live x a s \<Longrightarrow> x \<longrightarrow> serving s"
  by (simp add: live_def serving_def)

lemma quiet_live: "quiet (\<lambda>s. (up s, color s, sha_of s)) m \<Longrightarrow> io_keeps (live x a) m"
  unfolding live_def by (rule keeps_quiet)

lemma local_live:
  "local_to up (\<lambda>s. (color s, sha_of s)) (container_name svc (flip a)) m \<Longrightarrow> io_keeps (live x a) m"
  unfolding live_def by (erule keeps_local) (rule container_name_flip_neq)

lemma start_inactive_live:
  assumes "sd_service def = svc"
  shows "io_keeps (live x a) (start_inactive D def sha (flip a))"
  unfolding start_inactive_def assms
  by (intro io_keeps_then quiet_live quiet_validate quiet_nginx local_live remove_local
      start_local [OF assms] health_local [OF assms])

definition promoted :: "color \<Rightarrow> 's \<Rightarrow> bool" where
  "promoted a s \<longleftrightarrow> up s (container_name svc (flip a)) \<and> color s = flip a"

lemma promoted_serving: "promoted a s \<Longrightarrow> serving s"
  by (simp add: promoted_def serving_def)

lemma keeps_triple_E:
  "io_keeps P m \<Longrightarrow> (\<And>s. P s \<Longrightarrow> E s) \<Longrightarrow> io_triple P m (\<lambda>_. P) E"
  by (auto simp: io_keeps_iff_triple elim: io_triple_weaken)

lemma triple_running:
  "io_triple (live x a) (dd_container_running D n) (\<lambda>b s. live x a s \<and> (b \<longrightarrow> up s n))
     (\<lambda>s. x \<longrightarrow> serving s)"
proof (rule io_tripleI)
  fix s b t assume s: "live x a s" "dd_container_running D n s = (Inr b, t)"
  then have "live x a t" using io_keepsD [OF quiet_live [OF quiet_running]] by metis
  moreover have "b \<longrightarrow> up t n"
    using running_up [of n s t] quietD(1) [OF quiet_running s(2)] s(2) by (cases b) simp_all
  ultimately show "live x a t \<and> (b \<longrightarrow> up t n)" by blast
next
  fix s e t assume "live x a s" "dd_container_running D n s = (Inl e, t)"
  then have "live x a t" using io_keepsD [OF quiet_live [OF quiet_running]] by metis
  then show "x \<longrightarrow> serving t" by (rule live_serving)
qed

lemma triple_write_active:
  "io_triple (\<lambda>s. live x a s \<and> up s (container_name svc (flip a))) (dd_write_active D svc (flip a))
     (\<lambda>_. promoted a) (\<lambda>s. x \<longrightarrow> serving s)"
proof (rule io_tripleI)
  fix s u t assume s: "live x a s \<and> up s (container_name svc (flip a))"
    and m: "dd_write_active D svc (flip a) s = (Inr u, t)"
  show "promoted a t" using write_color [OF m] s by (simp add: live_def promoted_def)
next
  fix s e t assume s: "live x a s \<and> up s (container_name svc (flip a))"
    and m: "dd_write_active D svc (flip a) s = (Inl e, t)"
  have "up t = up s" "color t = a \<or> color t = flip a"
    using write_color [OF m] s by (auto simp: live_def)
  with s show "x \<longrightarrow> serving t" by (auto simp: live_def serving_def)
qed

definition finished :: "string \<Rightarrow> color \<Rightarrow> 's \<Rightarrow> bool" where
  "finished sha a s \<longleftrightarrow> promoted a s \<and> (clean_sha sha \<longrightarrow> sha_of s = Some sha)"

lemma triple_write_sha:
  "io_triple (promoted a) (dd_write_active_sha D svc sha) (\<lambda>_. finished sha a) (\<lambda>s. x \<longrightarrow> serving s)"
proof (rule io_tripleI)
  fix s u t assume "promoted a s" "dd_write_active_sha D svc sha s = (Inr u, t)"
  then show "finished sha a t" using write_sha [of sha s "Inr u" t] by (simp add: promoted_def finished_def)
next
  fix s e t assume "promoted a s" "dd_write_active_sha D svc sha s = (Inl e, t)"
  then have "promoted a t" using write_sha [of sha s "Inl e" t] by (simp add: promoted_def)
  then show "x \<longrightarrow> serving t" using promoted_serving by blast
qed

lemma finished_quiet: "quiet (\<lambda>s. (up s, color s, sha_of s)) m \<Longrightarrow> io_keeps (finished sha a) m"
  unfolding finished_def promoted_def by (rule keeps_quiet)

lemma finished_stop: "io_keeps (finished sha a) (dd_stop_container D (container_name svc a))"
proof -
  have "io_keeps (\<lambda>s. (True \<longrightarrow> up s (container_name svc (flip a))) \<and>
      (color s = flip a \<and> (clean_sha sha \<longrightarrow> sha_of s = Some sha)))
    (dd_stop_container D (container_name svc a))"
    by (rule keeps_local [OF stop_local container_name_flip_neq(1)])
  then show ?thesis unfolding finished_def promoted_def by (simp only: simp_thms conj_assoc)
qed

lemma finished_serving: "finished sha a s \<Longrightarrow> x \<longrightarrow> serving s"
  unfolding finished_def using promoted_serving by blast

lemma finished_tail:
  "io_triple (finished sha a)
     (io_then (dd_apply_caddy D) (io_then (dd_stop_container D (container_name svc a))
       (dd_prune_images D svc)))
     (\<lambda>_. finished sha a) (\<lambda>s. x \<longrightarrow> serving s)"
  by (rule keeps_triple_E [OF _ finished_serving])
    (intro io_keeps_then finished_quiet finished_stop quiet_caddy quiet_prune)

lemma cutover_triple:
  assumes "sd_service def = svc"
  shows "io_triple (live x a) (cutover D def sha a (flip a)) (\<lambda>_. finished sha a) (\<lambda>s. x \<longrightarrow> serving s)"
  unfolding cutover_def Let_def assms
proof (rule io_triple_bind [OF triple_running], rule io_triple_if)
  fix b
  assume "\<not> b"
  show "io_triple (\<lambda>s. live x a s \<and> (b \<longrightarrow> up s (container_name svc (flip a))))
     (io_fail (CutoverRefused (container_name svc (flip a)) (container_name svc a)))
     (\<lambda>_. finished sha a) (\<lambda>s. x \<longrightarrow> serving s)"
    using live_serving by (auto simp: io_triple_def io_fail_def)
next
  fix b
  assume "\<not> \<not> b"
  then have "io_triple (\<lambda>s. live x a s \<and> (b \<longrightarrow> up s (container_name svc (flip a))))
     (dd_write_active D svc (flip a)) (\<lambda>_. promoted a) (\<lambda>s. x \<longrightarrow> serving s)"
    by (intro io_triple_weaken [OF triple_write_active]) simp_all
  then show "io_triple (\<lambda>s. live x a s \<and> (b \<longrightarrow> up s (container_name svc (flip a))))
     (io_then (dd_write_active D svc (flip a)) (io_then (dd_write_active_sha D svc sha)
       (io_then (dd_apply_caddy D) (io_then (dd_stop_container D (container_name svc a))
         (dd_prune_images D svc)))))
     (\<lambda>_. finished sha a) (\<lambda>s. x \<longrightarrow> serving s)"
    by (rule io_triple_then [OF _ io_triple_then [OF triple_write_sha finished_tail]])
qed

lemma io_triple_disjI:
  "io_triple P m (\<lambda>_. Q) E \<Longrightarrow> io_triple P m (\<lambda>_ s. Q s \<or> R s) E"
  "io_triple P m (\<lambda>_. R) E \<Longrightarrow> io_triple P m (\<lambda>_ s. Q s \<or> R s) E"
  by (erule io_triple_weaken; simp)+

text \<open>A deploy that finds the tag recorded and its container up keeps serving it.\<close>

definition kept :: "string \<Rightarrow> 's \<Rightarrow> bool" where
  "kept sha s \<longleftrightarrow> serving s \<and> sha_of s = Some sha"

lemma rest_triple:
  assumes "sd_service def = svc"
  shows "io_triple (live x a)
     (io_then (start_inactive D def sha (flip a)) (cutover D def sha a (flip a)))
     (\<lambda>_ s. finished sha a s \<or> kept sha s) (\<lambda>s. x \<longrightarrow> serving s)"
  by (rule io_triple_disjI(1), rule io_triple_then [OF keeps_triple_E [OF start_inactive_live [OF assms]]
        cutover_triple [OF assms]]) (rule live_serving)

lemma recorded_triple:
  assumes "sd_service def = svc"
  shows "io_triple (\<lambda>s. live x a s \<and> sha_of s = h)
     (if h = Some sha
      then io_bind (dd_container_running D (container_name svc a)) (\<lambda>running.
             if running then io_return ()
             else io_then (start_inactive D def sha (flip a)) (cutover D def sha a (flip a)))
      else io_then (start_inactive D def sha (flip a)) (cutover D def sha a (flip a)))
     (\<lambda>_ s. finished sha a s \<or> kept sha s) (\<lambda>s. x \<longrightarrow> serving s)"
proof (rule io_triple_if)
  assume h: "h = Some sha"
  have "io_keeps (\<lambda>s. sha_of s = h) (dd_container_running D (container_name svc a))"
    by (rule keeps_quiet [OF quiet_running, of "\<lambda>_ _ g. g = h"])
  then have k: "io_triple (\<lambda>s. sha_of s = h) (dd_container_running D (container_name svc a))
      (\<lambda>_ s. sha_of s = h) (\<lambda>_. True)"
    by (rule keeps_triple_E) (rule TrueI)
  have run: "io_triple (\<lambda>s. live x a s \<and> sha_of s = h)
      (dd_container_running D (container_name svc a))
      (\<lambda>b s. (live x a s \<and> (b \<longrightarrow> up s (container_name svc a))) \<and> sha_of s = h) (\<lambda>s. x \<longrightarrow> serving s)"
    by (rule io_triple_weaken [OF io_triple_conj [OF triple_running [of x a] k]]) (assumption | erule conjunct1)+
  show "io_triple (\<lambda>s. live x a s \<and> sha_of s = h)
     (io_bind (dd_container_running D (container_name svc a)) (\<lambda>running.
        if running then io_return ()
        else io_then (start_inactive D def sha (flip a)) (cutover D def sha a (flip a))))
     (\<lambda>_ s. finished sha a s \<or> kept sha s) (\<lambda>s. x \<longrightarrow> serving s)"
  proof (rule io_triple_bind [OF run], rule io_triple_if)
    fix b :: bool assume "b"
    with h show "io_triple (\<lambda>s. (live x a s \<and> (b \<longrightarrow> up s (container_name svc a))) \<and> sha_of s = h)
        (io_return ()) (\<lambda>_ s. finished sha a s \<or> kept sha s) (\<lambda>s. x \<longrightarrow> serving s)"
      by (auto simp: io_triple_def io_return_def kept_def live_def serving_def)
  next
    fix b :: bool
    show "io_triple (\<lambda>s. (live x a s \<and> (b \<longrightarrow> up s (container_name svc a))) \<and> sha_of s = h)
        (io_then (start_inactive D def sha (flip a)) (cutover D def sha a (flip a)))
        (\<lambda>_ s. finished sha a s \<or> kept sha s) (\<lambda>s. x \<longrightarrow> serving s)"
      by (rule io_triple_weaken [OF rest_triple [OF assms, of x a]]) simp_all
  qed
next
  show "io_triple (\<lambda>s. live x a s \<and> sha_of s = h)
     (io_then (start_inactive D def sha (flip a)) (cutover D def sha a (flip a)))
     (\<lambda>_ s. finished sha a s \<or> kept sha s) (\<lambda>s. x \<longrightarrow> serving s)"
    by (rule io_triple_weaken [OF rest_triple [OF assms, of x a]]) simp_all
qed

lemma quiet_triple:
  "quiet (\<lambda>s. (up s, color s, sha_of s)) m \<Longrightarrow>
   io_triple (live x a) m (\<lambda>_. live x a) (\<lambda>s. x \<longrightarrow> serving s)"
  by (rule keeps_triple_E [OF quiet_live live_serving])

lemma deploy_service_triple:
  assumes "sd_service def = svc"
  shows "io_triple (live x a) (deploy_service D def sha)
     (\<lambda>_ s. finished sha a s \<or> kept sha s) (\<lambda>s. x \<longrightarrow> serving s)"
proof -
  have read: "io_triple (live x a) (dd_read_active D svc) (\<lambda>c s. live x a s \<and> c = a) (\<lambda>s. x \<longrightarrow> serving s)"
  proof (rule io_tripleI)
    fix s c t assume s: "live x a s" "dd_read_active D svc s = (Inr c, t)"
    then show "live x a t \<and> c = a"
      using io_keepsD [OF quiet_live [OF quiet_read] s] read_color [OF s(2)] by (simp add: live_def)
  next
    fix s e t assume s: "live x a s" "dd_read_active D svc s = (Inl e, t)"
    show "x \<longrightarrow> serving t" by (rule live_serving [OF io_keepsD [OF quiet_live [OF quiet_read] s]])
  qed
  have sha: "io_triple (live x a) (io_read (dd_read_active_sha D svc))
      (\<lambda>h s. live x a s \<and> sha_of s = h) (\<lambda>s. x \<longrightarrow> serving s)"
    by (simp add: io_triple_def io_read_def read_sha)
  have body: "io_triple (\<lambda>s. live x a s \<and> c = a)
      (let inactive = flip c;
           rest = io_then (start_inactive D def sha inactive) (cutover D def sha c inactive)
       in io_bind (io_read (dd_read_active_sha D svc)) (\<lambda>recorded.
            if recorded = Some sha
            then io_bind (dd_container_running D (container_name svc c)) (\<lambda>running.
                   if running then io_return () else rest)
            else rest))
      (\<lambda>_ s. finished sha a s \<or> kept sha s) (\<lambda>s. x \<longrightarrow> serving s)" for c
  proof (cases "c = a")
    case True
    show ?thesis
      unfolding True Let_def
      by (rule io_triple_weaken [OF io_triple_bind [OF sha recorded_triple [OF assms]]]) simp_all
  qed (simp add: io_triple_def)
  show ?thesis
    unfolding deploy_service_def assms
    by (rule io_triple_then [OF quiet_triple [OF quiet_preflight]
        io_triple_then [OF quiet_triple [OF quiet_network] io_triple_bind [OF read body]]])
qed

lemma no_outage:
  assumes "sd_service def = svc" and "serving s" and "deploy_service D def sha s = (r, t)"
  shows "serving t"
proof -
  have l: "live True (color s) s" using assms(2) by (simp add: live_def serving_def)
  note tr = io_tripleD [OF deploy_service_triple [OF assms(1)] l]
  show ?thesis
  proof (cases r)
    case (Inl e)
    with assms(3) tr(2) show ?thesis by blast
  next
    case (Inr u)
    with assms(3) tr(1) show ?thesis
      using promoted_serving unfolding finished_def kept_def by blast
  qed
qed

lemma success:
  assumes "sd_service def = svc" and "deploy_service D def sha s = (Inr u, t)" and "clean_sha sha"
  shows "serving t \<and> sha_of t = Some sha"
proof -
  have l: "live False (color s) s" by (simp add: live_def)
  from io_tripleD(1) [OF deploy_service_triple [OF assms(1)] l assms(2)] show ?thesis
    using assms(3) promoted_serving unfolding finished_def kept_def by blast
qed

text \<open>
  What a deploy may do to the record of its service: nothing; or the switch to the other color with
  the new tag; or, when it fails half way, that switch with the old tag or none.
\<close>

definition recorded :: "color \<Rightarrow> string option \<Rightarrow> 's \<Rightarrow> bool" where
  "recorded a h s \<longleftrightarrow> color s = a \<and> sha_of s = h"

definition released :: "string \<Rightarrow> color \<Rightarrow> 's \<Rightarrow> bool" where
  "released sha a s \<longleftrightarrow> color s = flip a \<and> (clean_sha sha \<longrightarrow> sha_of s = Some sha)"

definition half_way :: "string \<Rightarrow> color \<Rightarrow> string option \<Rightarrow> 's \<Rightarrow> bool" where
  "half_way sha a h s \<longleftrightarrow>
     recorded a h s \<or> color s = flip a \<and> (clean_sha sha \<longrightarrow> sha_of s \<in> {h, None, Some sha})"

lemma half_way_cases: "recorded a h s \<Longrightarrow> half_way sha a h s" "released sha a s \<Longrightarrow> half_way sha a h s"
  by (auto simp: half_way_def released_def)

lemma quiet_recorded: "quiet (\<lambda>s. (up s, color s, sha_of s)) m \<Longrightarrow> io_keeps (recorded a h) m"
  unfolding recorded_def by (rule keeps_quiet)

lemma quiet_released: "quiet (\<lambda>s. (up s, color s, sha_of s)) m \<Longrightarrow> io_keeps (released sha a) m"
  unfolding released_def by (rule keeps_quiet)

lemma local_recorded: "local_to up (\<lambda>s. (color s, sha_of s)) n m \<Longrightarrow> io_keeps (recorded a h) m"
  using localD(2,3) [OF _ prod.collapse [symmetric]] unfolding recorded_def io_keeps_def by metis

lemma local_released: "local_to up (\<lambda>s. (color s, sha_of s)) n m \<Longrightarrow> io_keeps (released sha a) m"
  using localD(2,3) [OF _ prod.collapse [symmetric]] unfolding released_def io_keeps_def by metis

lemma start_inactive_recorded:
  assumes "sd_service def = svc"
  shows "io_keeps (recorded a h) (start_inactive D def sha c)"
  unfolding start_inactive_def assms
  by (intro io_keeps_then quiet_recorded quiet_validate quiet_nginx
      local_recorded [OF remove_local] local_recorded [OF start_local [OF assms]]
      local_recorded [OF health_local [OF assms]])

lemma write_active_released:
  "io_triple (recorded a h) (dd_write_active D svc (flip a)) (\<lambda>_ s. color s = flip a \<and> sha_of s = h)
     (half_way sha a h)"
proof (rule io_tripleI)
  fix s u t assume "recorded a h s" "dd_write_active D svc (flip a) s = (Inr u, t)"
  then show "color t = flip a \<and> sha_of t = h" using write_color by (auto simp: recorded_def)
next
  fix s e t assume "recorded a h s" "dd_write_active D svc (flip a) s = (Inl e, t)"
  then show "half_way sha a h t" using write_color by (auto simp: recorded_def half_way_def)
qed

lemma write_sha_released:
  "io_triple (\<lambda>s. color s = flip a \<and> sha_of s = h) (dd_write_active_sha D svc sha) (\<lambda>_. released sha a)
     (half_way sha a h)"
proof (rule io_tripleI)
  fix s u t assume "color s = flip a \<and> sha_of s = h" "dd_write_active_sha D svc sha s = (Inr u, t)"
  then show "released sha a t" using write_sha by (auto simp: released_def)
next
  fix s e t assume "color s = flip a \<and> sha_of s = h" "dd_write_active_sha D svc sha s = (Inl e, t)"
  then show "half_way sha a h t" using write_sha [of sha s "Inl e" t] by (auto simp: half_way_def)
qed

lemma cutover_released:
  assumes "sd_service def = svc"
  shows "io_triple (recorded a h) (cutover D def sha a (flip a)) (\<lambda>_. released sha a) (half_way sha a h)"
proof -
  have run: "io_triple (recorded a h) (dd_container_running D n) (\<lambda>_. recorded a h) (half_way sha a h)" for n
    by (rule keeps_triple_E [OF quiet_recorded [OF quiet_running] half_way_cases(1)])
  have tail: "io_triple (released sha a)
      (io_then (dd_apply_caddy D) (io_then (dd_stop_container D n) (dd_prune_images D svc)))
      (\<lambda>_. released sha a) (half_way sha a h)" for n
    by (rule keeps_triple_E [OF _ half_way_cases(2)])
      (intro io_keeps_then quiet_released quiet_caddy quiet_prune local_released [OF stop_local])
  show ?thesis
    unfolding cutover_def Let_def assms
    by (intro io_triple_bind [OF run] io_triple_if
        io_triple_then [OF write_active_released io_triple_then [OF write_sha_released tail]])
      (simp add: io_triple_def io_fail_def half_way_cases)
qed

lemma deploy_service_released:
  assumes "sd_service def = svc"
  shows "io_triple (recorded a h) (deploy_service D def sha)
    (\<lambda>_ s. released sha a s \<or> recorded a h s \<and> h = Some sha) (half_way sha a h)"
proof -
  let ?Q = "\<lambda>(_ :: unit) s. released sha a s \<or> recorded a h s \<and> h = Some sha"
  have quiet: "io_triple (recorded a h) m (\<lambda>_. recorded a h) (half_way sha a h)"
    if "quiet (\<lambda>s. (up s, color s, sha_of s)) m" for m :: "('s, 'b) io"
    by (rule keeps_triple_E [OF quiet_recorded [OF that] half_way_cases(1)])
  have rest: "io_triple (recorded a h)
      (io_then (start_inactive D def sha (flip a)) (cutover D def sha a (flip a))) ?Q (half_way sha a h)"
    by (rule io_triple_disjI(1), rule io_triple_then
        [OF keeps_triple_E [OF start_inactive_recorded [OF assms] half_way_cases(1)] cutover_released [OF assms]])
  have body: "io_triple (recorded a h)
      (if recorded_sha = Some sha
       then io_bind (dd_container_running D (container_name svc a)) (\<lambda>running.
              if running then io_return ()
              else io_then (start_inactive D def sha (flip a)) (cutover D def sha a (flip a)))
       else io_then (start_inactive D def sha (flip a)) (cutover D def sha a (flip a))) ?Q (half_way sha a h)"
    if "recorded_sha = h" for recorded_sha
    using that by (intro io_triple_if io_triple_bind [OF quiet [OF quiet_running]] rest)
      (auto simp: io_triple_def io_return_def)
  have read: "io_triple (recorded a h) (dd_read_active D svc) (\<lambda>c s. recorded a h s \<and> c = a) (half_way sha a h)"
  proof (rule io_tripleI)
    fix s c t assume s: "recorded a h s" "dd_read_active D svc s = (Inr c, t)"
    show "recorded a h t \<and> c = a"
      using io_keepsD [OF quiet_recorded [OF quiet_read] s] read_color [OF s(2)] s(1) by (simp add: recorded_def)
  next
    fix s e t assume s: "recorded a h s" "dd_read_active D svc s = (Inl e, t)"
    show "half_way sha a h t" by (rule half_way_cases(1) [OF io_keepsD [OF quiet_recorded [OF quiet_read] s]])
  qed
  have sha: "io_triple (recorded a h) (io_read (dd_read_active_sha D svc)) (\<lambda>g s. recorded a h s \<and> g = h)
      (half_way sha a h)"
    by (simp add: io_triple_def io_read_def read_sha recorded_def)
  have given: "io_triple (\<lambda>s. recorded a h s \<and> x = y) m ?Q E" if "x = y \<Longrightarrow> io_triple (recorded a h) m ?Q E"
    for x y :: 'b and m E
    using that by (cases "x = y") (auto simp: io_triple_def)
  show ?thesis
    unfolding deploy_service_def assms Let_def
    by (intro io_triple_then [OF quiet [OF quiet_preflight]] io_triple_then [OF quiet [OF quiet_network]]
        io_triple_bind [OF read] given)
      (simp only:, intro io_triple_bind [OF sha] given body)
qed

end

end
