(* ===== verification/Deploy_Real.thy ===== *)
theory Deploy_Real
  imports Validate Deploy Reference_Engine
begin

text \<open>
  The production side of \<^verbatim>\<open>deploy.rs\<close>: container creation, health polling, the Docker calls with
  their tolerated status codes, and \<^verbatim>\<open>RealDeps\<close>. Under documented laws of the Docker engine,
  \<^verbatim>\<open>RealDeps\<close> satisfies the contract of a deploy host.
\<close>

section \<open>Ports and environment\<close>

fun build_port_bindings :: "fs \<Rightarrow> (string \<times> port_publish) list \<Rightarrow> binding_spec list \<Rightarrow>
    (string \<times> port_publish) list res" where
  "build_port_bindings f m [] = Inr m"
| "build_port_bindings f m (spec # specs) =
     (case resolve_bind (bs_bind spec) f of
        Inl e \<Rightarrow> Inl e
      | Inr ip \<Rightarrow>
          (let key = show_u16 (bs_container spec) @ ''/tcp''
           in build_port_bindings f
                (AList.update key
                  \<lparr>pp_key = key, pp_host_ip = ip, pp_host_port = show_u16 (bs_host spec)\<rparr> m)
                specs))"

definition build_exposed_ports :: "(u16 \<times> u16) list \<Rightarrow> string list" where
  "build_exposed_ports ports = remdups (map (\<lambda>(_, container). show_u16 container @ ''/tcp'') ports)"

definition load_env_file :: "fs \<Rightarrow> string list res" where
  "load_env_file f = map_sum id (\<lambda>content. filter env_line (lines content)) (read_text f ENV_FILE)"

section \<open>Containers\<close>

definition container_config_for ::
  "service_def \<Rightarrow> string \<Rightarrow> color \<Rightarrow> string list \<Rightarrow> port_publish list \<Rightarrow> string list \<Rightarrow> container_config" where
  "container_config_for def sha c raw_env ports binds =
     \<lparr>cc_name = container_name (sd_service def) c, cc_image = sd_image_ref def sha,
      cc_env = resolved_env def raw_env, cc_cmd = sd_command def, cc_entrypoint = sd_entrypoint def,
      cc_user = sd_user def, cc_workdir = sd_workdir def,
      cc_exposed = build_exposed_ports (port_mappings def c), cc_ports = ports,
      cc_network = sd_network def, cc_binds = binds,
      cc_extra_hosts = (if sd_extra_hosts def = [] then None else Some (sd_extra_hosts def)),
      cc_security_opt = (if sd_allow_privilege_escalation def then None
                         else Some [''no-new-privileges:true'']),
      cc_init = (if sd_init def then Some True else None), cc_ipc = sd_ipc def,
      cc_restart = ''unless-stopped'',
      cc_aliases = (if sd_network_aliases def = [] then None else Some (sd_network_aliases def))\<rparr>"

definition prepare_container :: "service_def \<Rightarrow> string \<Rightarrow> color \<Rightarrow> fs \<Rightarrow> container_config res" where
  "prepare_container def sha c f =
     (case load_env_file f of
        Inl e \<Rightarrow> Inl e
      | Inr raw_env \<Rightarrow>
          (case build_port_bindings f [] (port_binding_specs def c) of
             Inl e \<Rightarrow> Inl e
           | Inr ports \<Rightarrow>
               (case resolved_binds def (env_of_lines raw_env) of
                  None \<Rightarrow> Inl DoesNotReturn
                | Some (Inl e) \<Rightarrow> Inl e
                | Some (Inr binds) \<Rightarrow>
                    Inr (container_config_for def sha c raw_env (map snd ports) binds))))"

definition start_container :: "'e platform \<Rightarrow> service_def \<Rightarrow> string \<Rightarrow> color \<Rightarrow> ('e world, unit) io" where
  "start_container K def sha c =
     (let name = container_name (sd_service def) c
      in io_bind (read_fs (prepare_container def sha c)) (\<lambda>cfg.
           io_then (dk_ask name (pf_create K cfg)) (dk_ask name (pf_start K name))))"

definition remove_container_if_exists :: "'e platform \<Rightarrow> string \<Rightarrow> ('e world, unit) io" where
  "remove_container_if_exists K name =
     io_bind (dk_call (pf_remove K name)) (\<lambda>r.
       case r of
         Inr _ \<Rightarrow> io_return ()
       | Inl e \<Rightarrow> if e = ServerStatus 404 then io_return () else io_fail (DockerError e name))"

definition stop_container :: "'e platform \<Rightarrow> string \<Rightarrow> ('e world, unit) io" where
  "stop_container K name =
     io_bind (dk_call (pf_stop K name)) (\<lambda>r.
       case r of
         Inr _ \<Rightarrow> io_return ()
       | Inl e \<Rightarrow> if e = ServerStatus 404 \<or> e = ServerStatus 304 then io_return ()
                  else io_fail (DockerError e name))"

definition ensure_network :: "'e platform \<Rightarrow> string \<Rightarrow> ('e world, unit) io" where
  "ensure_network K network =
     io_bind (dk_call (pf_create_network K network)) (\<lambda>r.
       case r of
         Inr _ \<Rightarrow> io_return ()
       | Inl e \<Rightarrow> if e = ServerStatus 409 then io_return () else io_fail (DockerError e network))"

definition container_running :: "'e platform \<Rightarrow> string \<Rightarrow> ('e world, bool) io" where
  "container_running K name = io_bind (dk_call (pf_inspect K name)) (\<lambda>r. io_return (running_flag r))"

section \<open>Health checks\<close>

definition tcp_probe :: "string \<Rightarrow> u16 \<Rightarrow> string list" where
  "tcp_probe container container_port =
     [''docker'', ''exec'', container, ''bash'', ''-c'',
      ''exec 3<>/dev/tcp/127.0.0.1/'' @ show_u16 container_port @ '' 2>/dev/null && exec 3>&-'']"

primrec poll_tcp :: "'e platform \<Rightarrow> string list \<Rightarrow> nat \<Rightarrow> nat \<Rightarrow> ('e world, bool) io" where
  "poll_tcp K cmd interval 0 = io_return False"
| "poll_tcp K cmd interval (Suc n) =
     io_bind (spawn K cmd []) (\<lambda>out.
       if (case out of Some r \<Rightarrow> so_success r | None \<Rightarrow> False) then io_return True
       else io_then (sleep K interval) (poll_tcp K cmd interval n))"

definition wait_for_tcp_in_container ::
  "'e platform \<Rightarrow> string \<Rightarrow> u16 \<Rightarrow> nat \<Rightarrow> nat \<Rightarrow> ('e world, bool) io" where
  "wait_for_tcp_in_container K container container_port timeout interval =
     poll_tcp K (tcp_probe container container_port) interval (timeout div max interval 1)"

primrec poll_docker :: "'e platform \<Rightarrow> string \<Rightarrow> nat \<Rightarrow> ('e world, bool) io" where
  "poll_docker K name 0 = io_return False"
| "poll_docker K name (Suc n) =
     io_bind (dk_ask name (pf_inspect K name)) (\<lambda>info.
       case ci_health info of
         Some Healthy \<Rightarrow> io_return True
       | Some Unhealthy \<Rightarrow> io_return False
       | _ \<Rightarrow> io_then (sleep K 1) (poll_docker K name n))"

definition wait_for_docker_healthy :: "'e platform \<Rightarrow> string \<Rightarrow> nat \<Rightarrow> ('e world, bool) io" where
  "wait_for_docker_healthy K name timeout = poll_docker K name timeout"

definition await_health :: "'e platform \<Rightarrow> service_def \<Rightarrow> color \<Rightarrow> ('e world, bool) io" where
  "await_health K def c =
     (let container = container_name (sd_service def) c
      in case sd_health_check def of
           TcpCheck _ timeout interval \<Rightarrow>
             io_bind (io_lift (health_container_port def)) (\<lambda>port.
               wait_for_tcp_in_container K container port timeout interval)
         | DockerCheck timeout \<Rightarrow> wait_for_docker_healthy K container timeout)"

definition run_health_check :: "'e platform \<Rightarrow> service_def \<Rightarrow> color \<Rightarrow> ('e world, unit) io" where
  "run_health_check K def c =
     (let container = container_name (sd_service def) c
      in io_bind (await_health K def c) (\<lambda>healthy.
           if healthy then io_return ()
           else io_then (remove_container_if_exists K container) (io_fail (HealthTimeout (sd_service def)))))"

definition poll_health :: "'e platform \<Rightarrow> service_def \<Rightarrow> color \<Rightarrow> ('e world, unit) io" where
  "poll_health K def c =
     io_bind (await_health K def c) (\<lambda>healthy.
       if healthy then io_return () else io_fail (HealthTimeout (sd_service def)))"

section \<open>The production host\<close>

definition ensure_nginx_config :: "('e world, unit) io" where
  "ensure_nginx_config =
     on_fs (\<lambda>f. if path_exists f NGINX_CONFIG then (Inr (), f)
                else io_then (create_dir_all (parent_dir NGINX_CONFIG)) (write_text NGINX_CONFIG []) f)"

definition real_deps :: "'e platform \<Rightarrow> 'e world deploy_deps" where
  "real_deps K =
     \<lparr>dd_preflight = preflight_run K,
      dd_read_active = (\<lambda>svc. read_fs (read_active svc)),
      dd_read_active_sha = (\<lambda>svc w. read_active_sha svc (w_fs w)),
      dd_write_active = (\<lambda>svc c. on_fs (write_active svc c)),
      dd_write_active_sha = (\<lambda>svc sha. on_fs (write_active_sha svc sha)),
      dd_apply_caddy = apply_all K,
      dd_ensure_network = ensure_network K,
      dd_validate = check_deploy K,
      dd_start_container = start_container K,
      dd_remove_container = remove_container_if_exists K,
      dd_stop_container = stop_container K,
      dd_health_check = run_health_check K,
      dd_prune_images = prune K,
      dd_ensure_nginx_config = ensure_nginx_config,
      dd_container_running = container_running K\<rparr>"

lemma real_ops:
  "dd_preflight (real_deps K) = preflight_run K"
  "dd_read_active (real_deps K) svc = read_fs (read_active svc)"
  "dd_read_active_sha (real_deps K) svc w = read_active_sha svc (w_fs w)"
  "dd_write_active (real_deps K) svc c = on_fs (write_active svc c)"
  "dd_write_active_sha (real_deps K) svc sha = on_fs (write_active_sha svc sha)"
  "dd_apply_caddy (real_deps K) = apply_all K"
  "dd_ensure_network (real_deps K) = ensure_network K"
  "dd_validate (real_deps K) = check_deploy K"
  "dd_start_container (real_deps K) = start_container K"
  "dd_remove_container (real_deps K) = remove_container_if_exists K"
  "dd_stop_container (real_deps K) = stop_container K"
  "dd_health_check (real_deps K) = run_health_check K"
  "dd_prune_images (real_deps K) = prune K"
  "dd_ensure_nginx_config (real_deps K) = ensure_nginx_config"
  "dd_container_running (real_deps K) = container_running K"
  by (simp_all add: real_deps_def)

end
