(* ===== verification/Deploy_Contract.thy ===== *)
theory Deploy_Contract
  imports Deploy_Real
begin

text \<open>
  \<^verbatim>\<open>RealDeps\<close> meets the contract of a deploy host. \<open>docker_laws\<close> collects what the Docker engine and
  the called programs are documented to do to running containers; everything else is proved from
  the code.
\<close>

section \<open>What the engine owes\<close>

definition spares :: "('e \<Rightarrow> string \<Rightarrow> bool) \<Rightarrow> string option \<Rightarrow> ('e \<Rightarrow> 'a \<times> 'e) \<Rightarrow> bool" where
  "spares up n g \<longleftrightarrow> (\<forall>e k. Some k \<noteq> n \<longrightarrow> up e k \<longrightarrow> up (snd (g e)) k)"

definition neutral :: "('e \<Rightarrow> string \<Rightarrow> bool) \<Rightarrow> ('e \<Rightarrow> 'a \<times> 'e) \<Rightarrow> bool" where
  "neutral up g \<longleftrightarrow> (\<forall>e. up (snd (g e)) = up e)"

text \<open>
  The helper programs that do not start, stop or remove containers: everything but \<^verbatim>\<open>docker\<close>, and of
  \<^verbatim>\<open>docker\<close> only its \<^verbatim>\<open>exec\<close>, \<^verbatim>\<open>build\<close>, \<^verbatim>\<open>port\<close> and \<^verbatim>\<open>ps\<close> commands.
\<close>

definition harmless :: "string list \<Rightarrow> bool" where
  "harmless argv \<longleftrightarrow> (case argv of c # sub # _ \<Rightarrow> c = ''docker'' \<longrightarrow> sub \<in> {''exec'', ''build'', ''port'', ''ps''} | _ \<Rightarrow> True)"

lemma harmless_simps [simp]:
  "harmless []" "harmless [c]"
  "harmless (c # sub # rest) \<longleftrightarrow> (c = ''docker'' \<longrightarrow> sub = ''exec'' \<or> sub = ''build'' \<or> sub = ''port'' \<or> sub = ''ps'')"
  by (simp_all add: harmless_def)

definition docker_laws :: "'e platform \<Rightarrow> ('e \<Rightarrow> string \<Rightarrow> bool) \<Rightarrow> bool" where
  "docker_laws K up \<longleftrightarrow>
     (\<forall>n. neutral up (pf_inspect K n)) \<and>
     (\<forall>n e. running_flag (fst (pf_inspect K n e)) \<longrightarrow> up e n) \<and>
     (\<forall>cfg. spares up (Some (cc_name cfg)) (pf_create K cfg)) \<and>
     (\<forall>n. spares up (Some n) (pf_start K n)) \<and>
     (\<forall>n. spares up (Some n) (pf_stop K n)) \<and>
     (\<forall>n. spares up (Some n) (pf_remove K n)) \<and>
     (\<forall>n. neutral up (pf_create_network K n)) \<and>
     (\<forall>n. neutral up (pf_inspect_volume K n)) \<and>
     (\<forall>n. neutral up (pf_create_volume K n)) \<and>
     (\<forall>p. neutral up (pf_list_images K p)) \<and>
     (\<forall>i c. neutral up (pf_pull K i c)) \<and>
     (\<forall>i. neutral up (pf_remove_image K i)) \<and>
     (\<forall>argv envs. harmless argv \<longrightarrow> neutral up (pf_spawn K argv envs)) \<and>
     (\<forall>n args. neutral up (pf_exec K n (''nginx'' # args))) \<and>
     neutral up (pf_list_containers K) \<and>
     (\<forall>n. neutral up (pf_logs K n)) \<and>
     (\<forall>n p. neutral up (pf_download K n p)) \<and>
     (\<forall>p. neutral up (pf_tcp_bind K p)) \<and>
     (\<forall>p. neutral up (pf_tcp_connect K p)) \<and>
     (\<forall>n e. up (pf_sleep K n e) = up e)"

section \<open>The view of a world\<close>

definition color_of :: "string \<Rightarrow> fs \<Rightarrow> color" where
  "color_of svc f = (case read_active svc f of Inr c \<Rightarrow> c | Inl _ \<Rightarrow> Blue)"

definition view :: "('e \<Rightarrow> string \<Rightarrow> bool) \<Rightarrow> string \<Rightarrow> 'e world \<Rightarrow>
    (string \<Rightarrow> bool) \<times> color \<times> string option" where
  "view up svc w = (up (w_ext w), color_of svc (w_fs w), read_active_sha svc (w_fs w))"

text \<open>What the two state files of a service look like: the part of the file system the view needs.\<close>

definition state_view :: "string \<Rightarrow> fs \<Rightarrow> string option \<times> bool \<times> bool \<times> string option \<times> bool" where
  "state_view svc f =
     (file_at f (state_path svc), denied f (state_path svc), path_exists f (state_path svc),
      file_at f (sha_path svc), denied f (sha_path svc))"

lemma state_view_color: "state_view svc g = state_view svc f \<Longrightarrow> color_of svc g = color_of svc f"
  by (simp add: state_view_def color_of_def read_active_def read_text_def Let_def)

lemma state_view_sha: "state_view svc g = state_view svc f \<Longrightarrow> read_active_sha svc g = read_active_sha svc f"
  by (simp add: state_view_def read_active_sha_def read_text_def)

text \<open>Operations that keep both parts of the view, and the database.\<close>

definition still :: "('e \<Rightarrow> string \<Rightarrow> bool) \<Rightarrow> string \<Rightarrow> ('e world, 'a) io \<Rightarrow> bool" where
  "still up svc m \<longleftrightarrow>
     (\<forall>u v d. io_keeps (\<lambda>w. up (w_ext w) = u \<and> state_view svc (w_fs w) = v \<and> w_db w = d) m)"

lemma stillI:
  "(\<And>w. up (w_ext (snd (m w))) = up (w_ext w)) \<Longrightarrow>
   (\<And>w. state_view svc (w_fs (snd (m w))) = state_view svc (w_fs w)) \<Longrightarrow>
   (\<And>w. w_db (snd (m w)) = w_db w) \<Longrightarrow> still up svc m"
  by (simp add: still_def io_keeps_def)

lemma stillD:
  assumes "still up svc m"
  shows "up (w_ext (snd (m w))) = up (w_ext w)"
    and "state_view svc (w_fs (snd (m w))) = state_view svc (w_fs w)"
    and "w_db (snd (m w)) = w_db w"
proof -
  have "io_keeps (\<lambda>x. up (w_ext x) = up (w_ext w) \<and> state_view svc (w_fs x) = state_view svc (w_fs w) \<and>
      w_db x = w_db w) m"
    using assms unfolding still_def by blast
  then show "up (w_ext (snd (m w))) = up (w_ext w)"
    and "state_view svc (w_fs (snd (m w))) = state_view svc (w_fs w)" and "w_db (snd (m w)) = w_db w"
    unfolding io_keeps_def by simp_all
qed

lemma still_quiet:
  assumes "still up svc m"
  shows "quiet (\<lambda>w. (up (w_ext w), color_of svc (w_fs w), read_active_sha svc (w_fs w))) m"
  unfolding quiet_def
proof
  fix w
  note h = stillD [OF assms, of w]
  show "(up (w_ext (snd (m w))), color_of svc (w_fs (snd (m w))), read_active_sha svc (w_fs (snd (m w)))) =
      (up (w_ext w), color_of svc (w_fs w), read_active_sha svc (w_fs w))"
    by (simp only: h(1) state_view_color [OF h(2)] state_view_sha [OF h(2)])
qed

named_theorems still_rules \<open>operations that leave the deploy view alone\<close>

lemma still_bind [still_rules]: "still up svc m \<Longrightarrow> (\<And>a. still up svc (f a)) \<Longrightarrow> still up svc (io_bind m f)"
  by (simp add: still_def io_keeps_bind)

lemma still_then [still_rules]: "still up svc m \<Longrightarrow> still up svc k \<Longrightarrow> still up svc (io_then m k)"
  by (simp add: still_def io_keeps_then)

lemma still_basic [still_rules]:
  "still up svc (io_return a)" "still up svc (io_fail e)" "still up svc (io_lift r)"
  "still up svc (io_read g)" "still up svc (read_fs h)" "still up svc (read_db d)"
  "still up svc (docker_connect K)"
  by (simp_all add: still_def io_keeps_basic world_reads)

lemma still_try [still_rules]: "still up svc m \<Longrightarrow> still up svc (io_try m)"
  by (simp add: still_def io_keeps_try)

lemma still_if [still_rules]:
  "(b \<Longrightarrow> still up svc m) \<Longrightarrow> (\<not> b \<Longrightarrow> still up svc m') \<Longrightarrow> still up svc (if b then m else m')"
  by simp

lemma still_each [still_rules]: "(\<And>x. still up svc (f x)) \<Longrightarrow> still up svc (io_each f xs)"
  by (simp add: still_def io_keeps_each)

lemma still_map [still_rules]: "(\<And>x. still up svc (f x)) \<Longrightarrow> still up svc (io_map f xs)"
  by (simp add: still_def io_keeps_map)

lemma still_dk_call: "neutral up g \<Longrightarrow> still up svc (dk_call g)"
  by (rule stillI) (simp_all add: neutral_def dk_call_def split_beta)

lemma still_dk_ask: "neutral up g \<Longrightarrow> still up svc (dk_ask what g)"
  unfolding dk_ask_def by (intro still_rules still_dk_call) (auto intro: still_rules split: sum.split)

lemma still_spawn: "neutral up (pf_spawn K argv envs) \<Longrightarrow> still up svc (spawn K argv envs)"
  by (rule stillI) (simp_all add: neutral_def spawn_def split_beta)

lemma still_ext_bool: "neutral up h \<Longrightarrow> still up svc (ext_bool h)"
  by (rule stillI) (simp_all add: neutral_def ext_bool_def split_beta)

lemma still_sleep: "docker_laws K up \<Longrightarrow> still up svc (sleep K n)"
  by (rule stillI) (simp_all add: docker_laws_def sleep_def sleep_ms_def)

lemma still_on_fs: "(\<And>f. state_view svc (snd (m f)) = state_view svc f) \<Longrightarrow> still up svc (on_fs m)"
  by (rule stillI) (simp_all add: on_fs_def split_beta)

lemma laws_neutral:
  assumes "docker_laws K up"
  shows "neutral up (pf_inspect K n)" "neutral up (pf_create_network K n)"
    "neutral up (pf_inspect_volume K n)" "neutral up (pf_create_volume K n)"
    "neutral up (pf_list_images K p)" "neutral up (pf_pull K i c)" "neutral up (pf_remove_image K i)"
    "neutral up (pf_exec K n (''nginx'' # args))" "neutral up (pf_list_containers K)"
    "neutral up (pf_tcp_bind K q)" "neutral up (pf_tcp_connect K q)"
    "neutral up (pf_logs K n)" "neutral up (pf_download K n path)"
  using assms by (simp_all add: docker_laws_def)

lemma laws_spawn: "docker_laws K up \<Longrightarrow> harmless argv \<Longrightarrow> neutral up (pf_spawn K argv envs)"
  by (simp add: docker_laws_def)

lemma laws_running: "docker_laws K up \<Longrightarrow> running_flag (fst (pf_inspect K n e)) \<Longrightarrow> up e n"
  by (simp add: docker_laws_def)

lemma still_harmless: "docker_laws K up \<Longrightarrow> harmless argv \<Longrightarrow> still up svc (spawn K argv envs)"
  by (intro still_spawn laws_spawn)

lemmas still_ext = still_dk_call still_dk_ask still_harmless still_ext_bool

section \<open>File operations that miss the state files\<close>

lemma state_path_long:
  assumes "service_ok svc"
  shows "length (state_path svc) \<ge> 24" and "length (sha_path svc) \<ge> 22"
  using assms by (simp_all add: service_ok_paths STATE_DIR_def)

lemma ancestors_length: "a \<in> set (ancestors p) \<Longrightarrow> length a \<le> length p"
  using ancestors_prefix [of a p] by auto

lemma mkdir_state_view:
  assumes "service_ok svc" and "length d \<le> 19"
  shows "state_view svc (snd (create_dir_all d f)) = state_view svc f"
proof -
  have "state_path svc \<notin> set (ancestors d)"
    using ancestors_length [of "state_path svc" d] state_path_long [OF assms(1)] assms(2) by auto
  then show ?thesis
    by (auto simp: state_view_def create_dir_all_def path_exists_def file_at_def)
qed

lemma write_state_view:
  "p \<noteq> state_path svc \<Longrightarrow> p \<noteq> sha_path svc \<Longrightarrow>
   state_view svc (snd (write_text p c f)) = state_view svc f"
  by (auto simp: state_view_def write_text_def path_exists_def)

lemma state_paths_other:
  assumes "service_ok svc"
  shows "CADDY_CONFIG \<noteq> state_path svc" "CADDY_CONFIG \<noteq> sha_path svc"
    "NGINX_CONFIG \<noteq> state_path svc" "NGINX_CONFIG \<noteq> sha_path svc"
  using assms by (simp_all add: service_ok_paths STATE_DIR_def CADDY_CONFIG_def NGINX_CONFIG_def)

lemma snd_io_then: "snd (io_then m k s) = (case m s of (Inl e, t) \<Rightarrow> t | (Inr a, t) \<Rightarrow> snd (k t))"
  by (simp add: io_then_def io_bind_def split: prod.splits sum.splits)

lemma still_db_open: "service_ok svc \<Longrightarrow> still up svc db_open"
  unfolding db_open_def
  by (intro still_then still_on_fs mkdir_state_view) (simp_all add: still_def io_keeps_def)

lemma still_ensure_nginx:
  assumes "service_ok svc"
  shows "still up svc ensure_nginx_config"
  unfolding ensure_nginx_config_def
proof (rule still_on_fs)
  fix f
  have p: "length (parent_dir NGINX_CONFIG) \<le> 19" by code_simp
  have "state_view svc (snd (io_then (create_dir_all (parent_dir NGINX_CONFIG)) (write_text NGINX_CONFIG []) f)) =
      state_view svc f"
    using mkdir_state_view [OF assms p, of f] write_state_view [OF state_paths_other(3,4) [OF assms]]
    by (cases "create_dir_all (parent_dir NGINX_CONFIG) f"; cases "fst (create_dir_all (parent_dir NGINX_CONFIG) f)")
      (simp_all add: snd_io_then)
  then show "state_view svc (snd ((if path_exists f NGINX_CONFIG then (Inr (), f)
      else io_then (create_dir_all (parent_dir NGINX_CONFIG)) (write_text NGINX_CONFIG []) f))) =
      state_view svc f"
    by simp
qed

section \<open>The quiet operations of the production host\<close>

lemma still_preflight: "docker_laws K up \<Longrightarrow> still up svc (preflight_run K)"
  unfolding preflight_run_def check_supervisord_def check_tailscale_def check_caddy_def
  by (intro still_then still_bind still_ext laws_neutral)
    (simp_all add: still_rules split: option.split)

lemma still_ensure_network: "docker_laws K up \<Longrightarrow> still up svc (ensure_network K n)"
  unfolding ensure_network_def
  by (intro still_bind still_ext laws_neutral) (auto intro: still_rules split: sum.split)

lemma still_running: "docker_laws K up \<Longrightarrow> still up svc (container_running K n)"
  unfolding container_running_def by (intro still_rules still_ext laws_neutral)

lemma still_pull: "docker_laws K up \<Longrightarrow> still up svc (pull_if_missing K i)"
  unfolding pull_if_missing_def image_exists_locally_def pull_def
  by (intro still_rules still_ext laws_neutral) (auto intro: still_rules split: sum.split)

lemma still_prune: "docker_laws K up \<Longrightarrow> still up svc (prune K s)"
  unfolding prune_def by (intro still_rules still_ext laws_neutral)

lemma still_volume:
  assumes "docker_laws K up"
  shows "still up svc (check_named_volume K v)"
proof -
  have "still up svc (ensure_named_volume K n)" for n
    unfolding ensure_named_volume_def
    by (intro still_bind still_ext laws_neutral assms)
      (auto intro: still_rules still_dk_ask laws_neutral [OF assms] split: sum.split docker_error.split)
  then show ?thesis
    unfolding check_named_volume_def
    by (cases v) (auto intro!: still_bind still_try still_basic split: sum.split)
qed

lemma still_image: "docker_laws K up \<Longrightarrow> still up svc (check_image K i)"
  unfolding check_image_def
  by (intro still_bind still_try still_pull) (auto intro: still_rules split: sum.split)

lemma still_port: "docker_laws K up \<Longrightarrow> still up svc (check_port K a q)"
  unfolding check_port_def by (intro still_rules still_ext laws_neutral)

lemma still_validate: "docker_laws K up \<Longrightarrow> still up svc (check_deploy K def sha c)"
  unfolding check_deploy_def Let_def
  by (intro still_rules still_volume still_image still_port)

lemma still_apply_all:
  assumes "docker_laws K up" and "service_ok svc"
  shows "still up svc (apply_all K)"
proof -
  have route: "still up svc (\<lambda>w. (build_route_map y r (w_fs w) (w_db w), w))" for y r
    by (simp add: still_def io_keeps_def)
  have "still up svc (on_fs (write_text CADDY_CONFIG c))" for c
    by (intro still_on_fs write_state_view state_paths_other assms(2))
  moreover have "still up svc (reload_caddy K)"
    unfolding reload_caddy_def
    by (intro still_bind still_basic still_harmless assms(1))
      (simp_all add: still_rules split: option.split)
  ultimately show ?thesis
    unfolding apply_all_def by (intro still_rules still_db_open route assms(2))
qed

section \<open>The local operations\<close>

definition touches :: "('e \<Rightarrow> string \<Rightarrow> bool) \<Rightarrow> string \<Rightarrow> string \<Rightarrow> ('e world, 'a) io \<Rightarrow> bool" where
  "touches up svc n m \<longleftrightarrow>
     (\<forall>k. k \<noteq> n \<longrightarrow> io_keeps (\<lambda>w. up (w_ext w) k) m) \<and>
     (\<forall>v. io_keeps (\<lambda>w. state_view svc (w_fs w) = v) m) \<and> (\<forall>d. io_keeps (\<lambda>w. w_db w = d) m)"

lemma still_touches: "still up svc m \<Longrightarrow> touches up svc n m"
  using stillD [of up svc m] by (simp add: touches_def io_keeps_def)

lemma touches_local:
  fixes up :: "'e \<Rightarrow> string \<Rightarrow> bool" and m :: "('e world, 'a) io"
  assumes "touches up svc n m"
  shows "local_to (\<lambda>w. up (w_ext w)) (\<lambda>w. (color_of svc (w_fs w), read_active_sha svc (w_fs w))) n m"
  unfolding local_to_def
proof (intro conjI allI impI)
  fix w :: "'e world" and k assume "k \<noteq> n" "up (w_ext w) k"
  with assms show "up (w_ext (snd (m w))) k" unfolding touches_def io_keeps_def by blast
next
  fix w :: "'e world"
  have "io_keeps (\<lambda>x. state_view svc (w_fs x) = state_view svc (w_fs w)) m"
    using assms unfolding touches_def by blast
  then have h: "state_view svc (w_fs (snd (m w))) = state_view svc (w_fs w)"
    unfolding io_keeps_def by simp
  show "(color_of svc (w_fs (snd (m w))), read_active_sha svc (w_fs (snd (m w)))) =
      (color_of svc (w_fs w), read_active_sha svc (w_fs w))"
    by (simp only: state_view_color [OF h] state_view_sha [OF h])
qed

lemma touches_bind: "touches up svc n m \<Longrightarrow> (\<And>a. touches up svc n (f a)) \<Longrightarrow> touches up svc n (io_bind m f)"
  by (simp add: touches_def io_keeps_bind)

lemma touches_then: "touches up svc n m \<Longrightarrow> touches up svc n k \<Longrightarrow> touches up svc n (io_then m k)"
  by (simp add: touches_def io_keeps_then)

lemma touches_dk_call: "spares up (Some n) g \<Longrightarrow> touches up svc n (dk_call g)"
  by (auto simp: touches_def io_keeps_def spares_def dk_call_def split_beta)

lemma touches_dk_ask: "spares up (Some n) g \<Longrightarrow> touches up svc n (dk_ask what g)"
  unfolding dk_ask_def
  by (intro touches_bind touches_dk_call) (auto intro: still_touches still_rules split: sum.split)

lemma laws_spares:
  assumes "docker_laws K up"
  shows "spares up (Some (cc_name cfg)) (pf_create K cfg)" "spares up (Some n) (pf_start K n)"
    "spares up (Some n) (pf_stop K n)" "spares up (Some n) (pf_remove K n)"
  using assms by (simp_all add: docker_laws_def)

lemma prepare_container_name:
  "prepare_container def sha c f = Inr cfg \<Longrightarrow> cc_name cfg = container_name (sd_service def) c"
  by (auto simp: prepare_container_def container_config_for_def split: sum.splits option.splits)

lemma touches_start:
  assumes "docker_laws K up"
  shows "touches up svc (container_name (sd_service def) c) (start_container K def sha c)"
proof -
  let ?n = "container_name (sd_service def) c"
  have go: "touches up svc ?n (io_then (dk_ask ?n (pf_create K cfg)) (dk_ask ?n (pf_start K ?n)))"
    if "cc_name cfg = ?n" for cfg
    using laws_spares [OF assms] that by (intro touches_then touches_dk_ask) metis+
  have "start_container K def sha c w =
      (case prepare_container def sha c (w_fs w) of
         Inl e \<Rightarrow> (Inl e, w)
       | Inr cfg \<Rightarrow> io_then (dk_ask ?n (pf_create K cfg)) (dk_ask ?n (pf_start K ?n)) w)" for w
    by (simp add: start_container_def io_bind_def read_fs_def Let_def split: sum.splits)
  with go prepare_container_name [of def sha c] show ?thesis
    unfolding touches_def io_keeps_def by (auto split: sum.splits)
qed

lemma touches_remove: "docker_laws K up \<Longrightarrow> touches up svc n (remove_container_if_exists K n)"
  unfolding remove_container_if_exists_def
  by (intro touches_bind touches_dk_call laws_spares)
    (auto intro: still_touches still_rules split: sum.split)

lemma touches_stop: "docker_laws K up \<Longrightarrow> touches up svc n (stop_container K n)"
  unfolding stop_container_def
  by (intro touches_bind touches_dk_call laws_spares)
    (auto intro: still_touches still_rules split: sum.split)

lemma still_poll_tcp: "docker_laws K up \<Longrightarrow> harmless cmd \<Longrightarrow> still up svc (poll_tcp K cmd i n)"
  by (induction n) (auto intro!: still_bind still_then still_if still_basic still_harmless still_sleep)

lemma still_poll_docker: "docker_laws K up \<Longrightarrow> still up svc (poll_docker K name n)"
  by (induction n)
    (auto intro!: still_bind still_then still_basic still_dk_ask still_sleep laws_neutral
      split: option.split health_status.split)

lemma harmless_probe [simp]: "harmless (tcp_probe container p)"
  by (simp add: tcp_probe_def)

lemma still_await: "docker_laws K up \<Longrightarrow> still up svc (await_health K def c)"
  unfolding await_health_def wait_for_tcp_in_container_def wait_for_docker_healthy_def Let_def
  by (auto intro!: still_bind still_basic still_poll_tcp still_poll_docker split: health_check.split)

lemma touches_health:
  assumes "docker_laws K up"
  shows "touches up svc (container_name (sd_service def) c) (run_health_check K def c)"
  unfolding run_health_check_def Let_def
  by (intro touches_bind still_touches [OF still_await [OF assms]])
    (auto intro: still_touches still_basic touches_then touches_remove [OF assms])

section \<open>The contract\<close>

lemma mkdir_state_dir_view:
  assumes "service_ok svc" and "create_dir_all (parent_dir p) f = (r, g)"
    and "p = state_path svc \<or> p = sha_path svc"
  shows "state_view svc g = state_view svc f"
proof -
  have "parent_dir p = STATE_DIR"
  proof -
    have "CHR ''/'' \<notin> set (svc @ ''.color'')" "CHR ''/'' \<notin> set (svc @ ''.sha'')"
      using assms(1) by (simp_all add: service_ok_def)
    from parent_dir_join(1) [OF this(1)] parent_dir_join(1) [OF this(2)] assms(3) show ?thesis
      by (auto simp: service_ok_paths [OF assms(1)])
  qed
  then show ?thesis
    using mkdir_state_view [OF assms(1), of "parent_dir p" f] assms(2) by (simp add: STATE_DIR_def)
qed

lemma write_active_view:
  assumes "service_ok svc" and "write_active svc c f = (r, g)" and "c = flip (color_of svc f)"
  shows "read_active_sha svc g = read_active_sha svc f" and "r = Inr () \<longrightarrow> color_of svc g = c"
    and "color_of svc g \<in> {color_of svc f, c}"
proof -
  let ?p = "state_path svc"
  from assms(2) consider e where "create_dir_all (parent_dir ?p) f = (Inl e, g)" "r = Inl e"
    | u where "create_dir_all (parent_dir ?p) f = (Inr (), u)"
        "write_text ?p (color_str c @ [newline]) u = (r, g)"
    by (auto simp: write_active_def io_then_split Let_def)
  then have "read_active_sha svc g = read_active_sha svc f \<and> color_of svc g \<in> {color_of svc f, c}"
  proof cases
    case 1
    have v: "state_view svc g = state_view svc f" by (rule mkdir_state_dir_view [OF assms(1) 1(1)]) simp
    show ?thesis using state_view_color [OF v] state_view_sha [OF v] by blast
  next
    case 2
    have v: "state_view svc u = state_view svc f" by (rule mkdir_state_dir_view [OF assms(1) 2(1)]) simp
    note vc = state_view_color [OF v] and vs = state_view_sha [OF v]
    have d: "denied g = denied u" using write_text_frame(2) [OF 2(2)] .
    have "sha_path svc \<noteq> ?p" using state_sha_path_neq [OF assms(1) assms(1)] by metis
    then have "file_at g (sha_path svc) = file_at u (sha_path svc)"
      using write_text_frame(1) [OF 2(2)] by metis
    with d have sha: "read_active_sha svc g = read_active_sha svc u"
      by (simp add: read_active_sha_def read_text_def)
    from write_cases [OF 2(2)]
    consider "g = put_file ?p (color_str c @ [newline]) u" "\<not> denied u ?p" | "g = u" | "g = put_file ?p [] u"
      by blast
    then have "color_of svc g \<in> {color_of svc u, c}"
    proof cases
      case 1
      then have "read_active svc g = Inr c" by (intro read_active_file) simp_all
      then show ?thesis by (simp add: color_of_def)
    next
      case 3
      have "color_of svc g = Blue"
      proof (cases "denied g ?p")
        case True
        then show ?thesis
          by (simp add: color_of_def read_active_def read_text_def Let_def)
      next
        case False
        with 3 have "read_active svc g = Inr Blue" by (intro read_active_empty) simp_all
        then show ?thesis by (simp add: color_of_def)
      qed
      with assms(3) vc show ?thesis by (cases "color_of svc f") (simp_all add: flip_def)
    qed simp
    with vc vs sha show ?thesis by simp
  qed
  moreover have "color_of svc g = c" if "r = Inr ()"
    using write_active_read [of svc c f g] assms(2) that by (simp add: color_of_def)
  ultimately show "read_active_sha svc g = read_active_sha svc f" "r = Inr () \<longrightarrow> color_of svc g = c"
    "color_of svc g \<in> {color_of svc f, c}" by blast+
qed

lemma write_sha_view:
  assumes "service_ok svc" and "write_active_sha svc sha f = (r, g)"
  shows "color_of svc g = color_of svc f"
    and "r = Inr () \<longrightarrow> clean_sha sha \<longrightarrow> read_active_sha svc g = Some sha"
    and "r \<noteq> Inr () \<longrightarrow> read_active_sha svc g \<in> {read_active_sha svc f, None}"
proof -
  let ?p = "sha_path svc"
  from assms(2) consider e where "create_dir_all (parent_dir ?p) f = (Inl e, g)"
    | u where "create_dir_all (parent_dir ?p) f = (Inr (), u)" "write_text ?p (sha @ [newline]) u = (r, g)"
    by (auto simp: write_active_sha_def io_then_split Let_def)
  then have "color_of svc g = color_of svc f \<and>
      (r \<noteq> Inr () \<longrightarrow> read_active_sha svc g \<in> {read_active_sha svc f, None})"
  proof cases
    case 1
    have v: "state_view svc g = state_view svc f" by (rule mkdir_state_dir_view [OF assms(1) 1]) simp
    show ?thesis by (simp add: state_view_color [OF v] state_view_sha [OF v])
  next
    case 2
    have v: "state_view svc u = state_view svc f" by (rule mkdir_state_dir_view [OF assms(1) 2(1)]) simp
    have "state_path svc \<noteq> ?p" by (rule state_sha_path_neq [OF assms(1) assms(1)])
    then have "read_active svc g = read_active svc u"
      using write_text_frame [OF 2(2)] by (intro read_active_cong) simp_all
    then have "color_of svc g = color_of svc u" by (simp add: color_of_def)
    moreover have "r \<noteq> Inr () \<longrightarrow> g = u \<or> g = put_file ?p [] u"
      using write_cases [OF 2(2)] by auto
    then have "r \<noteq> Inr () \<longrightarrow> read_active_sha svc g \<in> {read_active_sha svc u, None}"
      by (auto simp: read_active_sha_def trim_def trim_start_def trim_end_def split: if_splits)
    ultimately show ?thesis by (simp add: state_view_color [OF v] state_view_sha [OF v])
  qed
  then show "color_of svc g = color_of svc f"
    and "r \<noteq> Inr () \<longrightarrow> read_active_sha svc g \<in> {read_active_sha svc f, None}" by blast+
  show "r = Inr () \<longrightarrow> clean_sha sha \<longrightarrow> read_active_sha svc g = Some sha"
    using write_active_sha_read [of svc sha f g] assms(2) by blast
qed

lemma running_flag_up:
  assumes "docker_laws K up" and "container_running K n w = (Inr True, t)"
  shows "up (w_ext w) n"
proof -
  have "running_flag (fst (pf_inspect K n (w_ext w)))"
    using assms(2) by (auto simp: container_running_def io_bind_def dk_call_def io_return_def split: prod.splits)
  then show ?thesis by (rule laws_running [OF assms(1)])
qed

lemma read_fs_run: "read_fs g w = (r, t) \<longleftrightarrow> r = g (w_fs w) \<and> t = w"
  by (auto simp: read_fs_def)

lemma on_fs_run:
  "on_fs m w = (r, t) \<Longrightarrow> m (w_fs w) = (r, w_fs t) \<and> w_ext t = w_ext w"
  by (auto simp: on_fs_def split: prod.splits)

lemma real_deps_host:
  assumes "docker_laws K up" and "service_ok svc"
  shows "deploy_host (real_deps K) svc (\<lambda>w. up (w_ext w)) (\<lambda>w. color_of svc (w_fs w))
    (\<lambda>w. read_active_sha svc (w_fs w))"
proof (unfold_locales, unfold real_ops)
  note l = assms(1) and ok = assms(2)
  show "quiet (\<lambda>w. (up (w_ext w), color_of svc (w_fs w), read_active_sha svc (w_fs w))) (preflight_run K)"
    by (rule still_quiet [OF still_preflight [OF l]])
  show "quiet (\<lambda>w. (up (w_ext w), color_of svc (w_fs w), read_active_sha svc (w_fs w))) (ensure_network K n)" for n
    by (rule still_quiet [OF still_ensure_network [OF l]])
  show "quiet (\<lambda>w. (up (w_ext w), color_of svc (w_fs w), read_active_sha svc (w_fs w))) (read_fs (read_active svc))"
    by (rule still_quiet [OF still_basic(5)])
  show "quiet (\<lambda>w. (up (w_ext w), color_of svc (w_fs w), read_active_sha svc (w_fs w))) (check_deploy K def sha c)"
    for def sha c by (rule still_quiet [OF still_validate [OF l]])
  show "quiet (\<lambda>w. (up (w_ext w), color_of svc (w_fs w), read_active_sha svc (w_fs w))) (apply_all K)"
    by (rule still_quiet [OF still_apply_all [OF l ok]])
  show "quiet (\<lambda>w. (up (w_ext w), color_of svc (w_fs w), read_active_sha svc (w_fs w))) (prune K svc)"
    by (rule still_quiet [OF still_prune [OF l]])
  show "quiet (\<lambda>w. (up (w_ext w), color_of svc (w_fs w), read_active_sha svc (w_fs w))) ensure_nginx_config"
    by (rule still_quiet [OF still_ensure_nginx [OF ok]])
  show "quiet (\<lambda>w. (up (w_ext w), color_of svc (w_fs w), read_active_sha svc (w_fs w))) (container_running K n)" for n
    by (rule still_quiet [OF still_running [OF l]])
  show "c = color_of svc (w_fs s)" if "read_fs (read_active svc) s = (Inr c, t)" for s c t
    using that by (simp add: read_fs_run color_of_def) (metis sum.case(2))
  show "up (w_ext s) n" if "container_running K n s = (Inr True, t)" for n s t
    by (rule running_flag_up [OF l that])
  show "local_to (\<lambda>w. up (w_ext w)) (\<lambda>w. (color_of svc (w_fs w), read_active_sha svc (w_fs w)))
      (container_name svc c) (start_container K def sha c)" if "sd_service def = svc" for def c sha
    using touches_local [OF touches_start [OF l, of svc def c sha]] that by simp
  show "local_to (\<lambda>w. up (w_ext w)) (\<lambda>w. (color_of svc (w_fs w), read_active_sha svc (w_fs w)))
      (container_name svc c) (run_health_check K def c)" if "sd_service def = svc" for def c
    using touches_local [OF touches_health [OF l, of svc def c]] that by simp
  show "local_to (\<lambda>w. up (w_ext w)) (\<lambda>w. (color_of svc (w_fs w), read_active_sha svc (w_fs w)))
      n (remove_container_if_exists K n)" for n
    by (rule touches_local [OF touches_remove [OF l]])
  show "local_to (\<lambda>w. up (w_ext w)) (\<lambda>w. (color_of svc (w_fs w), read_active_sha svc (w_fs w)))
      n (stop_container K n)" for n
    by (rule touches_local [OF touches_stop [OF l]])
  show "up (w_ext t) = up (w_ext s) \<and> read_active_sha svc (w_fs t) = read_active_sha svc (w_fs s) \<and>
      (r = Inr () \<longrightarrow> color_of svc (w_fs t) = c) \<and> color_of svc (w_fs t) \<in> {color_of svc (w_fs s), c}"
    if "on_fs (write_active svc c) s = (r, t)" "c = flip (color_of svc (w_fs s))" for c s r t
    using on_fs_run [OF that(1)] write_active_view [OF ok _ that(2)] by metis
  show "up (w_ext t) = up (w_ext s) \<and> color_of svc (w_fs t) = color_of svc (w_fs s) \<and>
      (r = Inr () \<longrightarrow> clean_sha sha \<longrightarrow> read_active_sha svc (w_fs t) = Some sha) \<and>
      (r \<noteq> Inr () \<longrightarrow> read_active_sha svc (w_fs t) \<in> {read_active_sha svc (w_fs s), None})"
    if "on_fs (write_active_sha svc sha) s = (r, t)" for sha s r t
    using on_fs_run [OF that] write_sha_view [OF ok] by metis
qed simp

end
