(* ===== verification/Deploy_Entry.thy ===== *)
theory Deploy_Entry
  imports Deploy_Contract
begin

text \<open>
  The entry points of \<^verbatim>\<open>deploy.rs\<close>: the cutover planner, \<^verbatim>\<open>run\<close>, \<^verbatim>\<open>run_start_inactive\<close>,
  \<^verbatim>\<open>run_cutover\<close>, \<^verbatim>\<open>run_cancel_inactive\<close> and \<^verbatim>\<open>recreate_active_container\<close>, and what they guarantee on
  a host whose Docker engine keeps its laws.
\<close>

section \<open>Planning\<close>

datatype cutover_plan =
    Promote string bool          \<comment> \<open>tag, already staged\<close>
  | NothingNewer string string   \<comment> \<open>active and newest tag\<close>
  | NoLocalImages
  | StalePreview string

definition plan_cutover ::
  "string option \<Rightarrow> string option \<Rightarrow> bool \<Rightarrow> local_image option \<Rightarrow> string \<Rightarrow> cutover_plan" where
  "plan_cutover sha_opt preview preview_staged newest_local active_image_tag =
     (case sha_opt of
        Some sha \<Rightarrow> Promote sha False
      | None \<Rightarrow>
          (case preview of
             Some p \<Rightarrow> if preview_staged then Promote p True else StalePreview p
           | None \<Rightarrow>
               (case newest_local of
                  None \<Rightarrow> NoLocalImages
                | Some newest \<Rightarrow>
                    if li_tag newest = active_image_tag
                    then NothingNewer active_image_tag (li_tag newest)
                    else Promote (li_sha newest) False)))"

section \<open>Entry points\<close>

definition container_image_tag :: "'e platform \<Rightarrow> string \<Rightarrow> ('e world, string option) io" where
  "container_image_tag K name =
     io_bind (dk_call (pf_inspect K name)) (\<lambda>r.
       io_return (case r of Inl _ \<Rightarrow> None | Inr i \<Rightarrow> ci_image i))"

definition container_runs_image ::
  "'e platform \<Rightarrow> service_def \<Rightarrow> color \<Rightarrow> string \<Rightarrow> ('e world, bool) io" where
  "container_runs_image K def c sha =
     io_bind (dk_call (pf_inspect K (container_name (sd_service def) c))) (\<lambda>r.
       io_return (case r of
         Inl _ \<Rightarrow> False
       | Inr i \<Rightarrow> running_flag (Inr i) \<and>
           (case ci_image i of Some img \<Rightarrow> img | None \<Rightarrow> []) = sd_image_ref def sha))"

definition load_service :: "'e platform \<Rightarrow> string \<Rightarrow> ('e world, service_def) io" where
  "load_service K service = read_fs (\<lambda>f. load_def (pf_yaml_service K) f service)"

definition deploy_run :: "'e platform \<Rightarrow> string \<Rightarrow> string \<Rightarrow> ('e world, unit) io" where
  "deploy_run K service sha =
     io_bind (load_service K service) (\<lambda>def.
       io_then (docker_connect K) (deploy_service (real_deps K) def sha))"

definition run_start_inactive :: "'e platform \<Rightarrow> string \<Rightarrow> string \<Rightarrow> ('e world, color) io" where
  "run_start_inactive K service sha =
     io_bind (load_service K service) (\<lambda>def.
     io_then (docker_connect K)
    (io_then (dd_preflight (real_deps K))
    (io_then (dd_ensure_network (real_deps K) (sd_network def))
    (io_bind (dd_read_active (real_deps K) (sd_service def)) (\<lambda>active.
       io_then (start_inactive (real_deps K) def sha (flip active)) (io_return (flip active)))))))"

definition execute_plan ::
  "'e platform \<Rightarrow> service_def \<Rightarrow> string \<Rightarrow> color \<Rightarrow> cutover_plan \<Rightarrow> ('e world, unit) io" where
  "execute_plan K def service active plan =
     (let D = real_deps K; inactive = flip active
      in case plan of
           Promote sha staged \<Rightarrow>
             if staged then cutover D def sha active inactive
             else io_bind (container_runs_image K def inactive sha) (\<lambda>already_up.
                    io_then (io_when (\<not> already_up) (start_inactive D def sha inactive))
                      (cutover D def sha active inactive))
         | NothingNewer _ _ \<Rightarrow> io_return ()
         | NoLocalImages \<Rightarrow> io_fail (NoLocalImagesFor service)
         | StalePreview sha \<Rightarrow> io_fail (StalePreviewFor service sha))"

definition run_cutover ::
  "'e platform \<Rightarrow> string \<Rightarrow> string option \<Rightarrow> string option \<Rightarrow> ('e world, unit) io" where
  "run_cutover K service sha_opt preview =
     io_bind (load_service K service) (\<lambda>def.
     io_then (docker_connect K)
    (io_bind (dd_read_active (real_deps K) (sd_service def)) (\<lambda>active.
     io_bind (case preview of
                Some p \<Rightarrow> container_runs_image K def (flip active) p
              | None \<Rightarrow> io_return False) (\<lambda>preview_staged.
     io_bind (list_local K (sd_service def)) (\<lambda>images.
     io_bind (container_image_tag K (container_name (sd_service def) active)) (\<lambda>active_image.
       execute_plan K def service active
         (plan_cutover sha_opt preview preview_staged
            (case images of [] \<Rightarrow> None | i # _ \<Rightarrow> Some i)
            (case active_image of Some t \<Rightarrow> t | None \<Rightarrow> []))))))))"

definition run_cancel_inactive :: "'e platform \<Rightarrow> string \<Rightarrow> ('e world, unit) io" where
  "run_cancel_inactive K service =
     io_bind (load_service K service) (\<lambda>def.
     io_then (docker_connect K)
    (io_bind (dd_read_active (real_deps K) (sd_service def)) (\<lambda>active.
       let container = container_name (sd_service def) (flip active)
       in io_then (dd_stop_container (real_deps K) container)
         (io_then (dd_remove_container (real_deps K) container)
         (dd_prune_images (real_deps K) (sd_service def))))))"

record recreate_info =
  ri_service :: string
  ri_color :: string
  ri_container :: string
  ri_sha :: string

definition recreate_active_container :: "'e platform \<Rightarrow> string \<Rightarrow> ('e world, recreate_info) io" where
  "recreate_active_container K service =
     io_bind (load_service K service) (\<lambda>def.
     io_bind (io_read (\<lambda>w. active_or_blue service (w_fs w))) (\<lambda>c.
     io_bind (io_read (\<lambda>w. read_active_sha service (w_fs w))) (\<lambda>recorded.
       case recorded of
         None \<Rightarrow> io_fail (NoActiveSha service)
       | Some sha \<Rightarrow>
           io_then (docker_connect K)
          (io_then (remove_container_if_exists K (container_name service c))
          (io_then (start_container K def sha c)
          (io_then (apply_all K)
          (io_return \<lparr>ri_service = service, ri_color = color_str c,
             ri_container = container_name service c, ri_sha = sha\<rparr>)))))))"

section \<open>Facts\<close>

definition real_serving :: "('e \<Rightarrow> string \<Rightarrow> bool) \<Rightarrow> string \<Rightarrow> 'e world \<Rightarrow> bool" where
  "real_serving up svc w \<longleftrightarrow> up (w_ext w) (container_name svc (color_of svc (w_fs w)))"

lemma load_service_run:
  "load_service K s w = (r, t) \<longleftrightarrow> r = load_def (pf_yaml_service K) (w_fs w) s \<and> t = w"
  by (auto simp: load_service_def read_fs_def)

lemma docker_connect_same: "docker_connect K w = (r, t) \<Longrightarrow> t = w"
  by (auto simp: docker_connect_def split: if_splits)

lemma deploy_run_cases:
  assumes "deploy_run K service sha w = (r, t)"
  shows "(t = w \<and> (\<exists>e. r = Inl e)) \<or>
    (\<exists>def. load_def (pf_yaml_service K) (w_fs w) service = Inr def \<and>
       deploy_service (real_deps K) def sha w = (r, t))"
proof (cases "load_def (pf_yaml_service K) (w_fs w) service")
  case (Inl e)
  with assms show ?thesis by (auto simp: deploy_run_def io_bind_def load_service_def read_fs_def)
next
  case (Inr d)
  then have "io_then (docker_connect K) (deploy_service (real_deps K) d sha) w = (r, t)"
    using assms by (simp add: deploy_run_def io_bind_def load_service_def read_fs_def)
  with Inr show ?thesis
    by (auto simp: io_then_split dest: docker_connect_same)
qed

lemma still_runs_image: "docker_laws K up \<Longrightarrow> still up svc (container_runs_image K def c sha)"
  unfolding container_runs_image_def by (intro still_bind still_basic still_ext laws_neutral)

lemma still_image_tag: "docker_laws K up \<Longrightarrow> still up svc (container_image_tag K n)"
  unfolding container_image_tag_def by (intro still_bind still_basic still_ext laws_neutral)

lemma still_list_local: "docker_laws K up \<Longrightarrow> still up svc (list_local K s)"
  unfolding list_local_def by (intro still_rules still_ext laws_neutral)

lemma en_docker_laws: "docker_laws en_platform en_up"
proof -
  have "neutral en_up (en_inspect n)" "neutral en_up (en_list_images p)" for n p
    by (simp_all add: neutral_def en_inspect_def en_list_images_def)
  moreover have "neutral en_up en_list_containers" "neutral en_up (en_spawn argv envs)" for argv envs
    by (simp_all add: neutral_def en_list_containers_def en_spawn_def)
  moreover have "running_flag (fst (en_inspect n e)) \<longrightarrow> en_up e n" for n e
    by (auto simp: en_inspect_def running_flag_def en_up_def split: option.splits)
  moreover have "spares en_up (Some (cc_name cfg)) (en_create cfg)" "spares en_up (Some n) (en_start n)"
    "spares en_up (Some n) (en_stop n)" for cfg n
    by (auto simp: spares_def en_up_def en_create_def en_start_def en_stop_def map_of_en_set
        split: option.splits prod.splits)
  moreover have "spares en_up (Some n) (en_remove n)" for n
    by (auto simp: spares_def en_up_def en_remove_def delete_conv' split: option.splits)
  moreover have "neutral en_up (\<lambda>e. (r, e))" for r :: "'a"
    by (simp add: neutral_def)
  moreover have "neutral en_up (\<lambda>e. (r, e\<lparr>en_images := g e\<rparr>))" for r :: "'b" and g
    by (simp add: neutral_def en_up_def fun_eq_iff)
  ultimately show ?thesis
    unfolding docker_laws_def en_platform_def platform.simps by (auto simp: neutral_def en_up_def fun_eq_iff)
qed

section \<open>Outages\<close>

text \<open>The locale's predicates on the production host.\<close>

abbreviation real_live ::
  "('e \<Rightarrow> string \<Rightarrow> bool) \<Rightarrow> string \<Rightarrow> bool \<Rightarrow> color \<Rightarrow> 'e world \<Rightarrow> bool" where
  "real_live up svc \<equiv> deploy_host.live svc (\<lambda>w. up (w_ext w)) (\<lambda>w. color_of svc (w_fs w))"

lemma real_live_def:
  assumes "docker_laws K up" and "service_ok svc"
  shows "real_live up svc x a w \<longleftrightarrow>
    (x \<longrightarrow> up (w_ext w) (container_name svc a)) \<and> color_of svc (w_fs w) = a"
  using deploy_host.live_def [OF real_deps_host [OF assms]] .

lemma real_serving_def':
  assumes "docker_laws K up" and "service_ok svc"
  shows "deploy_host.serving svc (\<lambda>w. up (w_ext w)) (\<lambda>w. color_of svc (w_fs w)) w \<longleftrightarrow> real_serving up svc w"
  using deploy_host.serving_def [OF real_deps_host [OF assms]] by (simp add: real_serving_def)

lemma real_still_live:
  assumes "docker_laws K up" and "service_ok svc" and "still up svc m"
  shows "io_keeps (real_live up svc x a) m"
  by (rule deploy_host.quiet_live [OF real_deps_host [OF assms(1,2)] still_quiet [OF assms(3)]])

lemma real_cutover_triple:
  assumes "docker_laws K up" and "service_ok svc" and "sd_service def = svc"
  shows "io_triple (real_live up svc x a) (cutover (real_deps K) def sha a (flip a))
    (\<lambda>_ w. x \<longrightarrow> real_serving up svc w) (\<lambda>w. x \<longrightarrow> real_serving up svc w)"
proof -
  note host = real_deps_host [OF assms(1,2)]
  note fin = deploy_host.finished_serving [OF host, of sha a _ x, unfolded real_serving_def' [OF assms(1,2)]]
  show ?thesis
    by (rule io_triple_weaken [OF deploy_host.cutover_triple [OF host assms(3), of x a sha,
          unfolded real_serving_def' [OF assms(1,2)]]]) (assumption | erule fin)+
qed

lemma real_live_serving:
  assumes "docker_laws K up" and "service_ok svc"
  shows "real_live up svc x a w \<Longrightarrow> x \<longrightarrow> real_serving up svc w"
  using deploy_host.live_serving [OF real_deps_host [OF assms]]
  unfolding real_serving_def' [OF assms] .

lemma execute_plan_triple:
  assumes "docker_laws K up" and "service_ok (sd_service def)"
  shows "io_triple (real_live up (sd_service def) x a) (execute_plan K def service a plan)
    (\<lambda>_ w. x \<longrightarrow> real_serving up (sd_service def) w) (\<lambda>w. x \<longrightarrow> real_serving up (sd_service def) w)"
proof -
  let ?P = "real_live up (sd_service def) x a" and ?E = "\<lambda>w. x \<longrightarrow> real_serving up (sd_service def) w"
  note host = real_deps_host [OF assms] and ls = real_live_serving [OF assms]
  note cut = real_cutover_triple [OF assms refl, of x a]
  have run: "io_triple ?P (container_runs_image K def (flip a) sha) (\<lambda>_. ?P) ?E" for sha
    by (rule deploy_host.keeps_triple_E [OF host real_still_live [OF assms still_runs_image [OF assms(1)]]])
      (rule ls)
  have start: "io_triple ?P (io_when b (start_inactive (real_deps K) def sha (flip a))) (\<lambda>_. ?P) ?E" for b sha
    by (rule deploy_host.keeps_triple_E [OF host io_keeps_when [OF deploy_host.start_inactive_live [OF host refl]]])
      (rule ls)
  have stop: "io_triple ?P (io_return ()) (\<lambda>_. ?E) ?E" "io_triple ?P (io_fail e) (\<lambda>_. ?E) ?E" for e
    using ls by (simp_all add: io_triple_def io_return_def io_fail_def)
  show ?thesis
  proof (cases plan)
    case (Promote sha staged)
    then show ?thesis
      unfolding execute_plan_def Let_def cutover_plan.case
      by (auto intro!: cut io_triple_bind [OF run] io_triple_then [OF start cut])
  qed (simp_all add: execute_plan_def stop)
qed

lemma triple_still:
  assumes "docker_laws K up" and "service_ok svc" and "still up svc m"
  shows "io_triple (real_live up svc x a) m (\<lambda>_. real_live up svc x a) (\<lambda>w. x \<longrightarrow> real_serving up svc w)"
  by (rule deploy_host.keeps_triple_E [OF real_deps_host [OF assms(1,2)] real_still_live [OF assms]])
    (rule real_live_serving [OF assms(1,2)])

lemma color_of_Inr: "read_active svc f = Inr c \<Longrightarrow> color_of svc f = c"
  by (simp add: color_of_def)

lemma triple_read_active:
  assumes "docker_laws K up" and "service_ok svc"
  shows "io_triple (real_live up svc x a) (dd_read_active (real_deps K) svc)
    (\<lambda>c w. real_live up svc x a w \<and> c = a) (\<lambda>w. x \<longrightarrow> real_serving up svc w)"
  unfolding real_ops io_triple_iff
  using real_live_serving [OF assms]
  by (auto simp: read_fs_run real_live_def [OF assms] dest: color_of_Inr [OF sym])

lemma triple_given_color:
  assumes "\<And>c. c = a \<Longrightarrow> io_triple P (f c) Q E"
  shows "io_triple (\<lambda>w. P w \<and> c = a) (f c) Q E"
  using assms by (cases "c = a") (auto simp: io_triple_def)

definition cutover_steps ::
  "'e platform \<Rightarrow> string \<Rightarrow> string option \<Rightarrow> string option \<Rightarrow> service_def \<Rightarrow> ('e world, unit) io" where
  "cutover_steps K service sha_opt preview def =
     io_bind (dd_read_active (real_deps K) (sd_service def)) (\<lambda>active.
     io_bind (case preview of
                Some p \<Rightarrow> container_runs_image K def (flip active) p
              | None \<Rightarrow> io_return False) (\<lambda>preview_staged.
     io_bind (list_local K (sd_service def)) (\<lambda>images.
     io_bind (container_image_tag K (container_name (sd_service def) active)) (\<lambda>active_image.
       execute_plan K def service active
         (plan_cutover sha_opt preview preview_staged
            (case images of [] \<Rightarrow> None | i # _ \<Rightarrow> Some i)
            (case active_image of Some t \<Rightarrow> t | None \<Rightarrow> []))))))"

lemma cutover_steps_triple:
  assumes "docker_laws K up" and "service_ok (sd_service def)"
  shows "io_triple (real_live up (sd_service def) x a) (cutover_steps K service sha_opt preview def)
    (\<lambda>_ w. x \<longrightarrow> real_serving up (sd_service def) w) (\<lambda>w. x \<longrightarrow> real_serving up (sd_service def) w)"
proof -
  note st = triple_still [OF assms]
  have pre: "still up (sd_service def)
      (case preview of Some p \<Rightarrow> container_runs_image K def c p | None \<Rightarrow> io_return False)" for c
    using still_runs_image [OF assms(1)] still_basic(1) by (cases preview) simp_all
  show ?thesis
    unfolding cutover_steps_def
    by (intro io_triple_bind [OF triple_read_active [OF assms]] triple_given_color
        io_triple_bind [OF st [OF pre]] io_triple_bind [OF st [OF still_list_local [OF assms(1)]]]
        io_triple_bind [OF st [OF still_image_tag [OF assms(1)]]])
      (simp add: execute_plan_triple [OF assms])
qed

lemma run_cutover_alt:
  "run_cutover K service sha_opt preview =
     io_bind (load_service K service) (\<lambda>def.
       io_then (docker_connect K) (cutover_steps K service sha_opt preview def))"
  unfolding run_cutover_def cutover_steps_def ..

lemma loaded_run:
  assumes "io_bind (load_service K service) (\<lambda>def. io_then (docker_connect K) (f def)) w = (r, t)"
    and "load_def (pf_yaml_service K) (w_fs w) service = Inr def"
  shows "(t = w \<and> (\<exists>e. r = Inl e)) \<or> f def w = (r, t)"
proof -
  have "io_then (docker_connect K) (f def) w = (r, t)"
    using assms by (simp add: io_bind_def load_service_def read_fs_def)
  then show ?thesis by (auto simp: io_then_split dest: docker_connect_same)
qed

text \<open>An operation that only touches the container of the color that is not recorded.\<close>

lemma inactive_only:
  assumes "io_triple (real_live up svc x a) m (\<lambda>_. real_live up svc x a) (real_live up svc x a)"
    and "real_live up svc x a w" and "m w = (r, t)"
  shows "real_live up svc x a t"
  using io_tripleD [OF assms(1,2)] assms(3) by (cases r) blast+

definition cancel_steps :: "'e platform \<Rightarrow> service_def \<Rightarrow> ('e world, unit) io" where
  "cancel_steps K def =
     io_bind (dd_read_active (real_deps K) (sd_service def)) (\<lambda>active.
       let container = container_name (sd_service def) (flip active)
       in io_then (dd_stop_container (real_deps K) container)
         (io_then (dd_remove_container (real_deps K) container)
         (dd_prune_images (real_deps K) (sd_service def))))"

lemma keeps_both: "io_keeps P m \<Longrightarrow> io_triple P m (\<lambda>_. P) P"
  by (simp add: io_keeps_iff_triple)

lemma triple_read_active_keep:
  assumes "docker_laws K up" and "service_ok svc"
  shows "io_triple (real_live up svc x a) (dd_read_active (real_deps K) svc)
    (\<lambda>c w. real_live up svc x a w \<and> c = a) (real_live up svc x a)"
  unfolding real_ops io_triple_iff
  by (auto simp: read_fs_run real_live_def [OF assms] dest: color_of_Inr [OF sym])

lemma cancel_steps_triple:
  assumes "docker_laws K up" and "service_ok (sd_service def)"
  shows "io_triple (real_live up (sd_service def) x a) (cancel_steps K def)
    (\<lambda>_. real_live up (sd_service def) x a) (real_live up (sd_service def) x a)"
proof -
  note host = real_deps_host [OF assms]
  have "io_keeps (real_live up (sd_service def) x a)
      (io_then (dd_stop_container (real_deps K) (container_name (sd_service def) (flip a)))
        (io_then (dd_remove_container (real_deps K) (container_name (sd_service def) (flip a)))
        (dd_prune_images (real_deps K) (sd_service def))))"
    by (intro io_keeps_then deploy_host.local_live [OF host] deploy_host.stop_local [OF host]
        deploy_host.remove_local [OF host] deploy_host.quiet_live [OF host]
        deploy_host.quiet_prune [OF host])
  then show ?thesis
    unfolding cancel_steps_def Let_def
    by (intro io_triple_bind [OF triple_read_active_keep [OF assms]] triple_given_color)
      (simp add: keeps_both)
qed

definition preview_steps :: "'e platform \<Rightarrow> string \<Rightarrow> service_def \<Rightarrow> ('e world, color) io" where
  "preview_steps K sha def =
     io_then (dd_preflight (real_deps K))
    (io_then (dd_ensure_network (real_deps K) (sd_network def))
    (io_bind (dd_read_active (real_deps K) (sd_service def)) (\<lambda>active.
       io_then (start_inactive (real_deps K) def sha (flip active)) (io_return (flip active)))))"

lemma preview_steps_triple:
  assumes "docker_laws K up" and "service_ok (sd_service def)"
  shows "io_triple (real_live up (sd_service def) x a) (preview_steps K sha def)
    (\<lambda>_. real_live up (sd_service def) x a) (real_live up (sd_service def) x a)"
proof -
  note host = real_deps_host [OF assms]
  have "io_keeps (real_live up (sd_service def) x a)
      (io_then (start_inactive (real_deps K) def sha (flip a)) (io_return (flip a)))"
    by (intro io_keeps_then deploy_host.start_inactive_live [OF host refl] io_keeps_basic)
  then have body: "io_triple (real_live up (sd_service def) x a)
      (io_then (start_inactive (real_deps K) def sha (flip a)) (io_return (flip a)))
      (\<lambda>_. real_live up (sd_service def) x a) (real_live up (sd_service def) x a)"
    by (rule keeps_both)
  show ?thesis
    unfolding preview_steps_def
    by (intro io_triple_then [OF keeps_both [OF deploy_host.quiet_live [OF host deploy_host.quiet_preflight [OF host]]]]
        io_triple_then [OF keeps_both [OF deploy_host.quiet_live [OF host deploy_host.quiet_network [OF host]]]]
        io_triple_bind [OF triple_read_active_keep [OF assms]] triple_given_color)
      (simp add: body)
qed

lemma deploy_run_success_lemma:
  assumes "docker_laws K up" and "deploy_run K service sha w = (Inr (), t)"
    and "load_def (pf_yaml_service K) (w_fs w) service = Inr def" and "service_ok (sd_service def)"
    and "clean_sha sha"
  shows "real_serving up (sd_service def) t \<and> read_active_sha (sd_service def) (w_fs t) = Some sha"
proof -
  have d: "deploy_service (real_deps K) def sha w = (Inr (), t)"
    using deploy_run_cases [OF assms(2)] assms(3) by auto
  show ?thesis
    using deploy_host.success [OF real_deps_host [OF assms(1,4)] refl d assms(5)]
    unfolding real_serving_def' [OF assms(1,4)] .
qed

section \<open>Correctness\<close>

text \<open>
  \<^verbatim>\<open>deploy::run\<close> never causes an outage: if the container of the recorded color is running when it
  starts, the container of the color recorded afterwards is running when it returns, on success and
  on every error, including a state file that could only be truncated and a failed Caddy reload.
\<close>

theorem deploy_run_no_outage:
  assumes "docker_laws K up" and "deploy_run K service sha w = (r, t)"
    and "load_def (pf_yaml_service K) (w_fs w) service = Inr def" and "service_ok (sd_service def)"
    and "real_serving up (sd_service def) w"
  shows "real_serving up (sd_service def) t"
proof -
  from deploy_run_cases [OF assms(2)] consider "t = w"
    | "deploy_service (real_deps K) def sha w = (r, t)" using assms(3) by auto
  then show ?thesis
  proof cases
    case 2
    show ?thesis
      using deploy_host.no_outage [OF real_deps_host [OF assms(1,4)] refl _ 2] assms(5)
      unfolding real_serving_def' [OF assms(1,4)] by blast
  qed (use assms(5) in simp)
qed

lemma en_load: "load_def (pf_yaml_service en_platform) (w_fs en_world) ''paseo'' = Inr paseo_def"
  by code_simp

lemma en_serving: "real_serving en_up ''paseo'' en_world"
  unfolding real_serving_def color_of_def by code_simp

lemma paseo_ok: "service_ok (sd_service paseo_def)" "sd_service paseo_def = ''paseo''"
  by (simp_all add: service_ok_def paseo_def_def)

lemma deploy_run_no_outage_witness:
  "\<exists>r t. deploy_run en_platform ''paseo'' ''new'' en_world = (r, t) \<and> real_serving en_up ''paseo'' t"
proof -
  obtain r t where d: "deploy_run en_platform ''paseo'' ''new'' en_world = (r, t)" by force
  have "real_serving en_up (sd_service paseo_def) en_world" using en_serving by (simp add: paseo_ok)
  from deploy_run_no_outage [OF en_docker_laws d en_load paseo_ok(1) this] d show ?thesis
    by (auto simp: paseo_ok)
qed

text \<open>
  C8: When \<^verbatim>\<open>deploy::run\<close> succeeds, the requested tag is the recorded one and the container of the
  recorded color is running, whatever the state of the host was before.
\<close>

theorem deploy_run_success:
  assumes "docker_laws K up" and "deploy_run K service sha w = (Inr (), t)"
    and "load_def (pf_yaml_service K) (w_fs w) service = Inr def" and "service_ok (sd_service def)"
    and "clean_sha sha"
  shows "real_serving up (sd_service def) t \<and> read_active_sha (sd_service def) (w_fs t) = Some sha"
  by (rule deploy_run_success_lemma [OF assms])

lemma en_deploy_ok: "fst (deploy_run en_platform ''paseo'' ''new'' en_world) = Inr ()"
  by code_simp

lemma deploy_run_success_witness:
  "\<exists>t. deploy_run en_platform ''paseo'' ''new'' en_world = (Inr (), t) \<and>
     real_serving en_up ''paseo'' t \<and> read_active_sha ''paseo'' (w_fs t) = Some ''new''"
proof -
  obtain t where d: "deploy_run en_platform ''paseo'' ''new'' en_world = (Inr (), t)"
    using en_deploy_ok by (metis prod.collapse)
  have "clean_sha ''new''" by (simp add: clean_sha_def is_space_def)
  from deploy_run_success [OF en_docker_laws d en_load paseo_ok(1) this] d show ?thesis
    by (auto simp: paseo_ok)
qed

text \<open>
  Promoting with \<^verbatim>\<open>cutover\<close> never causes an outage either, whichever tag the planner picks and
  whether or not the inactive container was staged before: a stale preview, a missing image or a
  replacement that is not running ends it with the old container still serving.
\<close>

theorem run_cutover_no_outage:
  assumes "docker_laws K up" and "run_cutover K service sha_opt preview w = (r, t)"
    and "load_def (pf_yaml_service K) (w_fs w) service = Inr def" and "service_ok (sd_service def)"
    and "real_serving up (sd_service def) w"
  shows "real_serving up (sd_service def) t"
  using loaded_run [OF assms(2) [unfolded run_cutover_alt] assms(3)]
proof
  assume run: "cutover_steps K service sha_opt preview def w = (r, t)"
  have "real_live up (sd_service def) True (color_of (sd_service def) (w_fs w)) w"
    using assms(5) by (simp add: real_live_def [OF assms(1,4)] real_serving_def)
  from io_tripleD [OF cutover_steps_triple [OF assms(1,4)] this] run show ?thesis
    by (cases r) blast+
qed (use assms(5) in simp)

lemma run_cutover_no_outage_witness:
  "\<exists>r t. run_cutover en_platform ''paseo'' None None en_world = (r, t) \<and> real_serving en_up ''paseo'' t"
proof -
  obtain r t where d: "run_cutover en_platform ''paseo'' None None en_world = (r, t)" by force
  have "real_serving en_up (sd_service paseo_def) en_world" using en_serving by (simp add: paseo_ok)
  from run_cutover_no_outage [OF en_docker_laws d en_load paseo_ok(1) this] d show ?thesis
    by (auto simp: paseo_ok)
qed

text \<open>
  Staging and cancelling a preview leave production alone: the recorded color does not change,
  and its container, if it was running, still runs, on every branch.
\<close>

theorem preview_leaves_production:
  assumes "docker_laws K up" and "load_def (pf_yaml_service K) (w_fs w) service = Inr def"
    and "service_ok (sd_service def)"
    and "(\<exists>r. run_start_inactive K service sha w = (r, t)) \<or> (\<exists>r. run_cancel_inactive K service w = (r, t))"
  shows "color_of (sd_service def) (w_fs t) = color_of (sd_service def) (w_fs w) \<and>
    (real_serving up (sd_service def) w \<longrightarrow> real_serving up (sd_service def) t)"
proof -
  let ?a = "color_of (sd_service def) (w_fs w)" and ?x = "real_serving up (sd_service def) w"
  have live: "real_live up (sd_service def) ?x ?a w"
    by (simp add: real_live_def [OF assms(1,3)] real_serving_def)
  from assms(4) consider "t = w" | r where "preview_steps K sha def w = (r, t)"
    | r where "cancel_steps K def w = (r, t)"
    using loaded_run [OF _ assms(2), of "preview_steps K sha"] loaded_run [OF _ assms(2), of "cancel_steps K"]
    unfolding run_start_inactive_def run_cancel_inactive_def preview_steps_def [symmetric]
      cancel_steps_def [symmetric] by blast
  then have "real_live up (sd_service def) ?x ?a t"
    using live inactive_only [OF preview_steps_triple [OF assms(1,3)] live]
      inactive_only [OF cancel_steps_triple [OF assms(1,3)] live] by cases metis+
  then show ?thesis by (auto simp: real_live_def [OF assms(1,3)] real_serving_def)
qed

lemma preview_leaves_production_witness:
  "\<exists>r t. run_start_inactive en_platform ''paseo'' ''new'' en_world = (r, t) \<and>
     real_serving en_up ''paseo'' t"
proof -
  obtain r t where d: "run_start_inactive en_platform ''paseo'' ''new'' en_world = (r, t)" by force
  have "real_serving en_up (sd_service paseo_def) en_world" using en_serving by (simp add: paseo_ok)
  with preview_leaves_production [OF en_docker_laws en_load paseo_ok(1), of "''new''" t] d show ?thesis
    by (auto simp: paseo_ok)
qed

text \<open>
  Recreating the active container removes it before anything about its replacement is checked:
  when the environment file, the tailnet address or a bind path is missing, the call fails and the
  running container is gone.
\<close>

theorem recreate_removes_before_checks:
  assumes "load_def (pf_yaml_service K) (w_fs w) service = Inr def"
    and "read_active_sha service (w_fs w) = Some sha" and "pf_connect K (w_ext w)"
    and "pf_remove K (container_name service (active_or_blue service (w_fs w))) (w_ext w) = (Inr (), e)"
    and "prepare_container def sha (active_or_blue service (w_fs w)) (w_fs w) = Inl err"
  shows "recreate_active_container K service w = (Inl err, w\<lparr>w_ext := e\<rparr>)"
  using assms
  by (simp add: recreate_active_container_def io_bind_def io_then_def io_read_def load_service_def
      read_fs_def docker_connect_def remove_container_if_exists_def dk_call_def io_return_def
      start_container_def Let_def)

definition en_world_no_env :: "engine world" where
  "en_world_no_env = en_world\<lparr>w_fs :=
     put_file (sha_path ''paseo'') (''old'' @ [newline]) (en_fs\<lparr>files := [(SERVICES_DIR @ ''/paseo.yml'', ''paseo'')]\<rparr>)\<rparr>"

lemma recreate_removes_before_checks_witness:
  "\<exists>err t. recreate_active_container en_platform ''paseo'' en_world_no_env = (Inl err, t) \<and>
     \<not> en_up (w_ext t) ''codery-paseo-blue''"
proof -
  let ?e = "en_remove ''codery-paseo-blue'' (w_ext en_world_no_env)"
  have h: "load_def (pf_yaml_service en_platform) (w_fs en_world_no_env) ''paseo'' = Inr paseo_def"
    "read_active_sha ''paseo'' (w_fs en_world_no_env) = Some ''old''"
    "pf_connect en_platform (w_ext en_world_no_env)"
    "active_or_blue ''paseo'' (w_fs en_world_no_env) = Blue"
    "fst ?e = Inr ()" "\<not> en_up (snd ?e) ''codery-paseo-blue''"
    by code_simp+
  have p: "prepare_container paseo_def ''old'' Blue (w_fs en_world_no_env) = Inl (IoError ENV_FILE)"
    by code_simp
  have r: "pf_remove en_platform (container_name ''paseo'' Blue) (w_ext en_world_no_env) = (Inr (), snd ?e)"
    using h(5) by (simp add: en_platform_def container_name_def color_str_def prod_eq_iff)
  from recreate_removes_before_checks [OF h(1,2,3), of "snd ?e" "IoError ENV_FILE"] h(4,6) r p
  show ?thesis by simp
qed

end
