(* ===== verification/Deploy_Mock.thy ===== *)
theory Deploy_Mock
  imports Deploy
begin

text \<open>
  The \<^verbatim>\<open>MockDeps\<close> host of the unit tests of \<^verbatim>\<open>deploy.rs\<close>: a log of calls, the recorded color and tag,
  the three outcome switches and the set of running containers. It satisfies the contract of a
  deploy host, and the scenarios of the tests are evaluated on it.
\<close>

record mock =
  mk_events :: "string list"
  mk_color :: color
  mk_sha :: "string option"
  mk_health_ok :: bool
  mk_validate_ok :: bool
  mk_preflight_ok :: bool
  mk_running :: "string list"

definition mock_new :: mock where
  "mock_new =
     \<lparr>mk_events = [], mk_color = Blue, mk_sha = None, mk_health_ok = True, mk_validate_ok = True,
      mk_preflight_ok = True, mk_running = [''codery-paseo-blue'']\<rparr>"

definition mock_kill :: "string \<Rightarrow> mock \<Rightarrow> mock" where
  "mock_kill n s = s\<lparr>mk_running := filter (\<lambda>m. m \<noteq> n) (mk_running s)\<rparr>"

definition mock_revive :: "string \<Rightarrow> mock \<Rightarrow> mock" where
  "mock_revive n s = s\<lparr>mk_running := List.insert n (mk_running s)\<rparr>"

definition mock_log :: "string \<Rightarrow> mock \<Rightarrow> mock" where
  "mock_log ev s = s\<lparr>mk_events := mk_events s @ [ev]\<rparr>"

definition mock_preflight :: "(mock, unit) io" where
  "mock_preflight s =
     (if mk_preflight_ok s then Inr () else Inl (PreflightFailed ''mock preflight failed''),
      mock_log ''preflight'' s)"

definition mock_write_active :: "string \<Rightarrow> color \<Rightarrow> (mock, unit) io" where
  "mock_write_active service c s =
     (Inr (), (mock_log (''write_active:'' @ service @ ''='' @ color_str c) s)\<lparr>mk_color := c\<rparr>)"

definition mock_write_active_sha :: "string \<Rightarrow> string \<Rightarrow> (mock, unit) io" where
  "mock_write_active_sha service sha s =
     (Inr (), (mock_log (''write_active_sha:'' @ service @ ''='' @ sha) s)\<lparr>mk_sha := Some sha\<rparr>)"

definition mock_apply_caddy :: "(mock, unit) io" where
  "mock_apply_caddy s = (Inr (), mock_log ''apply_caddy'' s)"

definition mock_ensure_network :: "string \<Rightarrow> (mock, unit) io" where
  "mock_ensure_network network s = (Inr (), mock_log (''ensure_network:'' @ network) s)"

definition mock_validate :: "service_def \<Rightarrow> string \<Rightarrow> color \<Rightarrow> (mock, unit) io" where
  "mock_validate def sha inactive s =
     (if mk_validate_ok s then Inr () else Inl (ValidationFailed []), mock_log ''validate'' s)"

definition mock_start_container :: "service_def \<Rightarrow> string \<Rightarrow> color \<Rightarrow> (mock, unit) io" where
  "mock_start_container def sha c s =
     (let name = container_name (sd_service def) c
      in (Inr (), mock_revive name (mock_log (''start_container:'' @ name) s)))"

definition mock_remove_container :: "string \<Rightarrow> (mock, unit) io" where
  "mock_remove_container name s = (Inr (), mock_kill name (mock_log (''remove_container:'' @ name) s))"

definition mock_stop_container :: "string \<Rightarrow> (mock, unit) io" where
  "mock_stop_container name s = (Inr (), mock_kill name (mock_log (''stop_container:'' @ name) s))"

definition mock_health_check :: "service_def \<Rightarrow> color \<Rightarrow> (mock, unit) io" where
  "mock_health_check def c s =
     (let container = container_name (sd_service def) c;
          s' = mock_log (''health_check:'' @ container) s
      in if mk_health_ok s then (Inr (), s')
         else (Inl (HealthTimeout container), mock_kill container (mock_log (''remove_container:'' @ container) s')))"

definition mock_prune_images :: "string \<Rightarrow> (mock, unit) io" where
  "mock_prune_images service s = (Inr (), mock_log (''prune_images:'' @ service) s)"

definition mock_deps :: "mock deploy_deps" where
  "mock_deps =
     \<lparr>dd_preflight = mock_preflight,
      dd_read_active = (\<lambda>_ s. (Inr (mk_color s), s)),
      dd_read_active_sha = (\<lambda>_ s. mk_sha s),
      dd_write_active = mock_write_active,
      dd_write_active_sha = mock_write_active_sha,
      dd_apply_caddy = mock_apply_caddy,
      dd_ensure_network = mock_ensure_network,
      dd_validate = mock_validate,
      dd_start_container = mock_start_container,
      dd_remove_container = mock_remove_container,
      dd_stop_container = mock_stop_container,
      dd_health_check = mock_health_check,
      dd_prune_images = mock_prune_images,
      dd_ensure_nginx_config = (\<lambda>s. (Inr (), s)),
      dd_container_running = (\<lambda>n s. (Inr (n \<in> set (mk_running s)), s))\<rparr>"

definition mock_up :: "mock \<Rightarrow> string \<Rightarrow> bool" where
  "mock_up s n \<longleftrightarrow> n \<in> set (mk_running s)"

lemmas mock_op_defs = mock_preflight_def mock_write_active_def mock_write_active_sha_def
  mock_apply_caddy_def mock_ensure_network_def mock_validate_def mock_start_container_def
  mock_remove_container_def mock_stop_container_def mock_health_check_def mock_prune_images_def
  mock_log_def mock_kill_def mock_revive_def

interpretation mock: deploy_host mock_deps svc mock_up mk_color mk_sha for svc
  by unfold_locales
    (auto simp: quiet_def local_to_def mock_deps_def mock_op_defs mock_up_def fun_eq_iff Let_def)

text \<open>The scenarios of the unit tests, by evaluation.\<close>

lemma mock_happy_path:
  "mk_events (snd (deploy_service mock_deps paseo_def ''abc'' mock_new)) =
     [''preflight'', ''ensure_network:codery-net'', ''validate'', ''remove_container:codery-paseo-green'',
      ''start_container:codery-paseo-green'', ''health_check:codery-paseo-green'',
      ''write_active:paseo=green'', ''write_active_sha:paseo=abc'', ''apply_caddy'',
      ''stop_container:codery-paseo-blue'', ''prune_images:paseo'']"
  by code_simp

lemma mock_health_failure:
  "mk_running (snd (deploy_service mock_deps paseo_def ''abc'' (mock_new\<lparr>mk_health_ok := False\<rparr>))) =
     [''codery-paseo-blue'']"
  by code_simp

section \<open>Correctness\<close>

text \<open>
  On the mock host, a deploy of any service and tag never causes an outage: if the container of
  the recorded color is running before, the container of the color recorded afterwards is running
  after it, on every branch, failed checks included.
\<close>

theorem mock_deploy_no_outage:
  assumes "deploy_service mock_deps def sha s = (r, t)"
    and "container_name (sd_service def) (mk_color s) \<in> set (mk_running s)"
  shows "container_name (sd_service def) (mk_color t) \<in> set (mk_running t)"
  using mock.no_outage [of def "sd_service def" s sha r t] assms
  by (simp add: mock.serving_def mock_up_def)

lemma mock_deploy_no_outage_witness:
  "\<exists>r t. deploy_service mock_deps paseo_def ''abc'' (mock_new\<lparr>mk_health_ok := False\<rparr>) = (r, t) \<and>
     container_name ''paseo'' (mk_color t) \<in> set (mk_running t)"
proof -
  obtain r t where d: "deploy_service mock_deps paseo_def ''abc'' (mock_new\<lparr>mk_health_ok := False\<rparr>) = (r, t)"
    by force
  have "container_name (sd_service paseo_def) (mk_color t) \<in> set (mk_running t)"
    by (rule mock_deploy_no_outage [OF d])
      (simp add: mock_new_def paseo_def_def container_name_def color_str_def)
  with d show ?thesis by (auto simp: paseo_def_def)
qed

text \<open>
  A deploy of the tag that is already recorded, with the active container running, succeeds after
  exactly its first checks: nothing is staged, and Caddy is not reloaded, also when an earlier deploy
  of this tag failed at the reload.
\<close>

theorem deploy_same_tag_is_noop:
  assumes "dd_preflight D s = (Inr (), s1)"
    and "dd_ensure_network D (sd_network def) s1 = (Inr (), s2)"
    and "dd_read_active D (sd_service def) s2 = (Inr a, s3)"
    and "dd_read_active_sha D (sd_service def) s3 = Some sha"
    and "dd_container_running D (container_name (sd_service def) a) s3 = (Inr True, s4)"
  shows "deploy_service D def sha s = (Inr (), s4)"
  using assms
  by (simp add: deploy_service_def io_then_def io_bind_def io_read_def io_return_def Let_def)

lemma deploy_same_tag_is_noop_witness:
  "deploy_service mock_deps paseo_def ''abc'' (mock_new\<lparr>mk_sha := Some ''abc''\<rparr>) =
     (Inr (), mock_new\<lparr>mk_sha := Some ''abc'', mk_events := [''preflight'', ''ensure_network:codery-net'']\<rparr>)"
  by (rule deploy_same_tag_is_noop)
    (auto simp: mock_deps_def mock_op_defs mock_new_def paseo_def_def container_name_def color_str_def)

end
