(* ===== verification/Deploy_Trace.thy ===== *)
theory Deploy_Trace
  imports Deploy_Mock
begin

text \<open>
  The order of the calls a deploy makes, for every implementation of \<^verbatim>\<open>DeployDeps\<close>: \<open>traced D\<close> runs
  \<open>D\<close> and appends each call with its outcome to a log. No law on \<open>D\<close> is assumed here.
\<close>

datatype event =
    EvPreflight bool
  | EvNetwork bool
  | EvReadActive "color option"
  | EvRunning string "bool option"
  | EvValidate bool
  | EvRemove string bool
  | EvNginx bool
  | EvStart color bool
  | EvHealth color bool
  | EvWriteActive color bool
  | EvWriteSha string bool
  | EvCaddy bool
  | EvStop string bool
  | EvPrune bool

definition logged :: "('a res \<Rightarrow> event) \<Rightarrow> ('s, 'a) io \<Rightarrow> ('s \<times> event list, 'a) io" where
  "logged ev m = (\<lambda>(s, l). case m s of (r, t) \<Rightarrow> (r, (t, l @ [ev r])))"

definition ok :: "'a res \<Rightarrow> bool" where
  "ok r \<longleftrightarrow> (case r of Inl _ \<Rightarrow> False | Inr _ \<Rightarrow> True)"

definition answer :: "'a res \<Rightarrow> 'a option" where
  "answer r = (case r of Inl _ \<Rightarrow> None | Inr a \<Rightarrow> Some a)"

lemma ok_simps [simp]: "ok (Inr a)" "\<not> ok (Inl e)" "answer (Inr a) = Some a" "answer (Inl e) = None"
  by (simp_all add: ok_def answer_def)

definition traced :: "'s deploy_deps \<Rightarrow> ('s \<times> event list) deploy_deps" where
  "traced D =
     \<lparr>dd_preflight = logged (\<lambda>r. EvPreflight (ok r)) (dd_preflight D),
      dd_read_active = (\<lambda>svc. logged (\<lambda>r. EvReadActive (answer r)) (dd_read_active D svc)),
      dd_read_active_sha = (\<lambda>svc (s, l). dd_read_active_sha D svc s),
      dd_write_active = (\<lambda>svc c. logged (\<lambda>r. EvWriteActive c (ok r)) (dd_write_active D svc c)),
      dd_write_active_sha = (\<lambda>svc sha. logged (\<lambda>r. EvWriteSha sha (ok r)) (dd_write_active_sha D svc sha)),
      dd_apply_caddy = logged (\<lambda>r. EvCaddy (ok r)) (dd_apply_caddy D),
      dd_ensure_network = (\<lambda>n. logged (\<lambda>r. EvNetwork (ok r)) (dd_ensure_network D n)),
      dd_validate = (\<lambda>def sha c. logged (\<lambda>r. EvValidate (ok r)) (dd_validate D def sha c)),
      dd_start_container = (\<lambda>def sha c. logged (\<lambda>r. EvStart c (ok r)) (dd_start_container D def sha c)),
      dd_remove_container = (\<lambda>n. logged (\<lambda>r. EvRemove n (ok r)) (dd_remove_container D n)),
      dd_stop_container = (\<lambda>n. logged (\<lambda>r. EvStop n (ok r)) (dd_stop_container D n)),
      dd_health_check = (\<lambda>def c. logged (\<lambda>r. EvHealth c (ok r)) (dd_health_check D def c)),
      dd_prune_images = (\<lambda>svc. logged (\<lambda>r. EvPrune (ok r)) (dd_prune_images D svc)),
      dd_ensure_nginx_config = logged (\<lambda>r. EvNginx (ok r)) (dd_ensure_nginx_config D),
      dd_container_running = (\<lambda>n. logged (\<lambda>r. EvRunning n (answer r)) (dd_container_running D n))\<rparr>"

lemma traced_simps:
  "dd_preflight (traced D) = logged (\<lambda>r. EvPreflight (ok r)) (dd_preflight D)"
  "dd_ensure_network (traced D) n = logged (\<lambda>r. EvNetwork (ok r)) (dd_ensure_network D n)"
  "dd_read_active (traced D) svc = logged (\<lambda>r. EvReadActive (answer r)) (dd_read_active D svc)"
  "dd_container_running (traced D) n = logged (\<lambda>r. EvRunning n (answer r)) (dd_container_running D n)"
  by (simp_all add: traced_def)

text \<open>The part of \<^verbatim>\<open>deploy_service\<close> that follows the idempotency check.\<close>

definition stage_and_cut :: "'s deploy_deps \<Rightarrow> service_def \<Rightarrow> string \<Rightarrow> color \<Rightarrow> ('s, unit) io" where
  "stage_and_cut D def sha a =
     io_then (start_inactive D def sha (flip a)) (cutover D def sha a (flip a))"

section \<open>The protocol\<close>

text \<open>
  The full schedule of a deploy that cuts over from color \<open>a\<close>; every log is a part of it that ends
  where the deploy ended.
\<close>

definition cutover_schedule :: "string \<Rightarrow> string \<Rightarrow> color \<Rightarrow> event list" where
  "cutover_schedule svc sha a =
     [EvRunning (container_name svc (flip a)) (Some True), EvWriteActive (flip a) True,
      EvWriteSha sha True, EvCaddy True]"

lemma logged_run:
  "logged ev m (s, l) = (r, (t, l')) \<longleftrightarrow> m s = (r, t) \<and> l' = l @ [ev r]"
  by (auto simp: logged_def split: prod.splits)

lemma io_bind_split:
  "io_bind m f s = (r, t) \<longleftrightarrow>
     (\<exists>e. m s = (Inl e, t) \<and> r = Inl e) \<or> (\<exists>a u. m s = (Inr a, u) \<and> f a u = (r, t))"
  by (auto simp: io_bind_def split: prod.splits sum.splits)

definition no_stop :: "event list \<Rightarrow> bool" where
  "no_stop l \<longleftrightarrow> (\<forall>n b. EvStop n b \<notin> set l)"

definition removes_only :: "string \<Rightarrow> event list \<Rightarrow> bool" where
  "removes_only n l \<longleftrightarrow> (\<forall>m b. EvRemove m b \<in> set l \<longrightarrow> m = n)"

text \<open>The events that a run of an operation over \<open>traced D\<close> adds.\<close>

definition adds :: "('s \<times> event list, 'a) io \<Rightarrow> (event list \<Rightarrow> bool) \<Rightarrow> bool" where
  "adds m P \<longleftrightarrow> (\<forall>s l r t l'. m (s, l) = (r, (t, l')) \<longrightarrow> (\<exists>x. l' = l @ x \<and> P x))"

lemma addsD: "adds m P \<Longrightarrow> m (s, l) = (r, (t, l')) \<Longrightarrow> \<exists>x. l' = l @ x \<and> P x"
  unfolding adds_def by blast

lemma adds_logged: "(\<And>r. P [ev r]) \<Longrightarrow> adds (logged ev m) P"
  by (auto simp: adds_def logged_run)

lemma adds_then:
  assumes "adds m P" and "adds k Q" and "\<And>x. P x \<Longrightarrow> R x" and "\<And>x y. P x \<Longrightarrow> Q y \<Longrightarrow> R (x @ y)"
  shows "adds (io_then m k) R"
  unfolding adds_def
proof (intro allI impI)
  fix s l r t l'
  assume "io_then m k (s, l) = (r, (t, l'))"
  then consider e where "m (s, l) = (Inl e, (t, l'))"
    | a u l1 where "m (s, l) = (Inr a, (u, l1))" "k (u, l1) = (r, (t, l'))"
    by (auto simp: io_then_split)
  then show "\<exists>x. l' = l @ x \<and> R x"
  proof cases
    case 1
    from addsD [OF assms(1) this] assms(3) show ?thesis by blast
  next
    case 2
    from addsD [OF assms(1) 2(1)] addsD [OF assms(2) 2(2)] assms(4) show ?thesis
      by (metis append.assoc)
  qed
qed

definition staging :: "string \<Rightarrow> event list \<Rightarrow> bool" where
  "staging n l \<longleftrightarrow> no_stop l \<and> removes_only n l \<and> (\<forall>c b. EvWriteActive c b \<notin> set l) \<and> (\<forall>b. EvCaddy b \<notin> set l)"

lemma staging_append: "staging n x \<Longrightarrow> staging n y \<Longrightarrow> staging n (x @ y)"
  by (auto simp: staging_def no_stop_def removes_only_def)

lemma adds_staging_then:
  "adds m (staging n) \<Longrightarrow> adds k (staging n) \<Longrightarrow> adds (io_then m k) (staging n)"
  by (rule adds_then [where P = "staging n" and Q = "staging n"]) (simp_all add: staging_append)

lemma adds_start_inactive:
  "adds (start_inactive (traced D) def sha c) (staging (container_name (sd_service def) c))"
  unfolding start_inactive_def traced_def deploy_deps.simps
  by (intro adds_staging_then adds_logged) (simp_all add: staging_def no_stop_def removes_only_def)

text \<open>What a cutover logs: the old container is stopped only at the end of the full schedule.\<close>

definition cutting :: "string \<Rightarrow> string \<Rightarrow> color \<Rightarrow> event list \<Rightarrow> bool" where
  "cutting svc sha a l \<longleftrightarrow>
     (\<forall>n b. EvRemove n b \<notin> set l) \<and>
     (\<forall>n b. EvStop n b \<in> set l \<longrightarrow> n = container_name svc a \<and>
        (\<exists>post. l = cutover_schedule svc sha a @ EvStop n b # post \<and> no_stop post))"

lemma adds_cutover:
  "adds (cutover (traced D) def sha a (flip a)) (cutting (sd_service def) sha a)"
  unfolding adds_def
proof (intro allI impI)
  fix s l r t l'
  assume "cutover (traced D) def sha a (flip a) (s, l) = (r, (t, l'))"
  then show "\<exists>x. l' = l @ x \<and> cutting (sd_service def) sha a x"
    by (auto simp: cutover_def traced_def io_bind_split io_then_split logged_run io_fail_def Let_def
        cutting_def cutover_schedule_def no_stop_def split: if_splits)
qed

definition whole_log :: "string \<Rightarrow> string \<Rightarrow> color \<Rightarrow> event list \<Rightarrow> bool" where
  "whole_log svc sha a l \<longleftrightarrow>
     (\<exists>x y. l = x @ y \<and> staging (container_name svc (flip a)) x \<and> cutting svc sha a y)"

lemma adds_rest:
  "adds (stage_and_cut (traced D) def sha a) (whole_log (sd_service def) sha a)"
  unfolding stage_and_cut_def
proof (rule adds_then [OF adds_start_inactive adds_cutover])
  fix x assume "staging (container_name (sd_service def) (flip a)) x"
  moreover have "cutting (sd_service def) sha a []" by (simp add: cutting_def)
  ultimately show "whole_log (sd_service def) sha a x"
    unfolding whole_log_def by (metis append_Nil2)
qed (auto simp: whole_log_def)

lemma whole_log_Cons:
  assumes "whole_log svc sha a l" and "staging (container_name svc (flip a)) [e]"
  shows "whole_log svc sha a (e # l)"
proof -
  obtain x y where "l = x @ y" "staging (container_name svc (flip a)) x" "cutting svc sha a y"
    using assms(1) unfolding whole_log_def by blast
  moreover from this have "staging (container_name svc (flip a)) ([e] @ x)"
    by (intro staging_append assms(2))
  ultimately show ?thesis unfolding whole_log_def by (metis append_Cons append_Nil)
qed

lemma staging_neutral [simp]:
  "staging n []" "staging n [EvPreflight b]" "staging n [EvNetwork b]" "staging n [EvReadActive c]"
  "staging n [EvRunning m q]"
  by (simp_all add: staging_def no_stop_def removes_only_def)

lemma whole_log_staging: "staging (container_name svc (flip a)) l \<Longrightarrow> whole_log svc sha a l"
  unfolding whole_log_def cutting_def by (rule exI [of _ l], rule exI [of _ "[]"]) simp

lemma whole_log_append:
  assumes "staging (container_name svc (flip a)) z" and "whole_log svc sha a l"
  shows "whole_log svc sha a (z @ l)"
proof -
  obtain x y where "l = x @ y" "staging (container_name svc (flip a)) x" "cutting svc sha a y"
    using assms(2) unfolding whole_log_def by blast
  then have "z @ l = (z @ x) @ y" "staging (container_name svc (flip a)) (z @ x)"
    using staging_append [OF assms(1)] by simp_all
  with \<open>cutting svc sha a y\<close> show ?thesis unfolding whole_log_def by blast
qed

lemma adds_bind_logged:
  assumes "\<And>a. adds (f a) (Q a)" and "\<And>e. R [ev (Inl e)]" and "\<And>a y. Q a y \<Longrightarrow> R (ev (Inr a) # y)"
  shows "adds (io_bind (logged ev m) f) R"
  unfolding adds_def
proof (intro allI impI)
  fix s l r t l'
  assume "io_bind (logged ev m) f (s, l) = (r, (t, l'))"
  then consider e where "l' = l @ [ev (Inl e)]"
    | a u where "f a (u, l @ [ev (Inr a)]) = (r, (t, l'))"
    by (auto simp: io_bind_split logged_run)
  then show "\<exists>x. l' = l @ x \<and> R x"
  proof cases
    case 1
    with assms(2) show ?thesis by blast
  next
    case 2
    from addsD [OF assms(1) this] obtain x where "l' = (l @ [ev (Inr a)]) @ x" "Q a x" by blast
    with assms(3) show ?thesis by (metis append.assoc append_Cons append_Nil)
  qed
qed

lemma adds_read: "(\<And>a. adds (f a) P) \<Longrightarrow> adds (io_bind (io_read g) f) P"
  by (auto simp: adds_def io_bind_def io_read_def)

lemma adds_return: "P [] \<Longrightarrow> adds (io_return a) P"
  by (auto simp: adds_def io_return_def)

lemma adds_recorded:
  "adds (if recorded = Some sha
         then io_bind (dd_container_running (traced D) n) (\<lambda>running.
                if running then io_return () else stage_and_cut (traced D) def sha a)
         else stage_and_cut (traced D) def sha a)
     (whole_log (sd_service def) sha a)"
proof (cases "recorded = Some sha")
  case True
  have "adds (if running then io_return () else stage_and_cut (traced D) def sha a)
      (whole_log (sd_service def) sha a)" for running
    by (cases running) (simp_all add: adds_return whole_log_staging adds_rest)
  then have "adds (io_bind (logged (\<lambda>r. EvRunning n (answer r)) (dd_container_running D n))
      (\<lambda>running. if running then io_return () else stage_and_cut (traced D) def sha a))
      (whole_log (sd_service def) sha a)"
    by (rule adds_bind_logged) (simp_all add: whole_log_staging whole_log_Cons)
  with True show ?thesis by (simp only: traced_simps simp_thms if_True)
next
  case False
  with adds_rest show ?thesis by (simp only: if_False)
qed

text \<open>A deploy either stages and cuts over from a color it read, or ends before it touches anything.\<close>

definition deploy_logs :: "string \<Rightarrow> string \<Rightarrow> event list \<Rightarrow> bool" where
  "deploy_logs svc sha l \<longleftrightarrow>
     (\<exists>a. EvReadActive (Some a) \<in> set l \<and> whole_log svc sha a l) \<or> (\<forall>n. staging n l)"

lemma deploy_logs_append:
  assumes "\<forall>n. staging n x" and "deploy_logs svc sha y"
  shows "deploy_logs svc sha (x @ y)"
  using assms(2) unfolding deploy_logs_def
proof
  assume "\<exists>a. EvReadActive (Some a) \<in> set y \<and> whole_log svc sha a y"
  with assms(1) whole_log_append show "(\<exists>a. EvReadActive (Some a) \<in> set (x @ y) \<and>
      whole_log svc sha a (x @ y)) \<or> (\<forall>n. staging n (x @ y))"
    by (metis Un_iff set_append)
next
  assume "\<forall>n. staging n y"
  with assms(1) staging_append show "(\<exists>a. EvReadActive (Some a) \<in> set (x @ y) \<and>
      whole_log svc sha a (x @ y)) \<or> (\<forall>n. staging n (x @ y))"
    by metis
qed

lemma adds_then_deploy_logs:
  "adds m (\<lambda>x. \<forall>n. staging n x) \<Longrightarrow> adds k (deploy_logs svc sha) \<Longrightarrow>
   adds (io_then m k) (deploy_logs svc sha)"
  by (erule adds_then, assumption) (simp_all add: deploy_logs_append, simp add: deploy_logs_def)

lemma deploy_service_log: "adds (deploy_service (traced D) def sha) (deploy_logs (sd_service def) sha)"
proof -
  have pre: "adds (logged (\<lambda>r. EvPreflight (ok r)) m) (\<lambda>x. \<forall>n. staging n x)"
    "adds (logged (\<lambda>r. EvNetwork (ok r)) m') (\<lambda>x. \<forall>n. staging n x)" for m m' :: "(_, unit) io"
    by (rule adds_logged, simp)+
  show ?thesis
    unfolding deploy_service_def Let_def stage_and_cut_def [symmetric] traced_simps(1-3)
    by (intro adds_then_deploy_logs pre
        adds_bind_logged [where Q = "whole_log (sd_service def) sha", OF adds_read [OF adds_recorded]])
      (auto simp: deploy_logs_def whole_log_Cons)
qed

lemma staging_all: "\<forall>n. staging n log \<Longrightarrow> EvRemove m b \<notin> set log \<and> EvStop m b \<notin> set log"
proof -
  assume "\<forall>n. staging n log"
  then have "staging ''x'' log" "staging ''y'' log" by blast+
  then show ?thesis by (fastforce simp: staging_def removes_only_def no_stop_def)
qed

lemma whole_log_events:
  assumes "whole_log svc sha a log"
  shows "EvRemove n b \<in> set log \<Longrightarrow> n = container_name svc (flip a)"
    and "EvStop n b \<in> set log \<Longrightarrow> n = container_name svc a \<and>
      (\<exists>pre post. log = pre @ cutover_schedule svc sha a @ EvStop n b # post \<and> no_stop pre \<and> no_stop post)"
proof -
  obtain x y where l: "log = x @ y" "staging (container_name svc (flip a)) x" "cutting svc sha a y"
    using assms unfolding whole_log_def by blast
  show "n = container_name svc (flip a)" if "EvRemove n b \<in> set log"
    using that l unfolding staging_def removes_only_def cutting_def by (metis Un_iff set_append)
  show "n = container_name svc a \<and>
      (\<exists>pre post. log = pre @ cutover_schedule svc sha a @ EvStop n b # post \<and> no_stop pre \<and> no_stop post)"
    if "EvStop n b \<in> set log"
  proof -
    have "EvStop n b \<in> set y" "no_stop x"
      using that l(1,2) unfolding staging_def no_stop_def by auto
    with l(1,3) show ?thesis unfolding cutting_def by metis
  qed
qed

section \<open>Correctness\<close>

text \<open>
  C7: For every host and whatever its calls answer, a deploy removes no container but the one of the
  color opposite to the active color it read, and it stops a container only if that is the active
  one and only directly after the four calls that verified the replacement as running, recorded its
  color, recorded its tag and reloaded Caddy, each of them successful; nothing is stopped before or
  after.
\<close>

theorem deploy_call_order:
  assumes "deploy_service (traced D) def sha (s, []) = (r, (t, log))"
  shows "(\<forall>n b. EvRemove n b \<in> set log \<longrightarrow>
            (\<exists>a. EvReadActive (Some a) \<in> set log \<and> n = container_name (sd_service def) (flip a))) \<and>
    (\<forall>n b. EvStop n b \<in> set log \<longrightarrow>
       (\<exists>a pre post. EvReadActive (Some a) \<in> set log \<and> n = container_name (sd_service def) a \<and>
          log = pre @ cutover_schedule (sd_service def) sha a @ EvStop n b # post \<and>
          no_stop pre \<and> no_stop post))"
proof -
  have "deploy_logs (sd_service def) sha log"
    using addsD [OF deploy_service_log assms] by simp
  then consider (quiet) "\<forall>n. staging n log"
    | (cut) a where "EvReadActive (Some a) \<in> set log" "whole_log (sd_service def) sha a log"
    unfolding deploy_logs_def by blast
  then show ?thesis
  proof cases
    case quiet
    with staging_all show ?thesis by blast
  next
    case cut
    with whole_log_events [OF cut(2)] show ?thesis by blast
  qed
qed

lemma deploy_call_order_witness:
  "\<exists>r t log. deploy_service (traced mock_deps) paseo_def ''abc'' (mock_new, []) = (r, (t, log)) \<and>
     (\<forall>n b. EvStop n b \<in> set log \<longrightarrow> EvCaddy True \<in> set log)"
proof -
  obtain r t log where d: "deploy_service (traced mock_deps) paseo_def ''abc'' (mock_new, []) = (r, (t, log))"
    by (metis surj_pair)
  have "EvCaddy True \<in> set log" if "EvStop n b \<in> set log" for n b
    using conjunct2 [OF deploy_call_order [OF d], rule_format, OF that]
    by (auto simp: cutover_schedule_def)
  with d show ?thesis by blast
qed

end
