(* ===== verification/Deploy_Lock.thy ===== *)
theory Deploy_Lock
  imports State_Files
begin

text \<open>
  \<^verbatim>\<open>deploy_lock.rs\<close>: the per-service advisory lock taken with a non-blocking exclusive \<^verbatim>\<open>flock\<close>,
  and the interleavings of the processes that acquire and drop it. The kernel keeps the set of
  locked files; a lock is free again when its file descriptor is closed.
\<close>

record lock_state =
  ls_fs :: fs
  ls_held :: "string list"
  ls_exhausted :: bool  \<comment> \<open>the kernel is out of lock memory (\<^verbatim>\<open>ENOLCK\<close>)\<close>

definition lock_name_ok :: "string \<Rightarrow> bool" where
  "lock_name_ok service \<longleftrightarrow>
     service \<noteq> [] \<and> (\<forall>c \<in> set service. is_alnum c \<or> c = CHR ''-'' \<or> c = CHR ''_'')"

text \<open>\<^verbatim>\<open>OpenOptions\<close> with \<^verbatim>\<open>create(true).truncate(false)\<close>: an existing file keeps its contents.\<close>

definition open_keep :: "string \<Rightarrow> (fs, unit) io" where
  "open_keep p f =
     (if denied f p \<or> p \<in> set (dirs f) then (Inl (IoError p), f)
      else if file_at f p \<noteq> None then (Inr (), f)
      else if parent_dir p \<notin> set (dirs f) then (Inl (IoError p), f)
      else (Inr (), put_file p [] f))"

definition try_acquire_path :: "string \<Rightarrow> (lock_state, string) io" where
  "try_acquire_path path st =
     (case open_keep path (ls_fs st) of
        (Inl e, f) \<Rightarrow> (Inl e, st\<lparr>ls_fs := f\<rparr>)
      | (Inr _, f) \<Rightarrow>
          (let st' = st\<lparr>ls_fs := f\<rparr>
           in if path \<in> set (ls_held st) then (Inl DeployInProgress, st')
              else if ls_exhausted st then (Inl (IoError path), st')
              else (Inr path, st'\<lparr>ls_held := path # ls_held st\<rparr>)))"

definition try_acquire :: "string \<Rightarrow> (lock_state, string) io" where
  "try_acquire service st =
     (if \<not> lock_name_ok service then (Inl (InvalidLockName service), st)
      else try_acquire_path (deploy_lock_path service) st)"

text \<open>Dropping the guard closes the file.\<close>

definition release_lock :: "string \<Rightarrow> lock_state \<Rightarrow> lock_state" where
  "release_lock path st = st\<lparr>ls_held := remove1 path (ls_held st)\<rparr>"

section \<open>Interleavings of deploys\<close>

text \<open>\<open>H\<close> holds the pairs of a process and the service whose guard it keeps.\<close>

inductive lock_run :: "lock_state \<Rightarrow> (nat \<times> string) list \<Rightarrow> bool" where
  boot: "ls_held st = [] \<Longrightarrow> lock_run st []"
| acquire: "lock_run st H \<Longrightarrow> try_acquire service st = (Inr path, st') \<Longrightarrow>
    lock_run st' ((pid, service) # H)"
| refused: "lock_run st H \<Longrightarrow> try_acquire service st = (Inl e, st') \<Longrightarrow> lock_run st' H"
| release: "lock_run st H \<Longrightarrow> (pid, service) \<in> set H \<Longrightarrow>
    lock_run (release_lock (deploy_lock_path service) st) (remove1 (pid, service) H)"
| environment: "lock_run st H \<Longrightarrow> lock_run (st\<lparr>ls_fs := f, ls_exhausted := b\<rparr>) H"

lemma deploy_lock_path_inject [simp]: "deploy_lock_path s = deploy_lock_path t \<longleftrightarrow> s = t"
  by (simp add: deploy_lock_path_def)

lemma try_acquire_Inr:
  "try_acquire s st = (Inr p, st') \<Longrightarrow>
   p = deploy_lock_path s \<and> p \<notin> set (ls_held st) \<and> ls_held st' = p # ls_held st \<and> lock_name_ok s"
  by (auto simp: try_acquire_def try_acquire_path_def Let_def
      split: if_splits prod.splits sum.splits)

lemma try_acquire_Inl: "try_acquire s st = (Inl e, st') \<Longrightarrow> ls_held st' = ls_held st"
  by (auto simp: try_acquire_def try_acquire_path_def Let_def
      split: if_splits prod.splits sum.splits)

lemma remove1_map_paths:
  assumes "distinct (map f xs)" and "x \<in> set xs"
  shows "remove1 (f x) (map f xs) = map f (remove1 x xs)"
  using assms
proof (induction xs)
  case (Cons a xs)
  show ?case
  proof (cases "a = x")
    case False
    with Cons.prems have "x \<in> set xs" "f a \<noteq> f x" by (auto simp: image_iff)
    with False Cons show ?thesis by simp
  qed simp
qed simp

lemma lock_run_held:
  "lock_run st H \<Longrightarrow>
   ls_held st = map (\<lambda>(pid, s). deploy_lock_path s) H \<and> distinct (ls_held st)"
proof (induction rule: lock_run.induct)
  case (acquire st H service path st' pid)
  with try_acquire_Inr [OF acquire.hyps(2)] show ?case by auto
next
  case (refused st H service e st')
  with try_acquire_Inl [OF refused.hyps(2)] show ?case by metis
next
  case (release st H pid service)
  let ?f = "\<lambda>(pid :: nat, s). deploy_lock_path s"
  have d: "distinct (map ?f H)" and h: "ls_held st = map ?f H" using release.IH by auto
  have "remove1 (deploy_lock_path service) (map ?f H) = map ?f (remove1 (pid, service) H)"
    using remove1_map_paths [OF d release.hyps(2)] by simp
  with distinct_remove1 [OF d] h show ?case by (simp add: release_lock_def) metis
next
  case (environment st H f b)
  then show ?case by simp metis
qed simp

lemma distinct_map_eq: "distinct (map f xs) \<Longrightarrow> x \<in> set xs \<Longrightarrow> y \<in> set xs \<Longrightarrow> f x = f y \<Longrightarrow> x = y"
  by (auto simp: distinct_map inj_on_def)

lemma open_keep_ok:
  "\<not> denied f p \<Longrightarrow> p \<notin> set (dirs f) \<Longrightarrow> parent_dir p \<in> set (dirs f) \<Longrightarrow>
   \<exists>g. open_keep p f = (Inr (), g)"
  by (auto simp: open_keep_def)

lemma lock_name_no_slash: "lock_name_ok s \<Longrightarrow> CHR ''/'' \<notin> set s"
  by (auto simp: lock_name_ok_def is_alnum_def is_digit_def)

lemma deploy_lock_path_parent:
  assumes "lock_name_ok s"
  shows "parent_dir (deploy_lock_path s) = ''/run''"
proof -
  have "CHR ''/'' \<notin> set (''codery-ci-deploy-'' @ s @ ''.lock'')"
    using lock_name_no_slash [OF assms] by simp
  from parent_dir_join(1) [OF this, of "''/run''"] show ?thesis
    by (simp add: deploy_lock_path_def)
qed

lemma lock_run_names: "lock_run st H \<Longrightarrow> (p, s) \<in> set H \<Longrightarrow> lock_name_ok s"
proof (induction arbitrary: p s rule: lock_run.induct)
  case (acquire st H service path st' pid)
  with try_acquire_Inr [OF acquire.hyps(2)] show ?case by auto
next
  case (release st H pid service)
  then show ?case by (meson in_mono set_remove1_subset)
qed auto

section \<open>Correctness\<close>


text \<open>A host on which every lock file can be created.\<close>

definition open_host :: lock_state where
  "open_host =
     \<lparr>ls_fs = \<lparr>files = [], dirs = [[], ''/run''], denied = (\<lambda>_. False), full = (\<lambda>_. False)\<rparr>,
      ls_held = [], ls_exhausted = False\<rparr>"

lemma acquire_on_open_host:
  "fst (try_acquire ''apps'' open_host) = Inr (deploy_lock_path ''apps'')"
  by (simp add: try_acquire_def try_acquire_path_def open_host_def open_keep_def lock_name_ok_def
      is_alnum_def is_digit_def deploy_lock_path_def parent_dir_def rcut_at_def split_once_def
      file_at_def Let_def)


text \<open>
  A lock is never left behind: whenever no process keeps the guard of a service, whatever ran
  and failed before, acquiring it succeeds, provided the lock file can be opened and the kernel
  has lock memory.
\<close>

theorem deploy_lock_available:
  assumes "lock_run st H" and "service \<notin> snd ` set H" and "lock_name_ok service"
    and "\<not> denied (ls_fs st) (deploy_lock_path service)"
    and "deploy_lock_path service \<notin> set (dirs (ls_fs st))"
    and "''/run'' \<in> set (dirs (ls_fs st))" and "\<not> ls_exhausted st"
  shows "\<exists>st'. try_acquire service st = (Inr (deploy_lock_path service), st') \<and>
           lock_run st' ((pid, service) # H)"
proof -
  have "deploy_lock_path service \<notin> set (ls_held st)"
    using lock_run_held [OF assms(1)] assms(2) by force
  moreover have "\<exists>g. open_keep (deploy_lock_path service) (ls_fs st) = (Inr (), g)"
    using assms(3-6) by (intro open_keep_ok) (simp_all add: deploy_lock_path_parent)
  ultimately obtain st' where
    "try_acquire service st = (Inr (deploy_lock_path service), st')"
    using assms(3,7) by (auto simp: try_acquire_def try_acquire_path_def Let_def)
  with assms(1) show ?thesis by (meson lock_run.acquire)
qed

lemma deploy_lock_available_witness:
  "\<exists>st'. try_acquire ''apps'' open_host = (Inr (deploy_lock_path ''apps''), st') \<and>
     lock_run st' [(7, ''apps'')]"
  by (rule deploy_lock_available [OF lock_run.boot])
    (simp_all add: open_host_def lock_name_ok_def is_alnum_def is_digit_def deploy_lock_path_def)

end
