(* ===== verification/Mcp_Exec.thy ===== *)
theory Mcp_Exec
  imports State_Files
begin

text \<open>
  \<^verbatim>\<open>mcp_exec.rs\<close>: the host-side toggle, the subcommand allowlist, the spawn pipeline, the registry of
  background jobs with the task that waits for each child, and the status query with the tail of the
  log. A run interleaves spawn requests, task completions, the clock and anything the operator does
  to the file system.
\<close>

section \<open>Toggle and allowlist\<close>

definition ALLOWLIST :: "string list" where
  "ALLOWLIST = [''build'', ''validate'', ''deploy-preview'', ''cancel-preview'']"

definition is_allowed :: "string \<Rightarrow> bool" where
  "is_allowed subcmd \<longleftrightarrow> subcmd \<in> set ALLOWLIST"

definition toggle_enabled_at :: "string \<Rightarrow> fs \<Rightarrow> bool" where
  "toggle_enabled_at path f \<longleftrightarrow> path_exists f path"

definition set_toggle_at :: "string \<Rightarrow> bool \<Rightarrow> (fs, unit) io" where
  "set_toggle_at path enabled f =
     (if enabled
      then io_then (create_dir_all (parent_dir path)) (write_text path (''1'' @ [newline])) f
      else if path_exists f path then remove_file path f else (Inr (), f))"

section \<open>Jobs\<close>

datatype job_status = Running | Done | Failed | Timeout

record exec_job =
  ej_id :: string
  ej_args :: "string list"
  ej_pid :: "nat option"
  ej_started_at :: nat
  ej_finished_at :: "nat option"
  ej_status :: job_status
  ej_exit_code :: "int option"
  ej_log_path :: string

text \<open>A background task: the job it belongs to, its time limit and its log file.\<close>

record exec_task =
  et_id :: string
  et_timeout :: nat
  et_log :: string

record exec_state =
  ex_fs :: fs
  ex_jobs :: "(string \<times> exec_job) list"
  ex_tasks :: "exec_task list"
  ex_launched :: "string list list"  \<comment> \<open>argument lists of the children started so far\<close>
  ex_secs :: nat
  ex_nanos :: int

definition hex_digit :: "int \<Rightarrow> char" where
  "hex_digit d = (if d < 10 then char_of (48 + d) else char_of (87 + d))"

text \<open>The lower 48 bits of the clock as twelve hexadecimal digits.\<close>

definition gen_id :: "int \<Rightarrow> string" where
  "gen_id nanos = map (\<lambda>i. hex_digit ((nanos mod 2 ^ 48) div 16 ^ i mod 16)) (rev [0..<12])"

datatype exec_error =
    ExecDisabled
  | NoSubcommand
  | NotAllowed string
  | LogDir error
  | LogFile error
  | LaunchFailed
  | UnknownJob string

type_synonym launcher = "string list \<Rightarrow> nat option option"  \<comment> \<open>not started, or the child's pid\<close>

definition exec_log_name :: "nat \<Rightarrow> string \<Rightarrow> string \<Rightarrow> string" where
  "exec_log_name started subcmd job_id =
     ''exec-'' @ show_nat started @ ''-'' @ subcmd @ ''-'' @ job_id @ ''.log''"

definition spawn_with ::
  "launcher \<Rightarrow> string \<Rightarrow> string \<Rightarrow> string list \<Rightarrow> nat \<Rightarrow> exec_state \<Rightarrow>
   (exec_error + exec_job) \<times> exec_state" where
  "spawn_with launch toggle_path log_dir args timeout st =
     (if \<not> toggle_enabled_at toggle_path (ex_fs st) then (Inl ExecDisabled, st)
      else case args of
        [] \<Rightarrow> (Inl NoSubcommand, st)
      | subcmd # _ \<Rightarrow>
          if \<not> is_allowed subcmd then (Inl (NotAllowed subcmd), st)
          else case create_dir_all log_dir (ex_fs st) of
            (Inl e, f) \<Rightarrow> (Inl (LogDir e), st\<lparr>ex_fs := f\<rparr>)
          | (Inr _, f) \<Rightarrow>
              let job_id = gen_id (ex_nanos st);
                  log_path = path_join log_dir (exec_log_name (ex_secs st) subcmd job_id)
              in case write_text log_path [] f of
                   (Inl e, g) \<Rightarrow> (Inl (LogFile e), st\<lparr>ex_fs := g\<rparr>)
                 | (Inr _, g) \<Rightarrow>
                     (case launch args of
                        None \<Rightarrow> (Inl LaunchFailed, st\<lparr>ex_fs := g\<rparr>)
                      | Some pid \<Rightarrow>
                          let job = \<lparr>ej_id = job_id, ej_args = args, ej_pid = pid,
                                     ej_started_at = ex_secs st, ej_finished_at = None,
                                     ej_status = Running, ej_exit_code = None, ej_log_path = log_path\<rparr>
                          in (Inr job,
                              st\<lparr>ex_fs := g, ex_jobs := AList.update job_id job (ex_jobs st),
                                 ex_tasks := ex_tasks st @
                                   [\<lparr>et_id = job_id, et_timeout = timeout, et_log = log_path\<rparr>],
                                 ex_launched := ex_launched st @ [args]\<rparr>)))"

definition exec_spawn :: "launcher \<Rightarrow> string list \<Rightarrow> nat \<Rightarrow> exec_state \<Rightarrow>
    (exec_error + exec_job) \<times> exec_state" where
  "exec_spawn launch args timeout = spawn_with launch MCP_EXEC_TOGGLE MCP_EXEC_LOG_DIR args timeout"

section \<open>The waiting task\<close>

datatype wait_result =
    Exited bool "int option"  \<comment> \<open>success flag and exit code\<close>
  | WaitError string
  | TimedOut

definition append_log :: "string \<Rightarrow> string \<Rightarrow> fs \<Rightarrow> fs" where
  "append_log path text f =
     (case file_at f path of
        None \<Rightarrow> f
      | Some old \<Rightarrow> if denied f path \<or> full f path then f else put_file path (old @ text) f)"

definition finish_job :: "nat \<Rightarrow> wait_result \<Rightarrow> exec_job \<Rightarrow> exec_job" where
  "finish_job now r job =
     (case r of
        Exited success code \<Rightarrow>
          job\<lparr>ej_finished_at := Some now, ej_status := (if success then Done else Failed),
              ej_exit_code := code\<rparr>
      | WaitError _ \<Rightarrow> job\<lparr>ej_finished_at := Some now, ej_status := Failed, ej_exit_code := None\<rparr>
      | TimedOut \<Rightarrow> job\<lparr>ej_status := Timeout, ej_finished_at := Some now\<rparr>)"

definition task_note :: "exec_task \<Rightarrow> wait_result \<Rightarrow> string" where
  "task_note t r =
     (case r of
        Exited _ _ \<Rightarrow> []
      | WaitError e \<Rightarrow> [newline] @ ''[mcp-exec] process wait error: '' @ e @ [newline]
      | TimedOut \<Rightarrow> [newline] @ ''[mcp-exec] TIMEOUT after '' @ show_nat (et_timeout t) @ ''s'' @ [newline])"

definition complete_task :: "exec_task \<Rightarrow> wait_result \<Rightarrow> exec_state \<Rightarrow> exec_state" where
  "complete_task t r st =
     st\<lparr>ex_fs := append_log (et_log t) (task_note t r) (ex_fs st),
        ex_jobs := (case map_of (ex_jobs st) (et_id t) of
                      None \<Rightarrow> ex_jobs st
                    | Some job \<Rightarrow> AList.update (et_id t) (finish_job (ex_secs st) r job) (ex_jobs st)),
        ex_tasks := remove1 t (ex_tasks st)\<rparr>"

section \<open>Status\<close>

definition read_tail :: "fs \<Rightarrow> string \<Rightarrow> nat \<Rightarrow> string" where
  "read_tail f path max_bytes =
     (case read_text f path of
        Inl _ \<Rightarrow> []
      | Inr text \<Rightarrow> if max_bytes < length text then drop (length text - max_bytes) text else text)"

record status_response =
  sr_job :: exec_job
  sr_elapsed :: nat
  sr_tail :: string

definition job_status_of :: "exec_state \<Rightarrow> string \<Rightarrow> nat \<Rightarrow> exec_error + status_response" where
  "job_status_of st job_id tail_bytes =
     (case map_of (ex_jobs st) job_id of
        None \<Rightarrow> Inl (UnknownJob job_id)
      | Some job \<Rightarrow>
          Inr \<lparr>sr_job = job, sr_elapsed = ex_secs st - ej_started_at job,
               sr_tail = read_tail (ex_fs st) (ej_log_path job) tail_bytes\<rparr>)"

text \<open>The tools of \<^verbatim>\<open>mcp.rs\<close> over the bridge, with their defaults.\<close>

definition codery_exec :: "launcher \<Rightarrow> string list \<Rightarrow> nat option \<Rightarrow> exec_state \<Rightarrow>
    (exec_error + exec_job) \<times> exec_state" where
  "codery_exec launch args timeout_secs =
     exec_spawn launch args (case timeout_secs of Some n \<Rightarrow> n | None \<Rightarrow> 1800)"

definition codery_exec_status :: "exec_state \<Rightarrow> string \<Rightarrow> nat option \<Rightarrow> exec_error + status_response" where
  "codery_exec_status st job_id tail_bytes =
     job_status_of st job_id (case tail_bytes of Some n \<Rightarrow> n | None \<Rightarrow> 65536)"

definition mcp_exec_enabled :: "fs \<Rightarrow> bool \<times> string list" where
  "mcp_exec_enabled f = (toggle_enabled_at MCP_EXEC_TOGGLE f, ALLOWLIST)"

section \<open>Runs of the daemon\<close>

inductive exec_run :: "exec_state \<Rightarrow> bool" where
  start: "ex_jobs st = [] \<Longrightarrow> ex_tasks st = [] \<Longrightarrow> ex_launched st = [] \<Longrightarrow> exec_run st"
| request: "exec_run st \<Longrightarrow> exec_spawn launch args timeout st = (r, st') \<Longrightarrow> exec_run st'"
| completion: "exec_run st \<Longrightarrow> t \<in> set (ex_tasks st) \<Longrightarrow> (r = TimedOut \<longrightarrow> 0 < et_timeout t) \<Longrightarrow>
    exec_run (complete_task t r st)"
| outside: "exec_run st \<Longrightarrow> ex_secs st \<le> s \<Longrightarrow> exec_run (st\<lparr>ex_fs := f, ex_secs := s, ex_nanos := n\<rparr>)"

section \<open>The invariant of the registry\<close>

text \<open>A job is unfinished exactly while it runs, and only a finished one has an exit code.\<close>

definition job_ok :: "exec_job \<Rightarrow> bool" where
  "job_ok j \<longleftrightarrow>
     (ej_status j = Running \<longleftrightarrow> ej_finished_at j = None) \<and>
     (ej_exit_code j \<noteq> None \<longrightarrow> ej_finished_at j \<noteq> None)"

definition args_ok :: "string list \<Rightarrow> bool" where
  "args_ok args \<longleftrightarrow> args \<noteq> [] \<and> is_allowed (hd args)"

definition exec_ok :: "exec_state \<Rightarrow> bool" where
  "exec_ok st \<longleftrightarrow>
     (\<forall>args \<in> set (ex_launched st). args_ok args) \<and>
     (\<forall>j \<in> snd ` set (ex_jobs st). job_ok j \<and> ej_args j \<in> set (ex_launched st))"

lemma snd_set_update: "snd ` set (AList.update k v xs) \<subseteq> insert v (snd ` set xs)"
  by (induction xs) auto

lemma map_of_in_snd: "map_of xs k = Some v \<Longrightarrow> v \<in> snd ` set xs"
  by (force dest: map_of_SomeD)

text \<open>A spawn either launches nothing, leaving registry and tasks alone, or registers one job.\<close>

lemma spawn_with_cases:
  assumes "spawn_with launch tp ld args timeout st = (r, st')"
  obtains (nothing) f where "st' = st\<lparr>ex_fs := f\<rparr>" and "\<exists>e. r = Inl e"
  | (launched) job where "args_ok args" "toggle_enabled_at tp (ex_fs st)" "r = Inr job"
      "ej_status job = Running" "ej_finished_at job = None" "ej_exit_code job = None"
      "ej_args job = args" "ex_jobs st' = AList.update (ej_id job) job (ex_jobs st)"
      "ex_launched st' = ex_launched st @ [args]"
proof (cases "toggle_enabled_at tp (ex_fs st) \<and> args \<noteq> [] \<and> is_allowed (hd args)")
  case False
  then have "st' = st \<and> (\<exists>e. r = Inl e)"
    using assms by (auto simp: spawn_with_def split: list.splits if_splits)
  then have "st' = st\<lparr>ex_fs := ex_fs st\<rparr>" "\<exists>e. r = Inl e" by (cases st, simp)+
  then show ?thesis by (rule nothing)
next
  case True
  then obtain subcmd rest where a: "args = subcmd # rest" by (cases args) auto
  from assms True a show ?thesis
    by (auto simp: spawn_with_def Let_def args_ok_def split: prod.splits sum.splits option.splits
        intro: launched) (rule nothing, assumption, blast)+
qed

lemma finish_job_ok: "job_ok (finish_job now r j)"
  by (cases r) (auto simp: finish_job_def job_ok_def)

lemma finish_job_args [simp]: "ej_args (finish_job now r j) = ej_args j"
  by (cases r) (auto simp: finish_job_def)

lemma exec_ok_step:
  assumes "exec_ok st" and "job_ok job" and "ej_args job \<in> set (ex_launched st')"
    and "snd ` set (ex_jobs st') \<subseteq> insert job (snd ` set (ex_jobs st))"
    and "ex_launched st' = ex_launched st @ new" and "\<forall>args \<in> set new. args_ok args"
  shows "exec_ok st'"
  unfolding exec_ok_def
proof (intro conjI ballI)
  show "args_ok args" if "args \<in> set (ex_launched st')" for args
    using that assms unfolding exec_ok_def by auto
  fix j assume "j \<in> snd ` set (ex_jobs st')"
  then have "j = job \<or> j \<in> snd ` set (ex_jobs st)" using assms(4) by blast
  then show "job_ok j" "ej_args j \<in> set (ex_launched st')"
    using assms(1,2,3,5) unfolding exec_ok_def by auto
qed

lemma spawn_ok:
  assumes ok: "exec_ok st" and run: "spawn_with launch tp ld args timeout st = (r, st')"
  shows "exec_ok st'"
  using run
proof (cases rule: spawn_with_cases)
  case (nothing f)
  then show ?thesis using ok by (simp add: exec_ok_def)
next
  case (launched job)
  have j: "job_ok job" using launched by (simp add: job_ok_def)
  have "snd ` set (ex_jobs st') \<subseteq> insert job (snd ` set (ex_jobs st))"
    using launched snd_set_update by metis
  then show ?thesis
    using launched(1,7,9) by (intro exec_ok_step [OF ok j, of st' "[args]"]) simp_all
qed

lemma complete_task_ok:
  assumes ok: "exec_ok st"
  shows "exec_ok (complete_task t r st)"
proof (cases "map_of (ex_jobs st) (et_id t)")
  case None
  then show ?thesis using ok by (simp add: exec_ok_def complete_task_def)
next
  case (Some job)
  have "ej_args job \<in> set (ex_launched st)"
    using ok map_of_in_snd [OF Some] unfolding exec_ok_def by blast
  then have "ej_args (finish_job (ex_secs st) r job) \<in> set (ex_launched st)" by simp
  moreover have "snd ` set (ex_jobs (complete_task t r st)) \<subseteq>
      insert (finish_job (ex_secs st) r job) (snd ` set (ex_jobs st))"
    using Some snd_set_update by (simp add: complete_task_def)
  moreover have "ex_launched (complete_task t r st) = ex_launched st" by (simp add: complete_task_def)
  ultimately show ?thesis
    by (intro exec_ok_step [OF ok finish_job_ok, of "ex_secs st" r job _ "[]"]) simp_all
qed

lemma exec_ok_frame:
  "exec_ok st \<Longrightarrow> exec_ok (st\<lparr>ex_fs := f, ex_secs := s, ex_nanos := n\<rparr>)"
  by (simp add: exec_ok_def)

lemma exec_ok_start: "ex_jobs st = [] \<Longrightarrow> ex_launched st = [] \<Longrightarrow> exec_ok st"
  by (simp add: exec_ok_def)

lemma exec_run_ok: "exec_run st \<Longrightarrow> exec_ok st"
proof (induction rule: exec_run.induct)
  case (request st launch args timeout r st')
  then show ?case using spawn_ok unfolding exec_spawn_def by blast
qed (simp_all only: exec_ok_start complete_task_ok exec_ok_frame)

text \<open>
  C24: However the requests, the completions and the operator's changes interleave, every child the
  exec bridge ever launches has an allowlisted subcommand, never a deploy or a cutover, every
  registered job stands for such a child, and a job shows as running exactly while it has no end time.
\<close>

theorem exec_only_allowlisted:
  assumes "exec_run st"
  shows "(\<forall>args \<in> set (ex_launched st). args \<noteq> [] \<and> hd args \<in> set ALLOWLIST \<and>
            hd args \<notin> {''deploy'', ''cutover'', ''serve'', ''daemon''}) \<and>
    (\<forall>j \<in> snd ` set (ex_jobs st). ej_args j \<in> set (ex_launched st) \<and>
            (ej_status j = Running \<longleftrightarrow> ej_finished_at j = None))"
proof -
  have no: "hd args \<notin> {''deploy'', ''cutover'', ''serve'', ''daemon''}" if "is_allowed (hd args)" for args
    using that by (auto simp: is_allowed_def ALLOWLIST_def)
  have ok: "exec_ok st" by (rule exec_run_ok [OF assms])
  then have "\<forall>args \<in> set (ex_launched st). args \<noteq> [] \<and> is_allowed (hd args)"
    unfolding exec_ok_def args_ok_def by (rule conjunct1)
  moreover have "\<forall>j \<in> snd ` set (ex_jobs st). job_ok j \<and> ej_args j \<in> set (ex_launched st)"
    using ok unfolding exec_ok_def by (rule conjunct2)
  ultimately show ?thesis using no unfolding job_ok_def is_allowed_def by metis
qed

definition exec_sample :: exec_state where
  "exec_sample = \<lparr>ex_fs = put_file MCP_EXEC_TOGGLE ''1'' empty_fs, ex_jobs = [], ex_tasks = [],
     ex_launched = [], ex_secs = 7, ex_nanos = 255\<rparr>"

definition exec_sample_run :: "(exec_error + exec_job) \<times> exec_state" where
  "exec_sample_run = exec_spawn (\<lambda>_. Some (Some 42)) [''build'', ''apps''] 60 exec_sample"

lemma exec_sample_launched: "ex_launched (snd exec_sample_run) = [[''build'', ''apps'']]"
  by code_simp

lemma exec_only_allowlisted_witness:
  "ex_launched (snd exec_sample_run) = [[''build'', ''apps'']] \<and>
   hd [''build'', ''apps''] \<in> set ALLOWLIST"
proof -
  have run: "exec_spawn (\<lambda>_. Some (Some 42)) [''build'', ''apps''] 60 exec_sample =
      (fst exec_sample_run, snd exec_sample_run)" by (simp add: exec_sample_run_def)
  have "exec_run exec_sample" by (rule exec_run.start) (simp_all add: exec_sample_def)
  then have "exec_run (snd exec_sample_run)" using run by (rule exec_run.request)
  from exec_only_allowlisted [OF this] exec_sample_launched show ?thesis by simp
qed

text \<open>
  With the toggle file absent a spawn request is refused before anything else happens, whatever
  its arguments: no file is written, no job registered and no child started.
\<close>

theorem exec_needs_toggle:
  assumes "\<not> path_exists (ex_fs st) MCP_EXEC_TOGGLE"
  shows "exec_spawn launch args timeout st = (Inl ExecDisabled, st)"
  using assms by (simp add: exec_spawn_def spawn_with_def toggle_enabled_at_def)

lemma exec_needs_toggle_witness:
  "exec_spawn (\<lambda>_. Some None) [''build''] 0 (exec_sample\<lparr>ex_fs := empty_fs\<rparr>) =
     (Inl ExecDisabled, exec_sample\<lparr>ex_fs := empty_fs\<rparr>)"
  by (rule exec_needs_toggle) (simp, code_simp)

end
