(* ===== verification/Diagnose.thy ===== *)
theory Diagnose
  imports Caddy Reference_Engine
begin

text \<open>
  \<^verbatim>\<open>diagnose.rs\<close>: the cross-check of the state files, the containers, the routes and the pending
  previews, the report with its counters and the rendering of that report for the terminal.
\<close>

section \<open>The report\<close>

datatype severity = SevOk | SevMismatch | SevDead | SevStale | SevInfo

record service_issue =
  si_service :: string
  si_severity :: severity
  si_state_color :: string
  si_running_color :: "string option"
  si_running_container :: "string option"
  si_image :: "string option"
  si_fix :: "string list"

record route_issue =
  ri_subdomain :: string
  ri_host_port :: u16
  ri_listening :: bool
  ri_fix :: "string list"

record preview_issue =
  pi_service :: string
  pi_sha :: string
  pi_color :: string
  pi_fix :: "string list"

record diagnose_report =
  dr_services :: "service_issue list"
  dr_routes :: "route_issue list"
  dr_previews :: "preview_issue list"
  dr_all_healthy :: bool
  dr_issue_count :: nat

definition pad_right :: "nat \<Rightarrow> string \<Rightarrow> string" where
  "pad_right n s = s @ replicate (n - length s) (CHR '' '')"

definition severity_tag :: "severity \<Rightarrow> string" where
  "severity_tag s =
     (case s of SevOk \<Rightarrow> ''OK'' | SevMismatch \<Rightarrow> ''MISMATCH'' | SevDead \<Rightarrow> ''DEAD''
      | SevStale \<Rightarrow> ''STALE'' | SevInfo \<Rightarrow> ''INFO'')"

definition format_service :: "service_issue \<Rightarrow> string" where
  "format_service svc =
     (let label = ''['' @ si_service svc @ '']''
      in label @ '' '' @ pad_right 8 (severity_tag (si_severity svc)) @ '' state='' @ si_state_color svc @
         (case si_running_color svc of Some c \<Rightarrow> ''  running='' @ c | None \<Rightarrow> []) @
         (case si_running_container svc of Some n \<Rightarrow> ''  container='' @ n | None \<Rightarrow> []) @
         (case si_image svc of Some i \<Rightarrow> [newline] @ label @ ''   image   '' @ i | None \<Rightarrow> []) @
         concat (map (\<lambda>x. [newline] @ label @ ''   fix     '' @ x) (si_fix svc)) @ [newline])"

definition right_arrow :: string where
  "right_arrow = [CHR 0xE2, CHR 0x86, CHR 0x92]"

definition format_route :: "route_issue \<Rightarrow> string" where
  "format_route r =
     ''[routes] '' @ pad_right 40 (ri_subdomain r) @ '' '' @ right_arrow @ '' :'' @
       show_u16 (ri_host_port r) @ ''  NO LISTENER'' @ [newline, newline] @
     concat (map (\<lambda>x. ''[routes]   fix     '' @ x @ [newline, newline]) (ri_fix r))"

definition format_preview :: "preview_issue \<Rightarrow> string" where
  "format_preview p =
     ''[previews] '' @ pad_right 12 (pi_service p) @ '' sha='' @ pi_sha p @ '' color='' @ pi_color p @
       [newline, newline] @
     concat (map (\<lambda>x. ''[previews]   '' @ x @ [newline, newline]) (pi_fix p))"

definition format_human :: "diagnose_report \<Rightarrow> string" where
  "format_human rep =
     concat (map format_service (dr_services rep)) @ concat (map format_route (dr_routes rep)) @
     concat (map format_preview (dr_previews rep)) @
     (if dr_all_healthy rep then [newline] @ ''All healthy. No issues found.'' @ [newline]
      else [newline] @ show_nat (dr_issue_count rep) @ '' issue(s) found.'' @ [newline, newline] @
           ''Run with --json for machine-readable output.'' @ [newline])"

section \<open>Classification\<close>

definition classify_service :: "color \<Rightarrow> color list \<Rightarrow> severity" where
  "classify_service state_color running =
     (case running of
        [] \<Rightarrow> SevDead
      | [c] \<Rightarrow> if c = state_color then SevOk else SevMismatch
      | _ \<Rightarrow> SevInfo)"

definition service_fix :: "string \<Rightarrow> severity \<Rightarrow> string list" where
  "service_fix service s =
     (case s of
        SevOk \<Rightarrow> [] | SevInfo \<Rightarrow> []
      | SevMismatch \<Rightarrow> [''codery-ci cutover '' @ service]
      | SevDead \<Rightarrow>
          [''restart_service service='' @ [quote1] @ service @ [quote1] @ ''  # via MCP'',
           ''codery-ci deploy '' @ service @ '' <sha>      # full deploy'']
      | SevStale \<Rightarrow> [''codery-ci cutover '' @ service, ''codery-ci cancel-preview '' @ service])"

definition em_dash :: string where
  "em_dash = [CHR 0xE2, CHR 0x80, CHR 0x94]"

definition route_fix :: "string \<Rightarrow> string \<Rightarrow> string list" where
  "route_fix subdomain service =
     (if service = ''host''
      then [''# host-layer route '' @ subdomain @ '' '' @ em_dash @ '' check supervisord (run_preflight)'']
      else [''codery-ci cutover '' @ service])"

section \<open>Listening ports\<close>

definition field_port :: "string \<Rightarrow> u16 option" where
  "field_port field =
     (case rcut_at (CHR '':'') field of None \<Rightarrow> None | Some (_, port) \<Rightarrow> parse_u16 port)"

definition parse_listening_ports :: "string \<Rightarrow> u16 set" where
  "parse_listening_ports ss_output =
     set (concat (map (\<lambda>line. List.map_filter field_port (split_whitespace line))
       (drop 1 (lines ss_output))))"

definition route_host_port :: "yaml_parser \<Rightarrow> fs \<Rightarrow> string \<Rightarrow> u16 \<Rightarrow> color \<Rightarrow> u16" where
  "route_host_port yaml f target container_port state_color =
     (if target = ''host'' then container_port
      else if target = ''paseo''
      then container_port + (case state_color of Blue \<Rightarrow> 10000 | Green \<Rightarrow> 20000)
      else case load_def yaml f target of
             Inr def \<Rightarrow> host_port (sd_port_scheme def) state_color container_port
           | Inl _ \<Rightarrow> container_port)"

section \<open>The diagnostic run\<close>

record container_state =
  ct_running :: bool
  ct_image :: "string option"

definition inspect_container :: "'e platform \<Rightarrow> string \<Rightarrow> ('e world, container_state option) io" where
  "inspect_container K name =
     io_bind (dk_call (pf_inspect K name)) (\<lambda>r. io_return
       (case r of
          Inl _ \<Rightarrow> None
        | Inr i \<Rightarrow> Some \<lparr>ct_running = running_flag r,
            ct_image = (case ci_image i of Some s \<Rightarrow> if s = [] then None else Some s | None \<Rightarrow> None)\<rparr>))"

definition up_color :: "color \<Rightarrow> container_state option \<Rightarrow> color list" where
  "up_color c s = (case s of Some t \<Rightarrow> if ct_running t then [c] else [] | None \<Rightarrow> [])"

text \<open>The entry of one service, from its state color and what the engine says of its containers.\<close>

definition issue_of ::
  "preview_record list \<Rightarrow> string \<Rightarrow> color \<Rightarrow> container_state option \<Rightarrow> container_state option \<Rightarrow>
   service_issue" where
  "issue_of previews service state_color blue_state green_state =
     (let running_colors = up_color Blue blue_state @ up_color Green green_state;
          sev = (if \<exists>p \<in> set previews. pv_service p = service then SevStale
                 else classify_service state_color running_colors);
          found = (if sev \<in> {SevOk, SevMismatch}
                   then (Some (container_name service (hd running_colors)),
                         Option.bind (if hd running_colors = Blue then blue_state else green_state) ct_image)
                   else (None, None))
      in \<lparr>si_service = service, si_severity = sev, si_state_color = color_str state_color,
          si_running_color = (case running_colors of [] \<Rightarrow> None | c # _ \<Rightarrow> Some (color_str c)),
          si_running_container = fst found, si_image = snd found, si_fix = service_fix service sev\<rparr>)"

definition state_color_of :: "fs \<Rightarrow> string \<Rightarrow> color" where
  "state_color_of f service = (case read_active service f of Inr c \<Rightarrow> c | Inl _ \<Rightarrow> Blue)"

definition diagnose_service ::
  "'e platform \<Rightarrow> preview_record list \<Rightarrow> service_def \<Rightarrow> ('e world, service_issue) io" where
  "diagnose_service K previews def =
     (let service = sd_service def
      in io_bind (io_read (\<lambda>w. state_color_of (w_fs w) service)) (\<lambda>state_color.
         io_bind (inspect_container K (container_name service Blue)) (\<lambda>blue_state.
         io_bind (inspect_container K (container_name service Green)) (\<lambda>green_state.
         io_return (issue_of previews service state_color blue_state green_state)))))"

definition diagnose_route ::
  "yaml_parser \<Rightarrow> fs \<Rightarrow> (string \<Rightarrow> color option) \<Rightarrow> string \<Rightarrow> u16 set \<Rightarrow> unified_route \<Rightarrow> route_issue option" where
  "diagnose_route yaml f colors domain listening r =
     (let color = (case colors (ur_target r) of Some c \<Rightarrow> c | None \<Rightarrow> Blue);
          port = route_host_port yaml f (ur_target r) (ur_port r) color
      in if port \<in> listening then None
         else Some \<lparr>ri_subdomain = route_fqdn (ur_subdomain r) domain, ri_host_port = port,
                    ri_listening = False, ri_fix = route_fix (ur_subdomain r) (ur_target r)\<rparr>)"

definition diagnose_preview :: "preview_record \<Rightarrow> preview_issue" where
  "diagnose_preview p =
     \<lparr>pi_service = pv_service p, pi_sha = pv_sha p, pi_color = pv_color p,
      pi_fix = [''codery-ci cutover '' @ pv_service p, ''codery-ci cancel-preview '' @ pv_service p]\<rparr>"

definition make_report ::
  "service_issue list \<Rightarrow> route_issue list \<Rightarrow> preview_issue list \<Rightarrow> diagnose_report" where
  "make_report services routes previews =
     (let svc_unhealthy = (\<exists>s \<in> set services. si_severity s \<in> {SevMismatch, SevDead, SevStale})
      in \<lparr>dr_services = services, dr_routes = routes, dr_previews = previews,
          dr_all_healthy = (\<not> svc_unhealthy \<and> routes = [] \<and> previews = []),
          dr_issue_count = length (filter (\<lambda>s. si_severity s \<notin> {SevOk, SevInfo}) services) +
            length routes + length previews\<rparr>)"

definition shell_ss :: "'e platform \<Rightarrow> ('e world, string option) io" where
  "shell_ss K =
     io_bind (spawn K [''ss'', ''-tlnp''] []) (\<lambda>out. io_return
       (case out of
          None \<Rightarrow> None
        | Some r \<Rightarrow> Some (if so_stdout r = [] \<and> so_stderr r \<noteq> [] then so_stderr r else so_stdout r)))"

definition diagnose_run :: "'e platform \<Rightarrow> ('e world, diagnose_report) io" where
  "diagnose_run K =
     io_bind (read_fs (load_all_defs (pf_yaml_service K))) (\<lambda>defs.
     io_then (docker_connect K)
    (io_then db_open
    (io_bind (read_db list_previews) (\<lambda>previews.
     io_bind (io_read (\<lambda>w. active_colors (w_fs w) defs)) (\<lambda>colors.
     io_bind (io_map (diagnose_service K previews) defs) (\<lambda>services.
     io_bind (\<lambda>w. (build_route_map (pf_yaml_service K) (pf_yaml_routes K) (w_fs w) (w_db w), w)) (\<lambda>unified.
     io_bind (shell_ss K) (\<lambda>out.
     io_bind (io_read (\<lambda>w. List.map_filter
         (diagnose_route (pf_yaml_service K) (w_fs w) colors (load_domain (w_fs w))
            (parse_listening_ports (case out of Some s \<Rightarrow> s | None \<Rightarrow> []))) unified)) (\<lambda>routes.
     io_return (make_report services routes (map diagnose_preview previews)))))))))))"

section \<open>Facts\<close>

lemma classify_cases:
  "classify_service c rs = SevOk \<longleftrightarrow> rs = [c]"
  "classify_service c rs = SevMismatch \<longleftrightarrow> (\<exists>d. rs = [d] \<and> d \<noteq> c)"
  "classify_service c rs \<noteq> SevStale"
  by (auto simp: classify_service_def split: list.splits)

lemma color_str_inject [simp]: "color_str c = color_str d \<longleftrightarrow> c = d"
  by (cases c; cases d) (simp_all add: color_str_def)

text \<open>What the severity of an entry says about its two colors.\<close>

definition issue_ok :: "service_issue \<Rightarrow> bool" where
  "issue_ok i \<longleftrightarrow>
     (si_severity i = SevOk \<longrightarrow> si_running_color i = Some (si_state_color i)) \<and>
     (si_severity i = SevMismatch \<longrightarrow> (\<exists>c. si_running_color i = Some c \<and> c \<noteq> si_state_color i)) \<and>
     (si_severity i = SevDead \<longrightarrow> si_running_color i = None) \<and>
     (si_fix i = [] \<longleftrightarrow> si_severity i \<in> {SevOk, SevInfo})"

lemma issue_of_ok: "issue_ok (issue_of previews service c b g)"
proof -
  let ?rs = "up_color Blue b @ up_color Green g"
  have "classify_service c ?rs = SevDead \<longleftrightarrow> ?rs = []"
    by (auto simp: classify_service_def split: list.splits)
  then show ?thesis
    using classify_cases [of c ?rs]
    by (cases "classify_service c ?rs")
      (auto simp: issue_ok_def issue_of_def Let_def service_fix_def split: list.splits)
qed

lemma issue_of_stale:
  "si_severity (issue_of previews service c b g) = SevStale \<longleftrightarrow> (\<exists>p \<in> set previews. pv_service p = service)"
  by (simp add: issue_of_def Let_def classify_cases)

lemma diagnose_service_Inr:
  assumes "diagnose_service K previews def w = (Inr i, w')"
  shows "issue_ok i \<and> si_service i = sd_service def \<and>
    (si_severity i = SevStale \<longleftrightarrow> (\<exists>p \<in> set previews. pv_service p = sd_service def))"
proof -
  obtain c b g where "i = issue_of previews (sd_service def) c b g"
    using assms by (auto simp: diagnose_service_def Let_def io_Inr_iffs)
  then show ?thesis using issue_of_ok issue_of_stale by (simp add: issue_of_def Let_def)
qed

lemma diagnose_route_silent: "diagnose_route y f colors domain ls r = Some i \<Longrightarrow> \<not> ri_listening i"
  by (auto simp: diagnose_route_def Let_def split: if_splits)

lemma make_report_healthy:
  "dr_all_healthy (make_report ss rs ps) \<longleftrightarrow> dr_issue_count (make_report ss rs ps) = 0"
proof -
  have "s \<in> {SevMismatch, SevDead, SevStale} \<longleftrightarrow> s \<notin> {SevOk, SevInfo}" for s by (cases s) auto
  then show ?thesis by (auto simp: make_report_def Let_def filter_empty_conv)
qed



text \<open>
  The port that the diagnosis probes for a route is the port Caddy forwards it to, with one
  exception: for a route to apps, Caddy adds offsets that are fixed in its code while the diagnosis
  adds those of the YAML declaration, so the two agree exactly when these are the same.
\<close>

theorem diagnose_probes_caddy_port:
  "route_host_port yaml f (ur_target r) (ur_port r)
       (case colors (ur_target r) of Some c \<Rightarrow> c | None \<Rightarrow> Blue) = upstream_port yaml f colors r
   \<longleftrightarrow>
   \<not> (ur_target r = ''apps'' \<and>
      (case load_def yaml f ''apps'' of
         Inl _ \<Rightarrow> 0
       | Inr def \<Rightarrow> offset_of (sd_port_scheme def) (case colors ''apps'' of Some c \<Rightarrow> c | None \<Rightarrow> Blue)) \<noteq>
      (case colors ''apps'' of Some Green \<Rightarrow> 10000 | _ \<Rightarrow> (0 :: u16)))"
proof -
  have *: "p + a = p + b \<longleftrightarrow> a = b" "p = p + b \<longleftrightarrow> b = 0" for p a b :: u16 by auto
  show ?thesis
    by (auto simp: route_host_port_def upstream_port_def paseo_host_port_def host_port_alt Let_def *
        split: option.splits sum.splits color.splits)
qed

section \<open>Reading the listener table\<close>

text \<open>A row of the listener table as \<^verbatim>\<open>ss -tlnp\<close> prints it: state, queues, address and port, peer.\<close>

record listener =
  ls_columns :: "string list"
  ls_addr :: string
  ls_port :: u16
  ls_peer :: string

definition ss_row :: "listener \<Rightarrow> string" where
  "ss_row l = concat (map (\<lambda>c. c @ '' '') (ls_columns l)) @ ls_addr l @ '':'' @ show_u16 (ls_port l) @
     '' '' @ ls_peer l"

definition plain_column :: "string \<Rightarrow> bool" where
  "plain_column c \<longleftrightarrow> c \<noteq> [] \<and> (\<forall>x \<in> set c. \<not> is_space x) \<and> field_port c = None"

definition listener_ok :: "listener \<Rightarrow> bool" where
  "listener_ok l \<longleftrightarrow> (\<forall>c \<in> set (ls_columns l). plain_column c) \<and>
     (\<forall>x \<in> set (ls_addr l). \<not> is_space x) \<and> plain_column (ls_peer l)"

lemma rcut_at_append: "c \<notin> set n \<Longrightarrow> rcut_at c (d @ c # n) = Some (d, n)"
  by (simp add: rcut_at_def)

lemma colon_not_digit: "CHR '':'' \<notin> set (show_nat n)"
  using show_nat_digits [of "CHR '':''" n] by (auto simp: is_digit_def)

lemma field_port_address: "field_port (a @ '':'' @ show_u16 p) = Some p"
proof -
  have "rcut_at (CHR '':'') (a @ CHR '':'' # show_u16 p) = Some (a, show_u16 p)"
    by (rule rcut_at_append) (simp add: show_u16_def colon_not_digit)
  then show ?thesis by (simp add: field_port_def parse_u16_show_u16)
qed

lemma words_columns:
  "\<forall>c \<in> set cs. plain_column c \<Longrightarrow>
   split_whitespace (concat (map (\<lambda>c. c @ '' '') cs) @ rest) = cs @ split_whitespace rest"
  by (induction cs) (auto simp: plain_column_def split_whitespace_word(1))

lemma colon_visible: "\<not> is_space (CHR '':'')"
  by (simp add: is_space_def)

lemma ss_row_ports:
  assumes "listener_ok l"
  shows "List.map_filter field_port (split_whitespace (ss_row l)) = [ls_port l]"
proof -
  let ?local = "ls_addr l @ '':'' @ show_u16 (ls_port l)"
  have none: "List.map_filter field_port (ls_columns l) = []" "field_port (ls_peer l) = None"
    using assms by (auto simp: listener_ok_def plain_column_def List.map_filter_def filter_empty_conv)
  have "\<forall>x \<in> set ?local. \<not> is_space x"
    using assms show_nat_no_space [of "unat (ls_port l)"] colon_visible
    by (simp add: listener_ok_def show_u16_def ball_Un)
  then have "split_whitespace (?local @ CHR '' '' # ls_peer l) = ?local # split_whitespace (ls_peer l)"
    by (rule split_whitespace_word(1)) simp
  moreover have "split_whitespace (ls_peer l) = [ls_peer l]"
    using assms by (intro split_whitespace_word(2)) (simp_all add: listener_ok_def plain_column_def)
  moreover have "split_whitespace (ss_row l) =
      ls_columns l @ split_whitespace (?local @ CHR '' '' # ls_peer l)"
    using words_columns [of "ls_columns l" "?local @ CHR '' '' # ls_peer l"] assms
    by (simp add: ss_row_def listener_ok_def)
  ultimately have "split_whitespace (ss_row l) = ls_columns l @ [?local, ls_peer l]" by simp
  then show ?thesis
    using none field_port_address [of "ls_addr l" "ls_port l"] by (simp add: List.map_filter_def)
qed

text \<open>
  From a listener table of one header line and well-formed rows the diagnosis reads exactly the
  ports of the local addresses, whatever the other columns hold.
\<close>

theorem parse_listening_ports_rows:
  assumes "\<forall>l \<in> set rows. listener_ok l" and "\<forall>t \<in> set (header # map ss_row rows). newline \<notin> set t \<and> carriage \<notin> set t"
  shows "parse_listening_ports (concat (map (\<lambda>t. t @ [newline]) (header # map ss_row rows))) =
    ls_port ` set rows"
proof -
  have "lines (concat (map (\<lambda>t. t @ [newline]) (header # map ss_row rows))) = header # map ss_row rows"
    by (rule lines_unlines [OF assms(2)])
  then have "parse_listening_ports (concat (map (\<lambda>t. t @ [newline]) (header # map ss_row rows))) =
      set (concat (map (\<lambda>l. List.map_filter field_port (split_whitespace (ss_row l))) rows))"
    by (simp add: parse_listening_ports_def o_def)
  also have "\<dots> = (\<Union>l \<in> set rows. {ls_port l})"
    using assms(1) ss_row_ports by auto
  finally show ?thesis by auto
qed

definition sample_rows :: "listener list" where
  "sample_rows =
     [\<lparr>ls_columns = [''LISTEN'', ''0'', ''4096''], ls_addr = ''0.0.0.0'', ls_port = 13000, ls_peer = ''0.0.0.0:*''\<rparr>,
      \<lparr>ls_columns = [''LISTEN'', ''0'', ''4096''], ls_addr = ''[::]'', ls_port = 8080, ls_peer = ''[::]:*''\<rparr>]"

lemma parse_listening_ports_rows_witness:
  "parse_listening_ports (concat (map (\<lambda>t. t @ [newline]) (''State Recv-Q'' # map ss_row sample_rows))) =
     {13000, 8080}"
proof -
  have a: "\<forall>l \<in> set sample_rows. listener_ok l"
    by (simp add: sample_rows_def listener_ok_def plain_column_def field_port_def rcut_at_def split_once_def
        parse_u16_def parse_unsigned_def is_space_def is_digit_def)
  have b: "\<forall>t \<in> set (''State Recv-Q'' # map ss_row sample_rows). newline \<notin> set t \<and> carriage \<notin> set t"
    by (simp add: sample_rows_def ss_row_def show_u16_def show_nat_no_newline)
  show ?thesis using parse_listening_ports_rows [OF a b] by (auto simp: sample_rows_def)
qed

end
