(* ===== verification/Nginx.thy ===== *)
theory Nginx
  imports Caddy Reference_Engine
begin

text \<open>
  \<^verbatim>\<open>nginx.rs\<close>: the server blocks of the apps container, one per runtime app, and the write and
  reload of the configuration.
\<close>

definition quoted :: "string \<Rightarrow> string" where
  "quoted s = [quote2] @ s @ [quote2]"

definition nginx_cache_headers :: string where
  "nginx_cache_headers =
     [newline] @ ''        add_header Cache-Control '' @
       quoted ''no-store, no-cache, must-revalidate, max-age=0'' @ '' always;'' @
     [newline] @ ''        add_header Pragma '' @ quoted ''no-cache'' @ '' always;'' @
     [newline] @ ''        add_header Expires '' @ quoted ''0'' @ '' always;''"

definition server_block :: "string \<Rightarrow> bool \<Rightarrow> u16 \<Rightarrow> string" where
  "server_block fqdn no_cache internal_port =
     join [newline]
       [''server {'', ''    listen 8080;'', ''    server_name '' @ fqdn @ '';'',
        ''    location / {'' @ (if no_cache then nginx_cache_headers else []),
        ''        proxy_pass http://127.0.0.1:'' @ show_u16 internal_port @ '';'',
        ''        proxy_set_header Host $host;'',
        ''        proxy_set_header X-Real-IP $remote_addr;'',
        ''        proxy_set_header X-Forwarded-For $proxy_add_x_forwarded_for;'',
        ''        proxy_set_header Upgrade $http_upgrade;'',
        ''        proxy_set_header Connection $connection_upgrade;'',
        ''    }'', ''}'', []]"

definition nginx_block :: "string \<Rightarrow> unified_route \<Rightarrow> string option" where
  "nginx_block domain r =
     (case ur_internal_port r of
        None \<Rightarrow> None
      | Some p \<Rightarrow>
          if ur_target r \<noteq> ''apps'' then None
          else Some (server_block (route_fqdn (ur_subdomain r) domain) (ur_no_cache r) p))"

definition nginx_fallback :: "string \<Rightarrow> string" where
  "nginx_fallback answer =
     ''server {'' @ [newline] @ ''    listen 8080 default_server;'' @ [newline] @
     ''    return '' @ answer @ '';'' @ [newline] @ ''}'' @ [newline]"

definition generate_config :: "unified_route list \<Rightarrow> string \<Rightarrow> string" where
  "generate_config routes domain =
     (let blocks = List.map_filter (nginx_block domain) routes
      in if blocks = [] then [] else join [newline] blocks @ [newline] @ nginx_fallback ''404'')"

definition nginx_text :: "unified_route list \<Rightarrow> string \<Rightarrow> string" where
  "nginx_text routes domain =
     (let content = generate_config routes domain
      in if content = [] then nginx_fallback (''503 '' @ quoted ''No apps configured'') else content)"

definition reload_in_active_container :: "'e platform \<Rightarrow> ('e world, unit) io" where
  "reload_in_active_container K =
     io_bind (io_read (\<lambda>w. read_active ''apps'' (w_fs w))) (\<lambda>active.
       case active of
         Inl _ \<Rightarrow> io_return ()
       | Inr c \<Rightarrow>
           (let container = container_name ''apps'' c
            in io_then (docker_connect K)
              (io_bind (dk_call (pf_inspect K container)) (\<lambda>r.
                 if \<not> running_flag r then io_return ()
                 else io_bind (dk_ask container
                        (pf_exec K container [''nginx'', ''-c'', ''/etc/nginx/nginx.conf'', ''-s'', ''reload'']))
                        (\<lambda>_. io_return ())))))"

definition generate_and_reload :: "'e platform \<Rightarrow> ('e world, unit) io" where
  "generate_and_reload K =
     io_then db_open
    (io_bind (\<lambda>w. (build_route_map (pf_yaml_service K) (pf_yaml_routes K) (w_fs w) (w_db w), w)) (\<lambda>routes.
     io_bind (io_read (\<lambda>w. nginx_text routes (load_domain (w_fs w)))) (\<lambda>text.
     io_then (on_fs (create_dir_all (parent_dir NGINX_CONFIG)))
    (io_then (on_fs (write_text NGINX_CONFIG text)) (reload_in_active_container K)))))"

section \<open>Facts\<close>

lemma map_filter_set: "set (List.map_filter f xs) = {y. \<exists>x \<in> set xs. f x = Some y}"
  by (force simp: List.map_filter_def image_iff)

lemma join_contains: "b \<in> set bs \<Longrightarrow> \<exists>x y. join sep bs = x @ b @ y"
proof (induction sep bs rule: join.induct)
  case (2 sep x)
  then show ?case by (metis append_Nil append_Nil2 empty_iff empty_set join.simps(2) set_ConsD)
next
  case (3 sep x y ys)
  show ?case
  proof (cases "b = x")
    case True
    then show ?thesis by (metis append_Nil join.simps(3))
  next
    case False
    with 3 obtain u v where "join sep (y # ys) = u @ b @ v" by auto
    then have "join sep (x # y # ys) = (x @ sep @ u) @ b @ v" by simp
    then show ?thesis by blast
  qed
qed simp

text \<open>The route of an app that no preview shadows is in the merged table.\<close>

lemma unshadowed_app_routed:
  assumes "build_route_map yaml ryaml f d = Inr routes" and "db_reach d" and "a \<in> set (db_apps d)"
    and "\<forall>p \<in> set (db_previews d). pv_subdomain p \<noteq> ar_subdomain a"
  shows "app_to_route a \<in> set routes"
proof -
  obtain defs apps previews where l: "list_apps d = Inr apps" "list_previews d = Inr previews"
    "pick (ar_subdomain a) routes = layered_route defs
       (case load_static_routes ryaml f of Inl _ \<Rightarrow> default_static_routes | Inr rs \<Rightarrow> rs) apps previews
       (ar_subdomain a)"
    using build_route_map_spec [OF assms(1)] by blast
  have sets: "set apps = set (db_apps d)" "set previews = set (db_previews d)"
    using l(1,2) by (auto simp: list_apps_def list_previews_def split: if_splits)
  have "distinct (map ar_subdomain apps)"
  proof -
    have "mset (map ar_subdomain apps) = mset (map ar_subdomain (db_apps d))"
      using l(1) by (auto simp: list_apps_def simp del: mset_map split: if_splits simp add: mset_map)
    then show ?thesis
      using db_reach_valid [OF assms(2)] mset_eq_imp_distinct_iff unfolding db_valid_def by metis
  qed
  moreover have "map ur_subdomain (rev (map app_to_route apps)) = rev (map ar_subdomain apps)"
    by (simp add: rev_map app_to_route_def comp_def)
  ultimately have dist: "distinct (map ur_subdomain (rev (map app_to_route apps)))" by simp
  have "app_to_route a \<in> set (rev (map app_to_route apps))" using assms(3) sets(1) by simp
  moreover have "ur_subdomain (app_to_route a) = ar_subdomain a" by (simp add: app_to_route_def)
  ultimately have app: "pick (ar_subdomain a) (rev (map app_to_route apps)) = Some (app_to_route a)"
    using pick_unique [OF dist] by blast
  have "pick (ar_subdomain a) (rev (map preview_to_route previews)) = None"
    unfolding pick_None using assms(4) sets(2) by (simp add: preview_to_route_def)
  with app l(3) have "pick (ar_subdomain a) routes = Some (app_to_route a)"
    by (simp add: layered_route_def)
  then show ?thesis by (rule pick_in)
qed

section \<open>Correctness\<close>

text \<open>
  C23: Every runtime app of the database that no preview shadows has its server block, with its own
  host name and internal port, in the generated nginx configuration.
\<close>

theorem nginx_serves_every_app:
  assumes "build_route_map yaml ryaml f d = Inr routes" and "db_reach d" and "a \<in> set (db_apps d)"
    and "\<forall>p \<in> set (db_previews d). pv_subdomain p \<noteq> ar_subdomain a"
  shows "\<exists>x y. nginx_text routes domain =
    x @ server_block (route_fqdn (ar_subdomain a) domain) (ar_no_cache a) (ar_internal_port a) @ y"
proof -
  have "app_to_route a \<in> set routes" by (rule unshadowed_app_routed [OF assms])
  moreover have "nginx_block domain (app_to_route a) =
      Some (server_block (route_fqdn (ar_subdomain a) domain) (ar_no_cache a) (ar_internal_port a))"
    by (simp add: nginx_block_def app_to_route_def)
  ultimately have b: "server_block (route_fqdn (ar_subdomain a) domain) (ar_no_cache a) (ar_internal_port a)
      \<in> set (List.map_filter (nginx_block domain) routes)"
    unfolding map_filter_set by blast
  then obtain x y where "join [newline] (List.map_filter (nginx_block domain) routes) =
      x @ server_block (route_fqdn (ar_subdomain a) domain) (ar_no_cache a) (ar_internal_port a) @ y"
    using join_contains by metis
  moreover have "List.map_filter (nginx_block domain) routes \<noteq> []" using b by (metis empty_iff empty_set)
  ultimately have "nginx_text routes domain = x @
      server_block (route_fqdn (ar_subdomain a) domain) (ar_no_cache a) (ar_internal_port a) @
      y @ [newline] @ nginx_fallback ''404''"
    by (simp add: nginx_text_def generate_config_def nginx_fallback_def)
  then show ?thesis by metis
qed

lemma nginx_serves_every_app_witness:
  "\<exists>routes x y. build_route_map (\<lambda>_. None) (\<lambda>_. None) empty_fs (sample_db\<lparr>db_previews := []\<rparr>) = Inr routes \<and>
     nginx_text routes ''codery.dev'' = x @ server_block ''web.codery.dev'' False 3000 @ y"
proof -
  let ?d = "sample_db\<lparr>db_previews := []\<rparr>"
  have "delete_preview ''apps'' sample_db = (Inr True, ?d)"
    by (simp add: delete_preview_def db_guard_def sample_db_def sample_preview_def)
  with sample_db_reach have reach: "db_reach ?d" by (rule db_reach.drop_preview)
  have "load_all_defs (\<lambda>_. None) empty_fs = Inr []" "load_static_routes (\<lambda>_. None) empty_fs = Inr []"
    by (simp_all add: load_all_defs_def load_static_routes_def SERVICES_DIR_def ROUTES_YAML_def)
  then obtain routes where r: "build_route_map (\<lambda>_. None) (\<lambda>_. None) empty_fs ?d = Inr routes"
    by (auto simp: build_route_map_def list_apps_def list_previews_def sample_db_def)
  have a: "sample_app \<in> set (db_apps ?d)" "\<forall>p \<in> set (db_previews ?d). pv_subdomain p \<noteq> ar_subdomain sample_app"
    by (simp_all add: sample_db_def)
  have "route_fqdn (ar_subdomain sample_app) ''codery.dev'' = ''web.codery.dev''"
    "ar_no_cache sample_app = False" "ar_internal_port sample_app = 3000"
    by (simp_all add: route_fqdn_def sample_app_def)
  with nginx_serves_every_app [OF r reach a, of "''codery.dev''"] r show ?thesis by metis
qed

end
