(* ===== verification/S6.thy ===== *)
theory S6
  imports Prelude
begin

text \<open>
  \<^verbatim>\<open>s6.rs\<close>: the service list that s6-overlay reserves for itself, the shell line that prints one
  status line per supervised service, and the parser of its output.
\<close>

definition S6_INTERNAL_SERVICES :: "string list" where
  "S6_INTERNAL_SERVICES =
     [''s6-linux-init-shutdownd'', ''s6rc-fdholder'', ''s6rc-oneshot-runner'']"

definition svstat_batch_cmd :: string where
  "svstat_batch_cmd =
     (let skip = join ''|'' S6_INTERNAL_SERVICES
      in ''for d in /run/service/*/; do n=$(basename '' @ [quote2] @ ''$d'' @ [quote2] @
         ''); case '' @ [quote2] @ ''$n'' @ [quote2] @ '' in '' @ skip @ '') continue;; esac; echo '' @
         [quote2] @ ''$n|$(/command/s6-svstat -o up,pid,updownfor '' @ [quote2] @ ''$d'' @ [quote2] @
         '')'' @ [quote2] @ ''; done'')"

record svc_stat =
  st_name :: string
  st_up :: bool
  st_pid :: int
  st_uptime :: nat

definition parse_svstat_line :: "string \<Rightarrow> svc_stat option" where
  "parse_svstat_line line =
     (case split_once (CHR ''|'') line of
        None \<Rightarrow> None
      | Some (name, rest) \<Rightarrow>
          (if name = [] then None
           else case split_whitespace rest of
                  up # pid # uptime # _ \<Rightarrow>
                    (case (parse_signed (2 ^ 63) pid, parse_unsigned (2 ^ 64) uptime) of
                       (Some p, Some u) \<Rightarrow>
                         Some \<lparr>st_name = name, st_up = (up = ''true''), st_pid = p, st_uptime = u\<rparr>
                     | _ \<Rightarrow> None)
                | _ \<Rightarrow> None))"

definition parse_svstat_batch :: "string \<Rightarrow> svc_stat list" where
  "parse_svstat_batch output = List.map_filter parse_svstat_line (lines output)"

section \<open>Round trip\<close>

text \<open>What the shell line prints for one service, and the statuses it can print.\<close>

definition svstat_line :: "svc_stat \<Rightarrow> string" where
  "svstat_line s =
     st_name s @ ''|'' @ (if st_up s then ''true'' else ''false'') @ '' '' @ show_int (st_pid s) @
     '' '' @ show_nat (st_uptime s)"

definition printable_stat :: "svc_stat \<Rightarrow> bool" where
  "printable_stat s \<longleftrightarrow>
     st_name s \<noteq> [] \<and> CHR ''|'' \<notin> set (st_name s) \<and> newline \<notin> set (st_name s) \<and>
     carriage \<notin> set (st_name s) \<and> - (2 ^ 63) \<le> st_pid s \<and> st_pid s < 2 ^ 63 \<and>
     st_uptime s < 2 ^ 64"

lemma split_svstat_fields:
  "split_whitespace ((if b then ''true'' else ''false'') @ CHR '' '' # show_int p @ CHR '' '' # show_nat u) =
   [if b then ''true'' else ''false'', show_int p, show_nat u]"
  by (subst split_whitespace_word(1), simp add: is_space_def, simp)
    (subst split_whitespace_word(1) [OF show_int_no_space], simp,
     simp add: split_whitespace_word(2) [OF show_nat_no_space])

lemma parse_svstat_line_inverse:
  assumes "printable_stat s"
  shows "parse_svstat_line (svstat_line s) = Some s"
proof -
  have cut: "split_once (CHR ''|'') (svstat_line s) =
      Some (st_name s, (if st_up s then ''true'' else ''false'') @ CHR '' '' # show_int (st_pid s) @
        CHR '' '' # show_nat (st_uptime s))"
    using assms split_once_append [of "CHR ''|''" "st_name s"]
    by (simp add: svstat_line_def printable_stat_def)
  have "parse_signed (2 ^ 63) (show_int (st_pid s)) = Some (st_pid s)"
    by (rule parse_signed_show_int) (use assms in \<open>auto simp: printable_stat_def\<close>)
  moreover have "parse_unsigned (2 ^ 64) (show_nat (st_uptime s)) = Some (st_uptime s)"
    by (rule parse_unsigned_show_nat) (use assms in \<open>simp add: printable_stat_def\<close>)
  ultimately show ?thesis
    using assms unfolding parse_svstat_line_def cut split_svstat_fields option.case prod.case
    by (simp add: printable_stat_def)
qed

lemma svstat_line_no_newline:
  "printable_stat s \<Longrightarrow> newline \<notin> set (svstat_line s) \<and> carriage \<notin> set (svstat_line s)"
  using show_int_no_newline show_nat_no_newline by (auto simp: svstat_line_def printable_stat_def)

lemma map_filter_inverse: "(\<And>x. x \<in> set xs \<Longrightarrow> f (g x) = Some x) \<Longrightarrow> List.map_filter f (map g xs) = xs"
  by (induction xs) (simp_all add: List.map_filter_simps)

text \<open>
  Parsing the status lines that the shell prints for any supervised services, up or down, gives
  back exactly these statuses in order.
\<close>

theorem parse_svstat_batch_inverse:
  assumes "\<forall>s \<in> set stats. printable_stat s"
  shows "parse_svstat_batch (concat (map (\<lambda>s. svstat_line s @ [newline]) stats)) = stats"
proof -
  have "lines (concat (map (\<lambda>l. l @ [newline]) (map svstat_line stats))) = map svstat_line stats"
    using assms svstat_line_no_newline by (intro lines_unlines) auto
  then show ?thesis
    using assms by (simp add: parse_svstat_batch_def comp_def map_filter_inverse parse_svstat_line_inverse)
qed

lemma parse_svstat_batch_inverse_witness:
  "parse_svstat_batch (''web|true 812 40'' @ [newline] @ ''api|false -1 3'' @ [newline]) =
     [\<lparr>st_name = ''web'', st_up = True, st_pid = 812, st_uptime = 40\<rparr>,
      \<lparr>st_name = ''api'', st_up = False, st_pid = -1, st_uptime = 3\<rparr>]"
proof -
  let ?web = "\<lparr>st_name = ''web'', st_up = True, st_pid = 812, st_uptime = 40\<rparr>"
    and ?api = "\<lparr>st_name = ''api'', st_up = False, st_pid = -1, st_uptime = 3\<rparr>"
  have "svstat_line ?web = ''web|true 812 40''" "svstat_line ?api = ''api|false -1 3''" by code_simp+
  moreover have "\<forall>s \<in> set [?web, ?api]. printable_stat s" by (simp add: printable_stat_def)
  ultimately show ?thesis using parse_svstat_batch_inverse [of "[?web, ?api]"] by simp
qed

end
