(* ===== verification/Mcp_Tools.thy ===== *)
theory Mcp_Tools
  imports Deploy_Entry Diagnose Nginx S6
begin

text \<open>
  The part of \<^verbatim>\<open>mcp.rs\<close> below the tool protocol: child processes and commands in the active container,
  and the tools on service declarations, images, routes and status. A tool returns the values its
  JSON answer is made of; the guidance texts of the answers and the serialisation are left out, and
  the message of an error that a tool passes on is the error itself.
\<close>

section \<open>Helpers\<close>

definition shell_text :: "spawn_output \<Rightarrow> string" where
  "shell_text out =
     (let combined =
            (if so_stdout out \<noteq> [] \<and> so_stderr out \<noteq> []
             then so_stdout out @ [newline] @ ''[stderr]'' @ [newline] @ so_stderr out
             else if so_stdout out \<noteq> [] then so_stdout out
             else if so_stderr out \<noteq> [] then so_stderr out else [])
      in if so_success out then combined
         else let code = (case so_code out of Some c \<Rightarrow> c | None \<Rightarrow> - 1)
              in if combined = [] then ''[exited '' @ show_int code @ '']''
                 else ''[exited '' @ show_int code @ '']'' @ [newline] @ combined)"

definition shell_output :: "'e platform \<Rightarrow> string list \<Rightarrow> ('e world, string) io" where
  "shell_output K argv =
     io_bind (spawn K argv []) (\<lambda>out.
       case out of None \<Rightarrow> io_fail (SpawnError ''failed to spawn'') | Some r \<Rightarrow> io_return (shell_text r))"

definition container_exec :: "'e platform \<Rightarrow> string \<Rightarrow> string list \<Rightarrow> ('e world, string) io" where
  "container_exec K service cmd =
     io_bind (read_fs (read_active service)) (\<lambda>c.
       shell_output K ([''docker'', ''exec'', container_name service c] @ cmd))"

definition svc_stats :: "'e platform \<Rightarrow> string \<Rightarrow> ('e world, svc_stat list) io" where
  "svc_stats K service =
     io_bind (container_exec K service [''bash'', ''-c'', svstat_batch_cmd]) (\<lambda>out.
       if starts_with ''[exited'' out then io_fail (ToolError ''s6 status read failed'')
       else io_return (parse_svstat_batch out))"

text \<open>The guard of the tools that take the name of a declared service.\<close>

definition known_service :: "'e platform \<Rightarrow> string \<Rightarrow> ('e world, unit) io" where
  "known_service K service w =
     (case load_def (pf_yaml_service K) (w_fs w) service of
        Inl _ \<Rightarrow> (Inl (ToolError ''unknown service''), w)
      | Inr _ \<Rightarrow> (Inr (), w))"

section \<open>Service names and declarations\<close>

definition validate_service_name :: "string \<Rightarrow> unit res" where
  "validate_service_name name =
     (if name = [] then Inl (ToolError ''service name cannot be empty'')
      else if \<not> (\<forall>c \<in> set name. is_alnum c \<or> c = CHR ''-'' \<or> c = CHR ''_'')
      then Inl (ToolError ''invalid service name'')
      else Inr ())"

definition service_path :: "string \<Rightarrow> string res" where
  "service_path name =
     (case validate_service_name name of
        Inl e \<Rightarrow> Inl e
      | Inr _ \<Rightarrow> Inr (path_join SERVICES_DIR (name @ ''.yml'')))"

definition with_extension :: "string \<Rightarrow> string \<Rightarrow> string" where
  "with_extension p e = path_join (parent_dir p) (fst (stem_ext p) @ ''.'' @ e)"

definition yml_stem :: "string \<Rightarrow> string option" where
  "yml_stem p = (case stem_ext p of (s, Some e) \<Rightarrow> if e = ''yml'' then Some s else None | (_, None) \<Rightarrow> None)"

definition list_services :: "fs \<Rightarrow> string list res" where
  "list_services f =
     (if \<not> path_exists f SERVICES_DIR then Inr []
      else case read_dir SERVICES_DIR f of
             Inl e \<Rightarrow> Inl e
           | Inr entries \<Rightarrow> Inr (sort (List.map_filter yml_stem entries)))"

definition get_service :: "string \<Rightarrow> fs \<Rightarrow> string res" where
  "get_service name f =
     (case service_path name of
        Inl e \<Rightarrow> Inl e
      | Inr path \<Rightarrow> map_sum (\<lambda>_. ToolError ''service not found'') id (read_text f path))"

definition upsert_service :: "yaml_parser \<Rightarrow> string \<Rightarrow> string \<Rightarrow> (fs, unit) io" where
  "upsert_service yaml name text =
     io_then (io_lift (validate_service_name name))
       (case yaml text of
          None \<Rightarrow> io_fail (ParseError ''invalid service YAML'')
        | Some def \<Rightarrow>
            if sd_service def \<noteq> name
            then io_fail (ToolError ''service field in YAML does not match name parameter'')
            else io_then (create_dir_all SERVICES_DIR)
                   (io_bind (io_lift (service_path name)) (\<lambda>path.
                      let tmp = with_extension path ''yml.tmp''
                      in io_then (write_text tmp text) (rename_file tmp path))))"

definition delete_service :: "string \<Rightarrow> (fs, unit) io" where
  "delete_service name =
     io_bind (io_lift (service_path name)) (\<lambda>path f.
       if \<not> path_exists f path then (Inl (ToolError ''service not found''), f)
       else remove_file path f)"

section \<open>Status, images and routes\<close>

record mcp_service_status =
  ss_service :: string
  ss_active_color :: string
  ss_state_file_color :: string
  ss_active_sha :: "string option"
  ss_container :: string
  ss_running :: bool

definition shown_color :: "bool \<Rightarrow> bool \<Rightarrow> color \<Rightarrow> color" where
  "shown_color blue_running green_running recorded =
     (if blue_running \<and> \<not> green_running then Blue
      else if green_running \<and> \<not> blue_running then Green
      else recorded)"

definition service_status_of :: "'e platform \<Rightarrow> service_def \<Rightarrow> ('e world, mcp_service_status) io" where
  "service_status_of K def =
     (let service = sd_service def
      in io_bind (dk_call (pf_inspect K (container_name service Blue))) (\<lambda>blue.
         io_bind (dk_call (pf_inspect K (container_name service Green))) (\<lambda>green.
         io_bind (io_read (\<lambda>w. state_color_of (w_fs w) service)) (\<lambda>recorded.
         io_bind (io_read (\<lambda>w. read_active_sha service (w_fs w))) (\<lambda>sha.
         let c = shown_color (running_flag blue) (running_flag green) recorded
         in io_return \<lparr>ss_service = service, ss_active_color = color_str c,
              ss_state_file_color = color_str recorded, ss_active_sha = sha,
              ss_container = container_name service c,
              ss_running = (running_flag blue \<or> running_flag green)\<rparr>)))))"

definition get_status :: "'e platform \<Rightarrow> ('e world, mcp_service_status list) io" where
  "get_status K =
     io_bind (read_fs (load_all_defs (pf_yaml_service K))) (\<lambda>defs.
       io_then (docker_connect K) (io_map (service_status_of K) defs))"

record route_entry =
  re_subdomain :: string
  re_host_port :: u16
  re_container_port :: "u16 option"
  re_internal_port :: "u16 option"
  re_service :: string
  re_color :: "string option"
  re_healthy :: bool

definition route_entry_of ::
  "yaml_parser \<Rightarrow> fs \<Rightarrow> (string \<Rightarrow> color option) \<Rightarrow> string \<Rightarrow> u16 set \<Rightarrow> unified_route \<Rightarrow> route_entry" where
  "route_entry_of yaml f colors domain listening r =
     (let color = colors (ur_target r);
          c = (case color of Some c \<Rightarrow> c | None \<Rightarrow> Blue);
          port = (if ur_target r = ''host'' then ur_port r
                  else if ur_target r = ''paseo''
                  then ur_port r + (case c of Blue \<Rightarrow> 10000 | Green \<Rightarrow> 20000)
                  else case load_def yaml f (ur_target r) of
                         Inr def \<Rightarrow> host_port (sd_port_scheme def) c (ur_port r)
                       | Inl _ \<Rightarrow> ur_port r)
      in \<lparr>re_subdomain = route_fqdn (ur_subdomain r) domain, re_host_port = port,
          re_container_port = Some (ur_port r), re_internal_port = ur_internal_port r,
          re_service = ur_target r, re_color = map_option color_str color,
          re_healthy = (port \<in> listening)\<rparr>)"

definition get_routes :: "'e platform \<Rightarrow> ('e world, route_entry list) io" where
  "get_routes K =
     io_bind (read_fs (load_all_defs (pf_yaml_service K))) (\<lambda>defs.
     io_bind (io_read (\<lambda>w. load_domain (w_fs w))) (\<lambda>domain.
     io_bind (io_read (\<lambda>w. active_colors (w_fs w) defs)) (\<lambda>colors.
     io_then db_open
    (io_bind (\<lambda>w. (build_route_map (pf_yaml_service K) (pf_yaml_routes K) (w_fs w) (w_db w), w)) (\<lambda>unified.
     io_bind (io_try (shell_output K [''ss'', ''-tlnp''])) (\<lambda>out.
     io_read (\<lambda>w. map (route_entry_of (pf_yaml_service K) (w_fs w) colors domain
       (case out of Inr s \<Rightarrow> parse_listening_ports s | Inl _ \<Rightarrow> {})) unified)))))))"

definition list_images :: "'e platform \<Rightarrow> string \<Rightarrow> ('e world, (local_image \<times> bool) list) io" where
  "list_images K service =
     io_then (known_service K service)
    (io_bind (list_local K service) (\<lambda>imgs.
     io_bind (io_read (\<lambda>w. read_active_sha service (w_fs w))) (\<lambda>active.
     io_return (map (\<lambda>img. (img, active = Some (li_sha img))) imgs))))"

definition rollback_image :: "string option \<Rightarrow> local_image list \<Rightarrow> local_image option" where
  "rollback_image active imgs = find (\<lambda>img. active \<noteq> Some (li_sha img)) imgs"

definition rollback :: "'e platform \<Rightarrow> string \<Rightarrow> ('e world, string) io" where
  "rollback K service =
     io_then (known_service K service)
    (io_bind (io_read (\<lambda>w. read_active_sha service (w_fs w))) (\<lambda>active.
     io_bind (list_local K service) (\<lambda>imgs.
       case rollback_image active imgs of
         None \<Rightarrow> io_fail (ToolError ''no rollback image available'')
       | Some img \<Rightarrow> io_then (deploy_run K service (li_sha img)) (io_return (li_sha img)))))"

definition restart_service :: "'e platform \<Rightarrow> string \<Rightarrow> ('e world, recreate_info) io" where
  "restart_service K service = recreate_active_container K service"

text \<open>Whether the Caddyfile changed is read off the file before and after.\<close>

definition text_or_empty :: "fs \<Rightarrow> string \<Rightarrow> string" where
  "text_or_empty f p = (case read_text f p of Inl _ \<Rightarrow> [] | Inr t \<Rightarrow> t)"

definition reload_routes :: "'e platform \<Rightarrow> ('e world, string) io" where
  "reload_routes K =
     io_bind (io_read (\<lambda>w. text_or_empty (w_fs w) CADDY_CONFIG)) (\<lambda>before.
     io_then (apply_all K)
    (io_then (generate_and_reload K)
    (io_bind (io_read (\<lambda>w. text_or_empty (w_fs w) CADDY_CONFIG)) (\<lambda>now.
     io_return (if before = now then ''unchanged'' else ''changed'')))))"

definition run_check :: "string \<Rightarrow> ('e world, unit) io \<Rightarrow> ('e world, string \<times> unit res) io" where
  "run_check name check = io_bind (io_try check) (\<lambda>r. io_return (name, r))"

definition run_preflight :: "'e platform \<Rightarrow> ('e world, bool \<times> (string \<times> unit res) list) io" where
  "run_preflight K =
     io_bind (run_check ''supervisord'' (check_supervisord K)) (\<lambda>s.
     io_bind (run_check ''tailscale'' (check_tailscale K)) (\<lambda>t.
     io_bind (run_check ''caddy'' (check_caddy K)) (\<lambda>c.
     io_return (\<forall>(_, r) \<in> set [s, t, c]. r = Inr (), [s, t, c]))))"

definition check_port_listening :: "'e platform \<Rightarrow> u16 \<Rightarrow> ('e world, string list) io" where
  "check_port_listening K port =
     io_bind (shell_output K [''ss'', ''-tlnp'']) (\<lambda>raw. io_return
       (let shown = (case lines raw of
                       [] \<Rightarrow> []
                     | header # rows \<Rightarrow> header # filter (contains_str ('':'' @ show_u16 port)) rows)
        in if length shown \<le> 1 then shown @ [''(no listeners found for this port)''] else shown))"

definition get_supervisor_status :: "'e platform \<Rightarrow> string \<Rightarrow> ('e world, string + svc_stat list) io" where
  "get_supervisor_status K service =
     io_bind (io_try (svc_stats K service)) (\<lambda>r.
       case r of
         Inr stats \<Rightarrow> io_return (Inr stats)
       | Inl _ \<Rightarrow> io_bind (container_exec K service [''supervisorctl'', ''status'']) (\<lambda>out. io_return (Inl out)))"

section \<open>Host diagnostics\<close>

definition get_caddyfile :: "fs \<Rightarrow> string res" where
  "get_caddyfile f = read_text f CADDY_CONFIG"

definition get_container_ports :: "'e platform \<Rightarrow> string \<Rightarrow> ('e world, string) io" where
  "get_container_ports K service =
     io_bind (io_read (\<lambda>w. state_color_of (w_fs w) service)) (\<lambda>c.
       shell_output K [''docker'', ''port'', container_name service c])"

definition get_host_supervisor_status :: "'e platform \<Rightarrow> ('e world, string) io" where
  "get_host_supervisor_status K = shell_output K [''supervisorctl'', ''-c'', SUPERVISORD_CONF, ''status'']"

definition get_tailscale_status :: "'e platform \<Rightarrow> ('e world, string) io" where
  "get_tailscale_status K = shell_output K [''tailscale'', ''status'']"

definition get_disk_usage :: "'e platform \<Rightarrow> ('e world, string) io" where
  "get_disk_usage K = shell_output K [''df'', ''-h'', ''/opt/codery'', ''/var/lib/docker'']"

section \<open>Facts on service files\<close>

definition plain_service_name :: "string \<Rightarrow> bool" where
  "plain_service_name n \<longleftrightarrow> n \<noteq> [] \<and> CHR ''/'' \<notin> set n \<and> CHR ''.'' \<notin> set n"

lemma validate_plain: "validate_service_name n = Inr u \<Longrightarrow> plain_service_name n"
  by (auto simp: validate_service_name_def plain_service_name_def is_alnum_def is_digit_def split: if_splits)

lemma service_path_Inr:
  assumes "service_path n = Inr p"
  shows "plain_service_name n \<and> p = SERVICES_DIR @ ''/'' @ n @ ''.yml''"
proof -
  have n: "plain_service_name n" and p: "p = path_join SERVICES_DIR (n @ ''.yml'')"
    using assms validate_plain by (auto simp: service_path_def split: sum.splits)
  have "\<not> starts_with ''/'' (n @ ''.yml'')"
    using n by (cases n) (auto simp: starts_with_iff plain_service_name_def)
  then show ?thesis using n p by (simp add: path_join_def SERVICES_DIR_def)
qed

lemma yml_tmp_path:
  assumes "plain_service_name n"
  shows "with_extension (SERVICES_DIR @ ''/'' @ n @ ''.yml'') ''yml.tmp'' =
    SERVICES_DIR @ ''/'' @ n @ ''.yml.tmp''"
proof -
  let ?p = "SERVICES_DIR @ ''/'' @ n @ ''.yml''"
  have slash: "CHR ''/'' \<notin> set (n @ ''.yml'')" using assms by (simp add: plain_service_name_def)
  have "parent_dir ?p = SERVICES_DIR" "file_name ?p = n @ ''.yml''"
    using parent_dir_join [OF slash, of SERVICES_DIR] by simp_all
  moreover have "rcut_at (CHR ''.'') (n @ ''.yml'') = Some (n, ''yml'')"
    using rcut_at_append [of "CHR ''.''" "''yml''" n] by simp
  moreover have "\<not> starts_with ''/'' (n @ ''.yml.tmp'')"
    using assms by (cases n) (auto simp: starts_with_iff plain_service_name_def)
  ultimately show ?thesis
    using assms by (simp add: with_extension_def stem_ext_def path_join_def SERVICES_DIR_def
        plain_service_name_def)
qed

lemma rename_cases:
  assumes "rename_file p q f = (r, g)"
  shows "(\<exists>e. r = Inl e \<and> g = f) \<or>
    (r = Inr () \<and> denied g = denied f \<and> \<not> denied f q \<and> file_at g q = file_at f p \<and>
     file_at f p \<noteq> None \<and> (\<forall>x. x \<noteq> p \<longrightarrow> x \<noteq> q \<longrightarrow> file_at g x = file_at f x))"
  using assms
  by (auto simp: rename_file_def put_file_def file_at_def update_conv' delete_conv' split: option.splits if_splits)

text \<open>The write-then-rename of a declaration, seen from outside.\<close>

lemma upsert_steps:
  assumes "upsert_service yaml name text f = (r, g)"
  obtains (failed) "\<And>x. x \<noteq> SERVICES_DIR @ ''/'' @ name @ ''.yml.tmp'' \<Longrightarrow> file_at g x = file_at f x"
      "r \<noteq> Inr ()"
  | (stored) def where "r = Inr ()" "yaml text = Some def" "sd_service def = name"
      "plain_service_name name" "file_at g (SERVICES_DIR @ ''/'' @ name @ ''.yml'') = Some text"
      "\<not> denied g (SERVICES_DIR @ ''/'' @ name @ ''.yml'')"
      "\<And>x. x \<noteq> SERVICES_DIR @ ''/'' @ name @ ''.yml'' \<Longrightarrow>
         x \<noteq> SERVICES_DIR @ ''/'' @ name @ ''.yml.tmp'' \<Longrightarrow> file_at g x = file_at f x"
proof -
  consider (early) "g = f" "r \<noteq> Inr ()"
    | (go) def where "yaml text = Some def" "sd_service def = name" "validate_service_name name = Inr ()"
      "io_then (create_dir_all SERVICES_DIR) (io_bind (io_lift (service_path name)) (\<lambda>path.
         let tmp = with_extension path ''yml.tmp''
         in io_then (write_text tmp text) (rename_file tmp path))) f = (r, g)"
    using assms unfolding upsert_service_def
    by (auto simp: io_then_split io_lift_def io_fail_def split: option.splits if_splits)
  then show thesis
  proof cases
    case early
    then show thesis by (intro failed) auto
  next
    case go
    define p where "p = SERVICES_DIR @ ''/'' @ name @ ''.yml''"
    define q where "q = SERVICES_DIR @ ''/'' @ name @ ''.yml.tmp''"
    have n: "plain_service_name name" by (rule validate_plain [OF go(3)])
    obtain p' where "service_path name = Inr p'" using go(3) by (simp add: service_path_def)
    then have path: "service_path name = Inr p" using service_path_Inr by (simp add: p_def)
    have tmp: "with_extension p ''yml.tmp'' = q" using yml_tmp_path [OF n] by (simp add: p_def q_def)
    have pq: "p \<noteq> q" by (simp add: p_def q_def)
    from go(4) path tmp consider (mkdir) e where "create_dir_all SERVICES_DIR f = (Inl e, g)" "r = Inl e"
      | (rest) u where "create_dir_all SERVICES_DIR f = (Inr (), u)"
        "io_then (write_text q text) (rename_file q p) u = (r, g)"
      by (auto simp: io_then_split [of "create_dir_all SERVICES_DIR"] io_bind_def io_lift_def Let_def)
    then show thesis
    proof cases
      case mkdir
      then show thesis using mkdir_same [OF mkdir(1)] by (intro failed) auto
    next
      case rest
      note same = mkdir_same [OF rest(1)]
      from rest(2) consider (unwritten) e where "write_text q text u = (Inl e, g)" "r = Inl e"
        | (rename) v where "write_text q text u = (Inr (), v)" "rename_file q p v = (r, g)"
        by (auto simp: io_then_split)
      then show thesis
      proof cases
        case unwritten
        show thesis
          by (rule failed) (use write_text_frame(1) [OF unwritten(1)] same unwritten(2) in \<open>auto simp: q_def\<close>)
      next
        case rename
        have v: "v = put_file q text u" using write_text_ok [OF rename(1)] by blast
        from rename_cases [OF rename(2)] show thesis
        proof (elim disjE exE conjE)
          fix e assume "r = Inl e" "g = v"
          then show thesis using v same by (intro failed) (auto simp: q_def)
        next
          assume *: "r = Inr ()" "denied g = denied v" "\<not> denied v p" "file_at g p = file_at v q"
            "\<forall>x. x \<noteq> q \<longrightarrow> x \<noteq> p \<longrightarrow> file_at g x = file_at v x"
          show thesis
            by (rule stored [OF *(1) go(1,2) n])
              (use * v same in \<open>auto simp: p_def q_def\<close>)
        qed
      qed
    qed
  qed
qed

section \<open>Correctness\<close>

text \<open>
  C31: \<^verbatim>\<open>upsert_service\<close> is all or nothing on the declaration: on success the file holds exactly the
  given text, which parses to a declaration of that name; on every failure, a full disk and a failed
  rename included, the declaration is as it was. No file other than it and its temporary changes.
\<close>

theorem upsert_service_atomic:
  assumes "upsert_service yaml name text f = (r, g)"
  shows "(r = Inr () \<longrightarrow> (\<exists>def. load_def yaml g name = Inr def \<and> sd_service def = name) \<and>
            file_at g (SERVICES_DIR @ ''/'' @ name @ ''.yml'') = Some text) \<and>
    (r \<noteq> Inr () \<longrightarrow> file_at g (SERVICES_DIR @ ''/'' @ name @ ''.yml'') =
            file_at f (SERVICES_DIR @ ''/'' @ name @ ''.yml'')) \<and>
    (\<forall>x. x \<notin> {SERVICES_DIR @ ''/'' @ name @ ''.yml'', SERVICES_DIR @ ''/'' @ name @ ''.yml.tmp''} \<longrightarrow>
       file_at g x = file_at f x)"
  using assms
proof (cases rule: upsert_steps)
  case failed
  then show ?thesis by simp
next
  case (stored def)
  have "load_def yaml g name = Inr def"
    using stored by (simp add: load_def_def load_def_at_def read_text_def service_yaml_path_def)
  with stored show ?thesis by auto
qed

definition upsert_sample :: "unit res \<times> fs" where
  "upsert_sample = upsert_service (\<lambda>t. if t = ''paseo'' then Some paseo_def else None) ''paseo'' ''paseo'' empty_fs"

lemma upsert_sample_ok: "fst upsert_sample = Inr ()"
  by code_simp

lemma upsert_service_atomic_witness:
  "file_at (snd upsert_sample) ''/opt/codery/services/paseo.yml'' = Some ''paseo''"
proof -
  have "upsert_service (\<lambda>t. if t = ''paseo'' then Some paseo_def else None) ''paseo'' ''paseo'' empty_fs =
      (Inr (), snd upsert_sample)"
    using upsert_sample_ok by (metis prod.collapse upsert_sample_def)
  from upsert_service_atomic [OF this] show ?thesis by (simp add: SERVICES_DIR_def)
qed

text \<open>
  \<^verbatim>\<open>delete_service\<close> removes the declaration of the named service and nothing else: afterwards the
  service is not found, and every other name is answered as before. A name with a slash or a dot
  never reaches the file system.
\<close>

theorem delete_service_exact:
  assumes "delete_service name f = (Inr (), g)"
  shows "CHR ''/'' \<notin> set name \<and> CHR ''.'' \<notin> set name \<and>
    get_service name g = Inl (ToolError ''service not found'') \<and>
    (\<forall>other. other \<noteq> name \<longrightarrow> get_service other g = get_service other f)"
proof -
  obtain p where p: "service_path name = Inr p" "remove_file p f = (Inr (), g)"
    using assms by (auto simp: delete_service_def io_bind_def io_lift_def split: sum.splits if_splits)
  note n = service_path_Inr [OF p(1)]
  have g: "file_at g = (file_at f)(p := None)" "denied g = denied f"
    using p(2) by (auto simp: remove_file_def file_at_def delete_conv' fun_eq_iff split: if_splits)
  have "get_service other g = get_service other f" if "other \<noteq> name" for other
  proof (cases "service_path other")
    case (Inr q)
    have "q \<noteq> p" using that n service_path_Inr [OF Inr] by simp
    then show ?thesis using Inr g by (simp add: get_service_def read_text_def)
  qed (simp add: get_service_def)
  moreover have "get_service name g = Inl (ToolError ''service not found'')"
    using p(1) g by (simp add: get_service_def read_text_def)
  ultimately show ?thesis using n by (simp add: plain_service_name_def)
qed

lemma delete_service_exact_witness:
  "get_service ''paseo'' (snd (delete_service ''paseo'' paseo_fs)) = Inl (ToolError ''service not found'')"
proof -
  have "fst (delete_service ''paseo'' paseo_fs) = Inr ()" by code_simp
  then have "delete_service ''paseo'' paseo_fs = (Inr (), snd (delete_service ''paseo'' paseo_fs))"
    by (metis prod.collapse)
  from delete_service_exact [OF this] show ?thesis by (elim conjE)
qed

lemma newest_first_sorted: "i \<le> j \<Longrightarrow> j < length xs \<Longrightarrow>
    created (newest_first created xs ! j) \<le> created (newest_first created xs ! i)"
  using sorted_nth_mono [OF sorted_sort_key [of "\<lambda>i. - created i" xs], of i j]
  by (simp add: newest_first_def)

lemma dk_ask_Inr:
  assumes "dk_ask what g w = (Inr a, t)"
  shows "w_fs t = w_fs w \<and> w_db t = w_db w"
proof -
  have "io_keeps (\<lambda>v. w_fs v = w_fs w \<and> w_db v = w_db w) (dk_ask what g)"
    by (rule keeps_dk_ask) (simp add: io_keeps_def dk_call_def split: prod.splits)
  from io_keepsD [OF this _ assms] show ?thesis by simp
qed

lemma list_local_Inr:
  assumes "list_local K s w = (Inr imgs, t)"
  shows "\<exists>images. imgs = local_images_of s images \<and> w_fs t = w_fs w"
  using assms by (auto simp: list_local_def io_Inr_iffs dest!: docker_connect_same dk_ask_Inr)

lemma find_newest:
  assumes "find P (newest_first created xs) = Some x"
  shows "x \<in> set (newest_first created xs) \<and> P x \<and> (\<forall>y \<in> set (newest_first created xs). P y \<longrightarrow> created y \<le> created x)"
proof -
  let ?s = "newest_first created xs"
  obtain i where i: "i < length ?s" "x = ?s ! i" "P x" "\<forall>j < i. \<not> P (?s ! j)"
    using assms by (auto simp: find_Some_iff)
  have "created (?s ! j) \<le> created x" if "j < length ?s" "P (?s ! j)" for j
  proof -
    have "i \<le> j" using i(4) that(2) not_less by blast
    then show ?thesis using newest_first_sorted [of i j xs created] that(1) i(2)
      by (simp add: newest_first_def)
  qed
  then show ?thesis using i by (auto simp: in_set_conv_nth)
qed

lemma known_service_same: "known_service K s w = (Inr u, t) \<Longrightarrow> t = w"
  by (auto simp: known_service_def split: sum.splits)


definition en_rollback :: "string res \<times> engine world" where
  "en_rollback = rollback en_platform ''paseo'' en_world"

lemma en_rollback_ok: "fst en_rollback = Inr ''new''"
  by code_simp


text \<open>
  The two views of the routing table agree: the health flag that \<^verbatim>\<open>get_routes\<close> shows for a route
  is false exactly when the diagnosis lists the route, under the same address and host port.
\<close>

theorem get_routes_agrees_with_diagnose:
  "diagnose_route yaml f colors domain listening r =
     (let e = route_entry_of yaml f colors domain listening r
      in if re_healthy e then None
         else Some \<lparr>ri_subdomain = re_subdomain e, ri_host_port = re_host_port e, ri_listening = False,
                    ri_fix = route_fix (ur_subdomain r) (re_service e)\<rparr>)"
  by (simp add: diagnose_route_def route_entry_of_def route_host_port_def Let_def)

end
