(* ===== verification/Mcp_Apps.thy ===== *)
theory Mcp_Apps
  imports Mcp_Tools
begin

text \<open>
  The app tools of \<^verbatim>\<open>mcp.rs\<close>: adding, removing and restarting an app of the apps container and
  reporting the apps. Adding an app runs in three stages, which the code has in one body: the checks
  and the registration in the database and on disk, the start under s6, and the publication of the
  routes. The JSON encoder of the environment is a parameter.
\<close>

section \<open>Adding an app\<close>

record add_app_params =
  ap_name :: string
  ap_subdomain :: string
  ap_internal_port :: u16
  ap_command :: string
  ap_directory :: string
  ap_env :: "(string \<times> string) list option"
  ap_no_cache :: "bool option"
  ap_source :: "string option"

type_synonym env_encoder = "(string \<times> string) list \<Rightarrow> string"

definition app_source :: "add_app_params \<Rightarrow> string" where
  "app_source p = (case ap_source p of Some s \<Rightarrow> s | None \<Rightarrow> ''runtime'')"

definition record_of :: "env_encoder \<Rightarrow> add_app_params \<Rightarrow> app_record" where
  "record_of json_of p =
     \<lparr>ar_name = ap_name p, ar_subdomain = ap_subdomain p, ar_internal_port = ap_internal_port p,
      ar_command = ap_command p, ar_directory = ap_directory p,
      ar_env = (case ap_env p of Some e \<Rightarrow> if e = [] then None else Some (json_of e) | None \<Rightarrow> None),
      ar_priority = 100, ar_user = ''gem'', ar_restart = ''always'',
      ar_no_cache = (case ap_no_cache p of Some b \<Rightarrow> b | None \<Rightarrow> False), ar_source = app_source p,
      ar_created_at = []\<rparr>"

definition tool_fail :: "string \<Rightarrow> ('s, 'a) io" where
  "tool_fail msg = io_fail (ToolError msg)"

definition require :: "bool \<Rightarrow> string \<Rightarrow> ('s, unit) io" where
  "require b msg = (if b then io_return () else tool_fail msg)"

definition sync_bundles :: "'e platform \<Rightarrow> ('e world, unit) io" where
  "sync_bundles K w = on_fs (sync_s6 (pf_json_env K) (w_db w)) w"

definition register_app :: "'e platform \<Rightarrow> env_encoder \<Rightarrow> add_app_params \<Rightarrow> ('e world, unit) io" where
  "register_app K json_of p =
     io_then (require (CHR '' '' \<notin> set (ap_name p) \<and> CHR ''/'' \<notin> set (ap_name p) \<and> CHR ''.'' \<notin> set (ap_name p))
       ''app name must not contain spaces, slashes, or dots'')
    (io_bind (container_exec K ''apps'' [''test'', ''-d'', ap_directory p]) (\<lambda>check.
     io_then (require (\<not> starts_with ''[exited'' check) ''directory does not exist in apps container'')
    (io_then db_open
    (io_bind (read_db (\<lambda>d. port_claimed d (ap_internal_port p))) (\<lambda>claimed.
     io_then (require (\<not> claimed) ''port already claimed by another app'')
    (io_bind (read_db (\<lambda>d. find_app_by_name d (ap_name p))) (\<lambda>existing.
     io_then (require (existing = None) ''app already exists'')
    (io_then (require (app_source p = ''runtime'' \<or> app_source p = ''build'') ''invalid source'')
    (io_then (on_db (insert_app (record_of json_of p))) (sync_bundles K))))))))))"

definition service_up :: "'e platform \<Rightarrow> string \<Rightarrow> ('e world, bool) io" where
  "service_up K svc =
     io_bind (io_try (container_exec K ''apps'' [''/command/s6-svstat'', ''-o'', ''up'', svc])) (\<lambda>r.
       io_return (case r of Inr out \<Rightarrow> trim out = ''true'' | Inl _ \<Rightarrow> False))"

primrec wait_up :: "'e platform \<Rightarrow> string \<Rightarrow> nat \<Rightarrow> ('e world, bool) io" where
  "wait_up K svc 0 = io_return False"
| "wait_up K svc (Suc n) =
     io_then (sleep_ms K 500) (io_bind (service_up K svc) (\<lambda>up.
       if up then io_return True else wait_up K svc n))"

definition start_app :: "'e platform \<Rightarrow> add_app_params \<Rightarrow> ('e world, unit) io" where
  "start_app K p =
     (if app_source p \<noteq> ''runtime'' then io_return ()
      else io_bind (container_exec K ''apps''
             [''/command/s6-svlink'', ''/run/service'', ''/etc/s6-overlay/apps.d/'' @ ap_name p]) (\<lambda>_.
           io_bind (wait_up K (''/run/service/'' @ ap_name p) 10) (\<lambda>up.
           require up ''config written and route added, but service did not come up'')))"

definition publish_routes :: "'e platform \<Rightarrow> ('e world, unit) io" where
  "publish_routes K = io_then (apply_all K) (generate_and_reload K)"

definition add_app :: "'e platform \<Rightarrow> env_encoder \<Rightarrow> add_app_params \<Rightarrow> ('e world, unit) io" where
  "add_app K json_of p =
     io_then (register_app K json_of p) (io_then (start_app K p) (publish_routes K))"

section \<open>Removing and restarting\<close>

definition remove_app :: "'e platform \<Rightarrow> string \<Rightarrow> ('e world, unit) io" where
  "remove_app K name =
     io_then db_open
    (io_bind (read_db (\<lambda>d. find_app_by_name d name)) (\<lambda>found.
       case found of
         None \<Rightarrow> tool_fail ''app not found in database''
       | Some app \<Rightarrow>
           io_then (require (ar_source app \<noteq> ''build'') ''app is image-baked'')
          (io_bind (io_try (container_exec K ''apps'' [''/command/s6-svunlink'', ''/run/service'', name])) (\<lambda>_.
           io_bind (on_db (delete_app name)) (\<lambda>_.
           io_then (sync_bundles K) (io_then (sleep K 1) (publish_routes K)))))))"

definition pid_of :: "'e platform \<Rightarrow> string \<Rightarrow> ('e world, int) io" where
  "pid_of K svc =
     io_bind (io_try (container_exec K ''apps'' [''/command/s6-svstat'', ''-o'', ''pid'', svc])) (\<lambda>r.
       io_return (case r of
         Inl _ \<Rightarrow> - 1
       | Inr out \<Rightarrow> (case parse_i64 (trim out) of Some p \<Rightarrow> p | None \<Rightarrow> - 1)))"

text \<open>\<open>n\<close> attempts are left of ten; the third one that finds the old process escalates.\<close>

primrec await_respawn :: "'e platform \<Rightarrow> string \<Rightarrow> int \<Rightarrow> nat \<Rightarrow> ('e world, int) io" where
  "await_respawn K svc old_pid 0 = tool_fail ''app did not restart within 5s''"
| "await_respawn K svc old_pid (Suc n) =
     io_then (sleep_ms K 500) (io_bind (pid_of K svc) (\<lambda>new_pid.
       if 0 < new_pid \<and> new_pid \<noteq> old_pid then io_return new_pid
       else io_then (io_when (10 - n = 3)
                (io_bind (io_try (container_exec K ''apps'' [''/command/s6-svc'', ''-k'', svc])) (\<lambda>_. io_return ())))
              (await_respawn K svc old_pid n)))"

definition restart_app :: "'e platform \<Rightarrow> string \<Rightarrow> ('e world, int \<times> int) io" where
  "restart_app K name =
     (let svc = ''/run/service/'' @ name
      in io_bind (pid_of K svc) (\<lambda>old_pid.
         io_then (require (0 < old_pid) ''app is not up'')
        (io_then (container_exec K ''apps'' [''/command/s6-svc'', ''-t'', svc])
        (io_bind (await_respawn K svc old_pid 10) (\<lambda>new_pid. io_return (old_pid, new_pid))))))"

section \<open>Reports\<close>

definition list_apps_tool :: "('e world, app_record list) io" where
  "list_apps_tool = io_then db_open (read_db list_apps)"

record app_status =
  as_name :: string
  as_pid :: int
  as_running :: bool
  as_uptime :: nat
  as_source :: string
  as_subdomain :: "string option"
  as_internal_port :: "u16 option"

definition app_status_of :: "app_record list \<Rightarrow> svc_stat \<Rightarrow> app_status" where
  "app_status_of apps st =
     (let rec = find (\<lambda>a. ar_name a = st_name st) apps
      in \<lparr>as_name = st_name st, as_pid = st_pid st, as_running = st_up st, as_uptime = st_uptime st,
          as_source = (case rec of Some a \<Rightarrow> ar_source a | None \<Rightarrow> ''build''),
          as_subdomain = map_option ar_subdomain rec, as_internal_port = map_option ar_internal_port rec\<rparr>)"

definition get_app_status :: "'e platform \<Rightarrow> ('e world, app_status list) io" where
  "get_app_status K =
     io_then db_open
    (io_bind (read_db list_apps) (\<lambda>apps.
     io_bind (svc_stats K ''apps'') (\<lambda>stats. io_return (map (app_status_of apps) stats))))"

section \<open>Frames\<close>

text \<open>What the tools leave alone: commands in a container touch neither the files nor the database.\<close>

lemma world_frame_exec [io_valid]:
  "io_keeps (\<lambda>w. P (w_fs w)) (container_exec K s cmd)" "io_keeps (\<lambda>w. Q (w_db w)) (container_exec K s cmd)"
  unfolding container_exec_def shell_output_def
  by (intro io_valid | simp add: io_keeps_basic split: option.split)+

lemma require_keeps [io_valid]: "io_keeps P (require b m)" "io_keeps P (tool_fail m)"
  by (simp_all add: require_def tool_fail_def io_keeps_basic)

lemma db_open_db [io_valid]: "io_keeps (\<lambda>w. P (w_db w)) db_open"
  unfolding db_open_def by (intro io_valid) (simp add: io_keeps_def)

lemma sync_bundles_db [io_valid]: "io_keeps (\<lambda>w. P (w_db w)) (sync_bundles K)"
  by (simp add: io_keeps_def sync_bundles_def on_fs_def split: prod.splits)

lemma apply_all_db [io_valid]: "io_keeps (\<lambda>w. P (w_db w)) (apply_all K)"
  unfolding apply_all_def reload_caddy_def
  by (intro io_valid read_fs_frame_lemma | simp add: io_keeps_basic split: option.split)+

lemma nginx_db [io_valid]: "io_keeps (\<lambda>w. P (w_db w)) (generate_and_reload K)"
  unfolding generate_and_reload_def reload_in_active_container_def Let_def
  by (intro allI impI io_valid read_fs_frame_lemma keeps_dk_ask | simp add: io_keeps_basic split: sum.split)+

lemma publish_db [io_valid]: "io_keeps (\<lambda>w. P (w_db w)) (publish_routes K)"
  unfolding publish_routes_def by (intro io_valid)

lemma wait_up_keeps:
  "io_keeps (\<lambda>w. P (w_fs w)) (wait_up K svc n)" "io_keeps (\<lambda>w. Q (w_db w)) (wait_up K svc n)"
  by (induction n) (auto simp: service_up_def intro!: io_valid)

lemma start_app_keeps [io_valid]:
  "io_keeps (\<lambda>w. P (w_fs w)) (start_app K p)" "io_keeps (\<lambda>w. Q (w_db w)) (start_app K p)"
  unfolding start_app_def by (intro io_valid wait_up_keeps)+

lemma pid_of_keeps [io_valid]:
  "io_keeps (\<lambda>w. P (w_fs w)) (pid_of K svc)" "io_keeps (\<lambda>w. Q (w_db w)) (pid_of K svc)"
  unfolding pid_of_def by (intro io_valid)+

lemma await_respawn_keeps:
  "io_keeps (\<lambda>w. P (w_fs w)) (await_respawn K svc old n)"
  "io_keeps (\<lambda>w. Q (w_db w)) (await_respawn K svc old n)"
  by (induction n) (auto intro!: io_valid)

lemma restart_app_keeps:
  "io_keeps (\<lambda>w. P (w_fs w)) (restart_app K name)" "io_keeps (\<lambda>w. Q (w_db w)) (restart_app K name)"
  unfolding restart_app_def Let_def by (intro io_valid await_respawn_keeps)+

section \<open>Sessions of tool calls\<close>

text \<open>
  The databases an MCP client can bring about: it starts from a host without apps, and any sequence
  of app tools follows, succeeding or failing, while the files, the containers and the clock of the
  database may change in any way in between.
\<close>

inductive tool_session :: "'e platform \<Rightarrow> env_encoder \<Rightarrow> 'e world \<Rightarrow> bool" for K json_of where
  fresh: "db_apps (w_db w) = [] \<Longrightarrow> tool_session K json_of w"
| add: "tool_session K json_of w \<Longrightarrow> add_app K json_of p w = (r, w') \<Longrightarrow> tool_session K json_of w'"
| remove: "tool_session K json_of w \<Longrightarrow> remove_app K n w = (r, w') \<Longrightarrow> tool_session K json_of w'"
| restart: "tool_session K json_of w \<Longrightarrow> restart_app K n w = (q, w') \<Longrightarrow> tool_session K json_of w'"
| outside: "tool_session K json_of w \<Longrightarrow>
    tool_session K json_of (w\<lparr>w_fs := f, w_db := (w_db w)\<lparr>db_now := now, db_down := b\<rparr>, w_ext := e\<rparr>)"

definition apps_separate :: "db \<Rightarrow> bool" where
  "apps_separate d \<longleftrightarrow>
     distinct (map ar_name (db_apps d)) \<and> distinct (map ar_subdomain (db_apps d)) \<and>
     distinct (map ar_internal_port (db_apps d)) \<and>
     (\<forall>a \<in> set (db_apps d). ar_source a \<in> {''runtime'', ''build''} \<and> CHR ''/'' \<notin> set (ar_name a))"

lemma port_claimed_False:
  "port_claimed d p = Inr False \<Longrightarrow> p \<notin> ar_internal_port ` set (db_apps d)"
  by (auto simp: port_claimed_def filter_empty_conv split: if_splits)

lemma insert_app_cases:
  assumes "insert_app a d = (r, d')"
  obtains (refused) "d' = d" "r \<noteq> Inr ()"
  | (inserted) "r = Inr ()" "db_apps d' = db_apps d @ [a\<lparr>ar_created_at := db_now d\<rparr>]"
      "ar_name a \<notin> ar_name ` set (db_apps d)" "ar_subdomain a \<notin> ar_subdomain ` set (db_apps d)"
proof (cases "db_down d \<or> ar_name a \<in> ar_name ` set (db_apps d) \<or> ar_subdomain a \<in> ar_subdomain ` set (db_apps d)")
  case True
  then have "d' = d \<and> r \<noteq> Inr ()"
    using assms unfolding insert_app_def db_guard_def by (elim disjE) (auto split: if_splits)
  then show ?thesis using refused by blast
next
  case False
  then have "r = Inr ()" "d' = d\<lparr>db_apps := db_apps d @ [a\<lparr>ar_created_at := db_now d\<rparr>]\<rparr>"
    using assms unfolding insert_app_def db_guard_def by simp_all
  then show ?thesis using inserted False by simp
qed

lemma insert_separate:
  assumes "apps_separate d" and "insert_app a d = (r, d')"
    and "ar_internal_port a \<notin> ar_internal_port ` set (db_apps d)"
    and "ar_source a \<in> {''runtime'', ''build''}" and "CHR ''/'' \<notin> set (ar_name a)"
  shows "apps_separate d'"
  using assms(2)
proof (cases rule: insert_app_cases)
  case inserted
  show ?thesis
    unfolding apps_separate_def inserted(2)
    using assms(1,3,4,5) inserted(3,4) by (simp add: apps_separate_def)
qed (use assms(1) in simp)

lemma delete_app_apps:
  "delete_app n d = (Inr b, d') \<Longrightarrow> db_apps d' = filter (\<lambda>a. ar_name a \<noteq> n) (db_apps d)"
  "delete_app n d = (Inl e, d') \<Longrightarrow> d' = d"
  by (auto simp: delete_app_def db_guard_def split: if_splits)

lemma delete_separate:
  assumes "apps_separate d" and "delete_app n d = (r, d')"
  shows "apps_separate d'"
proof (cases r)
  case (Inl e)
  then show ?thesis using assms delete_app_apps(2) by blast
next
  case (Inr b)
  then have "db_apps d' = filter (\<lambda>a. ar_name a \<noteq> n) (db_apps d)" using assms(2) delete_app_apps(1) by blast
  then show ?thesis using assms(1) unfolding apps_separate_def by (simp add: distinct_map_filter_iff)
qed

text \<open>Triples whose precondition pins the database, with the checks as hypotheses of the rest.\<close>

lemma triple_neutral:
  "io_keeps P m \<Longrightarrow> (\<And>a. io_triple P (f a) Q E) \<Longrightarrow> (\<And>w. P w \<Longrightarrow> E w) \<Longrightarrow> io_triple P (io_bind m f) Q E"
  "io_keeps P m \<Longrightarrow> io_triple P k Q E \<Longrightarrow> (\<And>w. P w \<Longrightarrow> E w) \<Longrightarrow> io_triple P (io_then m k) Q E"
  unfolding io_then_def io_keeps_iff_triple
  by (rule io_triple_bind, erule io_triple_weaken, assumption, assumption, blast, assumption)+

lemma triple_require:
  "(b \<Longrightarrow> io_triple P k Q E) \<Longrightarrow> (\<And>w. P w \<Longrightarrow> E w) \<Longrightarrow> io_triple P (io_then (require b m) k) Q E"
  by (cases b) (simp_all add: require_def tool_fail_def io_then_def io_triple_fail, simp add: io_triple_def io_fail_def)

lemma triple_read_db:
  fixes f :: "'b \<Rightarrow> ('e world, 'c) io"
  assumes "\<And>a. g d = Inr a \<Longrightarrow> io_triple (\<lambda>w. w_db w = d) (f a) Q E" and "\<And>w. w_db w = d \<Longrightarrow> E w"
  shows "io_triple (\<lambda>w. w_db w = d) (io_bind (read_db g) f) Q E"
  unfolding io_triple_def
proof (intro allI impI)
  fix w :: "'e world" assume w: "w_db w = d"
  show "case io_bind (read_db g) f w of (Inl e, t) \<Rightarrow> E t | (Inr a, t) \<Rightarrow> Q a t"
  proof (cases "g d")
    case (Inl e)
    then show ?thesis using assms(2) [OF w] w by (simp add: io_bind_def read_db_def)
  next
    case (Inr a)
    then show ?thesis using assms(1) [OF Inr] w by (simp add: io_bind_def read_db_def io_triple_def)
  qed
qed

definition registered :: "env_encoder \<Rightarrow> add_app_params \<Rightarrow> db \<Rightarrow> db \<Rightarrow> bool" where
  "registered json_of p d d' \<longleftrightarrow>
     insert_app (record_of json_of p) d = (Inr (), d') \<and> port_claimed d (ap_internal_port p) = Inr False \<and>
     CHR ''/'' \<notin> set (ap_name p) \<and> app_source p \<in> {''runtime'', ''build''}"

lemma insert_triple:
  assumes "\<And>d'. insert_app a d = (Inr (), d') \<Longrightarrow> R d'"
  shows "io_triple (\<lambda>w :: 'a world. w_db w = d) (on_db (insert_app a)) (\<lambda>_ w. R (w_db w))
    (\<lambda>w. w_db w = d \<or> R (w_db w))"
  unfolding io_triple_def
proof (intro allI impI)
  fix w :: "'a world" assume w: "w_db w = d"
  obtain r d' where i: "insert_app a d = (r, d')" by force
  then have o: "on_db (insert_app a) w = (r, w\<lparr>w_db := d'\<rparr>)" using w by (simp add: on_db_def)
  from i show "case on_db (insert_app a) w of (Inl e, t) \<Rightarrow> w_db t = d \<or> R (w_db t) | (Inr _, t) \<Rightarrow> R (w_db t)"
  proof (cases rule: insert_app_cases)
    case refused
    then show ?thesis using o by (cases r) auto
  next
    case inserted
    then show ?thesis using o i assms [of d'] by simp
  qed
qed

lemma register_app_triple:
  "io_triple (\<lambda>w. w_db w = d) (register_app K json_of p) (\<lambda>_ w. registered json_of p d (w_db w))
     (\<lambda>w. w_db w = d \<or> registered json_of p d (w_db w))"
  (is "io_triple _ _ ?Q ?E")
proof -
  have sync: "io_triple (\<lambda>w. registered json_of p d (w_db w)) (sync_bundles K) ?Q ?E"
    by (rule io_triple_weaken [OF sync_bundles_db [of "registered json_of p d" K, unfolded io_keeps_iff_triple]])
      simp_all
  have ins: "io_triple (\<lambda>w. w_db w = d) (io_then (on_db (insert_app (record_of json_of p))) (sync_bundles K)) ?Q ?E"
    if "port_claimed d (ap_internal_port p) = Inr False" "CHR ''/'' \<notin> set (ap_name p)"
      "app_source p \<in> {''runtime'', ''build''}"
    by (rule io_triple_then [OF insert_triple sync]) (use that in \<open>simp add: registered_def\<close>)
  show ?thesis
    unfolding register_app_def
    by (rule triple_require triple_neutral(1) [OF world_frame_exec(2)] triple_neutral(2) [OF db_open_db]
        triple_read_db ins disjI1 | assumption | simp)+
qed

lemma add_app_db:
  assumes "add_app K json_of p w = (r, t)"
  shows "w_db t = w_db w \<or> registered json_of p (w_db w) (w_db t)"
    and "r = Inr () \<Longrightarrow> registered json_of p (w_db w) (w_db t)"
proof -
  let ?R = "\<lambda>v. registered json_of p (w_db w) (w_db v)"
  have "io_keeps ?R (io_then (start_app K p) (publish_routes K))"
    by (rule io_keeps_then [OF start_app_keeps(2) publish_db])
  then have "io_triple (\<lambda>v. w_db v = w_db w) (add_app K json_of p) (\<lambda>_. ?R) (\<lambda>v. w_db v = w_db w \<or> ?R v)"
    unfolding add_app_def io_keeps_iff_triple
    by (intro io_triple_then [OF register_app_triple]) (rule io_triple_weaken, assumption, simp_all)
  from io_tripleD [OF this refl] assms
  show "w_db t = w_db w \<or> ?R t" "r = Inr () \<Longrightarrow> ?R t" by (cases r; blast)+
qed

lemma registered_separate:
  assumes "apps_separate d" and "registered json_of p d d'"
  shows "apps_separate d'"
  using assms port_claimed_False
  by (intro insert_separate [OF assms(1), of "record_of json_of p" "Inr ()"])
    (auto simp: registered_def record_of_def)

lemma remove_app_db:
  assumes "remove_app K n w = (r, t)"
  shows "w_db t = w_db w \<or> (\<exists>b. delete_app n (w_db w) = (Inr b, w_db t))"
    and "r = Inr () \<Longrightarrow> \<exists>b. delete_app n (w_db w) = (Inr b, w_db t)"
proof -
  let ?d = "w_db w"
  let ?R = "\<lambda>v. \<exists>b. delete_app n ?d = (Inr b, w_db v)"
  let ?E = "\<lambda>v. w_db v = ?d \<or> ?R v"
  have del: "io_triple (\<lambda>v. w_db v = ?d) (on_db (delete_app n)) (\<lambda>_. ?R) ?E"
    using delete_app_apps(2) by (fastforce simp: io_triple_iff on_db_def split: prod.splits)
  have "io_keeps ?R (io_then (sync_bundles K) (io_then (sleep K 1) (publish_routes K)))"
    by (rule io_keeps_then [OF sync_bundles_db io_keeps_then [OF db_frame(5) publish_db]])
  then have tail: "io_triple ?R (io_then (sync_bundles K) (io_then (sleep K 1) (publish_routes K))) (\<lambda>_. ?R) ?E"
    unfolding io_keeps_iff_triple by (rule io_triple_weaken) simp_all
  have body: "io_triple (\<lambda>v. w_db v = ?d)
      (io_bind (io_try (container_exec K ''apps'' [''/command/s6-svunlink'', ''/run/service'', n])) (\<lambda>_.
       io_bind (on_db (delete_app n)) (\<lambda>_.
       io_then (sync_bundles K) (io_then (sleep K 1) (publish_routes K))))) (\<lambda>_. ?R) ?E"
    by (rule triple_neutral(1) [OF io_keeps_try [OF world_frame_exec(2)]]) (rule io_triple_bind [OF del tail], simp)
  have found: "io_triple (\<lambda>v. w_db v = ?d)
     (case found of
         None \<Rightarrow> tool_fail ''app not found in database''
       | Some app \<Rightarrow>
           io_then (require (ar_source app \<noteq> ''build'') ''app is image-baked'')
          (io_bind (io_try (container_exec K ''apps'' [''/command/s6-svunlink'', ''/run/service'', n])) (\<lambda>_.
           io_bind (on_db (delete_app n)) (\<lambda>_.
           io_then (sync_bundles K) (io_then (sleep K 1) (publish_routes K)))))) (\<lambda>_. ?R) ?E" for found
  proof (cases found)
    case None
    then show ?thesis by (simp add: tool_fail_def io_triple_def io_fail_def)
  next
    case (Some app)
    show ?thesis unfolding Some option.case by (rule triple_require [OF body]) simp
  qed
  have "io_triple (\<lambda>v. w_db v = ?d) (remove_app K n) (\<lambda>_. ?R) ?E"
    unfolding remove_app_def
    by (rule triple_neutral(2) [OF db_open_db triple_read_db [OF found]]) simp_all
  from io_tripleD [OF this refl] assms
  show "?E t" "r = Inr () \<Longrightarrow> ?R t" by (cases r; blast)+
qed

lemma tool_session_separate:
  "tool_session K json_of w \<Longrightarrow> apps_separate (w_db w)"
proof (induction rule: tool_session.induct)
  case (fresh w)
  then show ?case by (simp add: apps_separate_def)
next
  case (add w p r w')
  from add_app_db(1) [OF add(2)] show ?case
    by (elim disjE) (use add.IH registered_separate in \<open>metis\<close>)+
next
  case (remove w n r w')
  from remove_app_db(1) [OF remove(2)] show ?case
    using remove.IH delete_separate by metis
next
  case (restart w n q w')
  have "io_keeps (\<lambda>v. apps_separate (w_db v)) (restart_app K n)" by (rule restart_app_keeps(2))
  from io_keepsD [OF this restart.IH restart(2)] show ?case .
next
  case (outside w f now b e)
  then show ?case by (simp add: apps_separate_def)
qed

section \<open>Correctness\<close>

text \<open>
  C25: Whatever sequence of app tools a client calls, and whether each succeeds or fails half way, no
  two registered apps share a name, a subdomain or an internal port, every app is either runtime-managed
  or baked into the image, and no app name can leave the bundle directory.
\<close>

theorem tool_session_apps_separate:
  assumes "tool_session K json_of w" and "a \<in> set (db_apps (w_db w))" and "b \<in> set (db_apps (w_db w))"
    and "a \<noteq> b"
  shows "ar_name a \<noteq> ar_name b \<and> ar_subdomain a \<noteq> ar_subdomain b \<and>
    ar_internal_port a \<noteq> ar_internal_port b \<and> ar_source a \<in> {''runtime'', ''build''} \<and>
    CHR ''/'' \<notin> set (ar_name a)"
proof -
  have s: "apps_separate (w_db w)" by (rule tool_session_separate [OF assms(1)])
  have ne: "f a \<noteq> f b" if "distinct (map f (db_apps (w_db w)))" for f :: "app_record \<Rightarrow> 'z"
    using that assms(2,3,4) unfolding distinct_map by (metis inj_onD)
  show ?thesis using s assms(2) ne unfolding apps_separate_def by metis
qed

definition build_params :: "string \<Rightarrow> u16 \<Rightarrow> add_app_params" where
  "build_params n port = \<lparr>ap_name = n, ap_subdomain = n, ap_internal_port = port, ap_command = ''run'',
     ap_directory = ''/srv'', ap_env = None, ap_no_cache = None, ap_source = Some ''build''\<rparr>"

definition en_empty :: "engine world" where
  "en_empty = en_world\<lparr>w_db := (w_db en_world)\<lparr>db_apps := []\<rparr>,
     w_ext := en_set ''codery-apps-blue'' (''ghcr.io/coderyoss/codery:apps-1'', True) (w_ext en_world)\<rparr>"

definition en_two_apps :: "engine world" where
  "en_two_apps =
     snd (add_app en_platform (\<lambda>_. []) (build_params ''docs'' 3002)
       (snd (add_app en_platform (\<lambda>_. []) (build_params ''web'' 3001) en_empty)))"

lemma en_two_apps_names: "map ar_name (db_apps (w_db en_two_apps)) = [''web'', ''docs'']"
  by code_simp

lemma en_two_apps_session: "tool_session en_platform (\<lambda>_. []) en_two_apps"
proof -
  have "tool_session en_platform (\<lambda>_. []) en_empty" by (rule fresh) (simp add: en_empty_def)
  from add [OF this prod.collapse [symmetric]] have "tool_session en_platform (\<lambda>_. [])
      (snd (add_app en_platform (\<lambda>_. []) (build_params ''web'' 3001) en_empty))" .
  from add [OF this prod.collapse [symmetric]] show ?thesis unfolding en_two_apps_def .
qed

lemma tool_session_apps_separate_witness:
  "\<exists>a b. db_apps (w_db en_two_apps) = [a, b] \<and> ar_internal_port a \<noteq> ar_internal_port b"
proof -
  obtain a b where ab: "db_apps (w_db en_two_apps) = [a, b]" "ar_name a = ''web''" "ar_name b = ''docs''"
    using en_two_apps_names by (auto simp: map_eq_Cons_conv)
  then have "a \<noteq> b" by auto
  from tool_session_apps_separate [OF en_two_apps_session _ _ this] ab show ?thesis by auto
qed

lemma keeps_bind_read:
  "(\<And>f a. g f = Inr a \<Longrightarrow> io_keeps P (k a)) \<Longrightarrow> io_keeps P (io_bind (\<lambda>f. (g f, f)) k)"
  by (auto simp: io_keeps_def io_bind_def split: sum.split)

lemma keeps_bind_lift:
  "(\<And>a. r = Inr a \<Longrightarrow> io_keeps P (k a)) \<Longrightarrow> io_keeps P (io_bind (io_lift r) k)"
  by (auto simp: io_keeps_def io_bind_def io_lift_def split: sum.split)

lemma keeps_prune_other:
  assumes "\<not> below x q"
  shows "io_keeps (\<lambda>f. file_at f q = c) (prune_bundle apps x)"
proof -
  have "map_of (filter (\<lambda>(p, _). \<not> below x p) fs) q = map_of fs q" for fs :: "(string \<times> string) list"
    using assms by (induction fs) auto
  then show ?thesis
    by (simp add: io_keeps_def prune_bundle_def remove_dir_all_def file_at_def)
qed

lemma sync_other:
  assumes "\<not> below APPS_S6_DIR q" and "\<forall>a \<in> set (db_apps d). plain_name (ar_name a)"
  shows "io_keeps (\<lambda>f. file_at f q = c) (sync_s6 json d)"
proof -
  have dir: "plain_dir APPS_S6_DIR" by (simp add: plain_dir_def APPS_S6_DIR_def)
  have sub: "\<not> below (APPS_S6_DIR @ ''/'' @ x) q" for x
    using assms(1) by (auto simp: below_def starts_with_iff)
  have prune: "io_keeps (\<lambda>f. file_at f q = c) (io_each (prune_bundle apps) entries)"
    if "read_dir APPS_S6_DIR f = Inr entries" for f entries apps
  proof (rule io_keeps_each, rule keeps_prune_other)
    fix x assume "x \<in> set entries"
    then have "parent_dir x = APPS_S6_DIR" using that by (auto simp: read_dir_def split: if_splits)
    from parent_dir_cases [OF this] have "x = APPS_S6_DIR @ ''/'' @ file_name x" by (simp add: APPS_S6_DIR_def)
    then show "\<not> below x q" using sub by metis
  qed
  have bundles: "io_keeps (\<lambda>f. file_at f q = c)
      (io_each (write_bundle json APPS_S6_DIR) (filter (\<lambda>a. ar_source a = ''runtime'') apps))"
    if "list_apps d = Inr apps" for apps
  proof (rule io_keeps_each)
    fix a assume "a \<in> set (filter (\<lambda>a. ar_source a = ''runtime'') apps)"
    then have "plain_name (ar_name a)" using that assms(2) by (auto simp: list_apps_def split: if_splits)
    then show "io_keeps (\<lambda>f. file_at f q = c) (write_bundle json APPS_S6_DIR a)"
      using write_bundle_other [OF dir] sub by (simp add: bundle_dir_def)
  qed
  show ?thesis
    unfolding sync_s6_def sync_s6_to_dir_def
    by (intro keeps_bind_lift io_keeps_then keeps_bind_read keeps_mkdir prune bundles)
qed

lemma require_Inr: "require b m w = (Inr x, t) \<longleftrightarrow> b \<and> t = w"
  by (auto simp: require_def tool_fail_def io_return_def io_fail_def)

lemma register_app_files:
  assumes run: "register_app K json_of p w = (Inr (), u)" and "\<not> below APPS_S6_DIR q"
    and "\<forall>a \<in> set (db_apps (w_db w)). plain_name (ar_name a)" and "plain_name (ap_name p)"
  shows "file_at (w_fs u) q = file_at (w_fs w) q"
proof -
  from run obtain check w1 w2 w3 where steps:
      "container_exec K ''apps'' [''test'', ''-d'', ap_directory p] w = (Inr check, w1)"
      "db_open w1 = (Inr (), w2)" "on_db (insert_app (record_of json_of p)) w2 = (Inr (), w3)"
      "sync_bundles K w3 = (Inr (), u)"
    unfolding register_app_def
    by (simp add: io_Inr_iffs require_Inr read_db_def) blast
  let ?F = "\<lambda>v :: 'a world. file_at (w_fs v) q = file_at (w_fs w) q"
  have "?F w1" by (rule io_keepsD [OF world_frame_exec(1) [of "\<lambda>f. file_at f q = file_at (w_fs w) q" K] _ steps(1)]) simp
  then have "?F w2"
    using steps(2) by (auto simp: db_open_def io_Inr_iffs on_fs_def dest: mkdir_same split: prod.splits if_splits)
  then have f3: "?F w3" using steps(3) by (auto simp: on_db_def split: prod.splits)
  have "w_db w2 = w_db w"
    using io_keepsD [OF world_frame_exec(2) [of "\<lambda>d. d = w_db w"] refl steps(1)]
      io_keepsD [OF db_open_db [of "\<lambda>d. d = w_db w"] _ steps(2)] by simp
  then have "insert_app (record_of json_of p) (w_db w) = (Inr (), w_db w3)"
    using steps(3) by (auto simp: on_db_def split: prod.splits)
  then have "\<forall>a \<in> set (db_apps (w_db w3)). plain_name (ar_name a)"
    by (rule insert_app_cases) (use assms(3,4) in \<open>auto simp: record_of_def\<close>)
  from io_keepsD [OF keeps_on_fs [OF sync_other [OF assms(2) this]] f3 steps(4) [unfolded sync_bundles_def]]
  show ?thesis .
qed

text \<open>
  When the registration of an app succeeds but its process does not come up, \<^verbatim>\<open>add_app\<close> reports an
  error that says the route was added; yet the app is registered while neither the Caddyfile nor the
  Nginx configuration was touched.
\<close>

theorem add_app_down_publishes_nothing:
  assumes "register_app K json_of p w = (Inr (), u)" and "start_app K p u = (Inl e, t)"
    and "\<forall>a \<in> set (db_apps (w_db w)). plain_name (ar_name a)" and "plain_name (ap_name p)"
  shows "add_app K json_of p w = (Inl e, t) \<and>
    (\<exists>a \<in> set (db_apps (w_db t)). ar_name a = ap_name p \<and> ar_subdomain a = ap_subdomain p) \<and>
    file_at (w_fs t) CADDY_CONFIG = file_at (w_fs w) CADDY_CONFIG \<and>
    file_at (w_fs t) NGINX_CONFIG = file_at (w_fs w) NGINX_CONFIG"
proof -
  have add: "add_app K json_of p w = (Inl e, t)"
    using assms(1,2) by (simp add: add_app_def io_then_def io_bind_def)
  have t: "w_fs t = w_fs u" "w_db t = w_db u"
    using io_keepsD [OF start_app_keeps(1) [of "\<lambda>f. f = w_fs u"] refl assms(2)]
      io_keepsD [OF start_app_keeps(2) [of "\<lambda>d. d = w_db u"] refl assms(2)] by simp_all
  have "registered json_of p (w_db w) (w_db u)"
    using io_tripleD(1) [OF register_app_triple refl assms(1)] .
  then have "insert_app (record_of json_of p) (w_db w) = (Inr (), w_db t)" by (simp add: registered_def t)
  then have "\<exists>a \<in> set (db_apps (w_db t)). ar_name a = ap_name p \<and> ar_subdomain a = ap_subdomain p"
    by (rule insert_app_cases) (auto simp: record_of_def)
  moreover have "\<not> below APPS_S6_DIR CADDY_CONFIG" "\<not> below APPS_S6_DIR NGINX_CONFIG"
    by (simp_all add: below_def starts_with_iff APPS_S6_DIR_def CADDY_CONFIG_def NGINX_CONFIG_def)
  ultimately show ?thesis
    using add register_app_files [OF assms(1) _ assms(3,4)] t(1) by simp
qed

definition run_params :: add_app_params where
  "run_params = (build_params ''web'' 3001)\<lparr>ap_source := None\<rparr>"

lemma run_params_steps:
  "fst (register_app en_platform (\<lambda>_. []) run_params en_empty) = Inr ()"
  "fst (start_app en_platform run_params (snd (register_app en_platform (\<lambda>_. []) run_params en_empty))) =
     Inl (ToolError ''config written and route added, but service did not come up'')"
  by code_simp+

lemma add_app_down_publishes_nothing_witness:
  "\<exists>e t. add_app en_platform (\<lambda>_. []) run_params en_empty = (Inl e, t) \<and>
     (\<exists>a \<in> set (db_apps (w_db t)). ar_name a = ''web'')"
proof -
  let ?u = "snd (register_app en_platform (\<lambda>_. []) run_params en_empty)"
  have r: "register_app en_platform (\<lambda>_. []) run_params en_empty = (Inr (), ?u)"
    using run_params_steps(1) by (metis prod.collapse)
  obtain t where s: "start_app en_platform run_params ?u =
      (Inl (ToolError ''config written and route added, but service did not come up''), t)"
    using run_params_steps(2) by (metis prod.collapse)
  have n: "\<forall>a \<in> set (db_apps (w_db en_empty)). plain_name (ar_name a)" "plain_name (ap_name run_params)"
    by (simp_all add: en_empty_def run_params_def build_params_def plain_name_def)
  from add_app_down_publishes_nothing [OF r s n] show ?thesis
    by (auto simp: run_params_def build_params_def)
qed

lemma await_respawn_pid: "await_respawn K svc old n w = (Inr new, t) \<Longrightarrow> 0 < new \<and> new \<noteq> old"
proof (induction n arbitrary: w)
  case (Suc n)
  then show ?case by (auto simp: io_Inr_iffs split: if_splits)
qed (simp add: tool_fail_def io_Inr_iffs)

text \<open>
  Restarting an app leaves the database and every file as they were, on every branch; success
  means that the process was up before, is up now, and is a different process.
\<close>

theorem restart_app_outcome:
  assumes "restart_app K name w = (r, t)"
  shows "w_fs t = w_fs w \<and> w_db t = w_db w \<and>
    (\<forall>old new. r = Inr (old, new) \<longrightarrow> 0 < old \<and> 0 < new \<and> new \<noteq> old)"
proof -
  have "w_fs t = w_fs w" "w_db t = w_db w"
    using io_keepsD [OF restart_app_keeps(1) [of "\<lambda>f. f = w_fs w"] refl assms]
      io_keepsD [OF restart_app_keeps(2) [of "\<lambda>d. d = w_db w"] refl assms] by simp_all
  moreover have "0 < old \<and> 0 < new \<and> new \<noteq> old" if "r = Inr (old, new)" for old new
    using assms unfolding that
    by (auto simp: restart_app_def Let_def io_Inr_iffs require_Inr dest: await_respawn_pid)
  ultimately show ?thesis by blast
qed

text \<open>A platform whose supervisor numbers processes by the images it has; a signal starts a new one.\<close>

definition respawn_platform :: "engine platform" where
  "respawn_platform = en_platform\<lparr>pf_spawn := (\<lambda>argv _ e.
     (Some \<lparr>so_success = True, so_code = Some 0,
        so_stdout = (if ''pid'' \<in> set argv then show_nat (length (en_images e)) else []), so_stderr = []\<rparr>,
      if ''-t'' \<in> set argv then e\<lparr>en_images := en_images e @ en_images e\<rparr> else e))\<rparr>"

lemma respawn_run: "fst (restart_app respawn_platform ''web'' en_world) = Inr (1, 2)"
  by code_simp

lemma restart_app_outcome_witness:
  "\<exists>t. restart_app respawn_platform ''web'' en_world = (Inr (1, 2), t) \<and> w_db t = w_db en_world"
proof -
  obtain t where t: "restart_app respawn_platform ''web'' en_world = (Inr (1, 2), t)"
    using respawn_run by (metis prod.collapse)
  with restart_app_outcome [OF t] show ?thesis by blast
qed

text \<open>
  A removal that succeeds took out exactly the rows of the named app. An app that is baked into
  the image is refused before anything changes: neither the database nor any container is touched.
\<close>

theorem remove_app_effect:
  assumes "remove_app K name w = (r, t)" and "apps_separate (w_db w)"
  shows "(r = Inr () \<longrightarrow> db_apps (w_db t) = filter (\<lambda>a. ar_name a \<noteq> name) (db_apps (w_db w))) \<and>
    ((\<exists>a \<in> set (db_apps (w_db w)). ar_name a = name \<and> ar_source a = ''build'') \<longrightarrow>
      r \<noteq> Inr () \<and> w_db t = w_db w \<and> w_ext t = w_ext w)"
proof (intro conjI impI)
  assume "r = Inr ()"
  then show "db_apps (w_db t) = filter (\<lambda>a. ar_name a \<noteq> name) (db_apps (w_db w))"
    using remove_app_db(2) [OF assms(1)] delete_app_apps(1) by blast
next
  assume "\<exists>a \<in> set (db_apps (w_db w)). ar_name a = name \<and> ar_source a = ''build''"
  then obtain a where a: "a \<in> set (db_apps (w_db w))" "ar_name a = name" "ar_source a = ''build''" by blast
  have "distinct (map ar_name (db_apps (w_db w)))" using assms(2) by (simp add: apps_separate_def)
  then have find: "find_app_by_name (w_db w) name = Inr (Some a)" if "\<not> db_down (w_db w)"
    using find_sort_key [of ar_name "db_apps (w_db w)" a ar_name] a that
    by (simp add: find_app_by_name_def list_apps_def)
  obtain q v where v: "db_open w = (q, v)" by force
  have same: "w_db v = w_db w" "w_ext v = w_ext w"
    using io_keepsD [OF db_open_db [of "\<lambda>d. d = w_db w"] refl v] v
    by (auto simp: db_open_def io_then_split on_fs_def split: prod.splits if_splits)
  have down: "q = Inr () \<Longrightarrow> \<not> db_down (w_db w)"
    using v by (auto simp: db_open_def io_Inr_iffs on_fs_def split: prod.splits if_splits)
  show "r \<noteq> Inr ()" "w_db t = w_db w" "w_ext t = w_ext w"
    using assms(1) v same find down a(3)
    by (cases q; auto simp: remove_app_def io_then_def io_bind_def read_db_def require_def tool_fail_def
        io_fail_def)+
qed

lemma remove_app_effect_witness:
  "db_apps (w_db (snd (remove_app en_platform ''web'' en_two_apps))) = db_apps (w_db en_two_apps)"
proof -
  obtain r t where rt: "remove_app en_platform ''web'' en_two_apps = (r, t)" by force
  have s: "apps_separate (w_db en_two_apps)" by (rule tool_session_separate [OF en_two_apps_session])
  have "\<exists>a \<in> set (db_apps (w_db en_two_apps)). ar_name a = ''web'' \<and> ar_source a = ''build''"
    by code_simp
  with remove_app_effect [OF rt s] rt show ?thesis by simp
qed

end
