(* ===== verification/Mcp_Reads.thy ===== *)
theory Mcp_Reads
  imports Mcp_Apps
begin

text \<open>
  The remaining reads of \<^verbatim>\<open>mcp.rs\<close> (a container's state and logs, a file inside a container, the list of
  containers), all read tools under one dispatch, and the proof that none of them changes anything.
\<close>

section \<open>Containers\<close>

record container_report =
  cp_container :: string
  cp_status :: "string option"
  cp_running :: bool
  cp_restart_count :: int
  cp_exit_code :: int
  cp_error :: string
  cp_started_at :: string
  cp_finished_at :: string
  cp_logs :: "string list"

definition or_else :: "'a \<Rightarrow> 'a option \<Rightarrow> 'a" where
  "or_else d x = (case x of Some a \<Rightarrow> a | None \<Rightarrow> d)"

text \<open>The log stream is read up to its first error.\<close>

fun log_lines :: "string dk list \<Rightarrow> string list" where
  "log_lines [] = []"
| "log_lines (Inr message # rest) = trim_end message # log_lines rest"
| "log_lines (Inl _ # rest) = []"

definition report_of :: "string \<Rightarrow> container_info \<Rightarrow> string dk list \<Rightarrow> container_report" where
  "report_of container i logs =
     \<lparr>cp_container = container, cp_status = ci_status i, cp_running = or_else False (ci_running i),
      cp_restart_count = or_else 0 (ci_restart_count i), cp_exit_code = or_else 0 (ci_exit_code i),
      cp_error = or_else [] (ci_error i), cp_started_at = or_else [] (ci_started_at i),
      cp_finished_at = or_else [] (ci_finished_at i), cp_logs = log_lines logs\<rparr>"

definition get_container_info :: "'e platform \<Rightarrow> string \<Rightarrow> ('e world, container_report) io" where
  "get_container_info K service =
     io_then (known_service K service)
    (io_bind (io_read (\<lambda>w. container_name service (state_color_of (w_fs w) service))) (\<lambda>container.
     io_then (docker_connect K)
    (io_bind (dk_ask ''failed to inspect container'' (pf_inspect K container)) (\<lambda>info.
     io_bind (ext_read (pf_logs K container)) (\<lambda>logs.
     io_return (report_of container info logs))))))"

text \<open>The archive arrives in chunks; an error in between ends the tool.\<close>

fun join_chunks :: "string dk list \<Rightarrow> string dk" where
  "join_chunks [] = Inr []"
| "join_chunks (Inl e # _) = Inl e"
| "join_chunks (Inr bytes # rest) = map_sum id ((@) bytes) (join_chunks rest)"

definition first_entry :: "string option option list option \<Rightarrow> string res" where
  "first_entry archive =
     (case archive of
        None \<Rightarrow> Inl (ToolError ''failed to read tar'')
      | Some [] \<Rightarrow> Inr []
      | Some (None # _) \<Rightarrow> Inl (ToolError ''failed to read tar entry'')
      | Some (Some None # _) \<Rightarrow> Inl (ToolError ''failed to read file content'')
      | Some (Some (Some content) # _) \<Rightarrow> Inr content)"

text \<open>\<open>None\<close> stands for the answer that the file is empty.\<close>

definition read_container_file ::
  "'e platform \<Rightarrow> string \<Rightarrow> string \<Rightarrow> ('e world, (string \<times> string) option) io" where
  "read_container_file K service path =
     io_then (known_service K service)
    (if \<not> starts_with ''/'' path then io_fail (ToolError ''path must be absolute'')
     else io_bind (io_read (\<lambda>w. container_name service (state_color_of (w_fs w) service))) (\<lambda>container.
          io_then (docker_connect K)
         (io_bind (ext_read (pf_download K container path)) (\<lambda>chunks.
            case join_chunks chunks of
              Inl e \<Rightarrow> io_fail (DockerError e ''error reading from container'')
            | Inr bytes \<Rightarrow>
                if bytes = [] then io_fail (ToolError ''no data returned'')
                else io_bind (io_lift (first_entry (pf_untar K bytes))) (\<lambda>content.
                       io_return (if content = [] then None else Some (container, content)))))))"

definition list_containers :: "'e platform \<Rightarrow> ('e world, string) io" where
  "list_containers K =
     shell_output K [''docker'', ''ps'', ''-a'', ''--format'',
       ''table {{.Names}}'' @ [CHR 0x09] @ ''{{.Image}}'' @ [CHR 0x09] @ ''{{.Status}}'' @ [CHR 0x09] @ ''{{.Ports}}'']"

section \<open>All read tools\<close>

datatype read_tool =
  GetStatus | GetRoutes | ListImages string | GetContainerInfo string | ReadContainerFile string string
| RunPreflight | DiagnoseTool | ListServices | GetService string | GetSupervisorStatus string
| GetContainerPorts string | GetCaddyfile | CheckPortListening u16 | GetHostSupervisorStatus
| GetTailscaleStatus | GetDiskUsage | ListContainers | ListApps | GetAppStatus

text \<open>A call with its answer forgotten.\<close>

definition void :: "('s, 'a) io \<Rightarrow> ('s, unit) io" where
  "void m = io_bind m (\<lambda>_. io_return ())"

fun read_tool_call :: "'e platform \<Rightarrow> read_tool \<Rightarrow> ('e world, unit) io" where
  "read_tool_call K GetStatus = void (get_status K)"
| "read_tool_call K GetRoutes = void (get_routes K)"
| "read_tool_call K (ListImages s) = void (list_images K s)"
| "read_tool_call K (GetContainerInfo s) = void (get_container_info K s)"
| "read_tool_call K (ReadContainerFile s p) = void (read_container_file K s p)"
| "read_tool_call K RunPreflight = void (run_preflight K)"
| "read_tool_call K DiagnoseTool = void (diagnose_run K)"
| "read_tool_call K ListServices = void (read_fs list_services)"
| "read_tool_call K (GetService n) = void (read_fs (get_service n))"
| "read_tool_call K (GetSupervisorStatus s) = void (get_supervisor_status K s)"
| "read_tool_call K (GetContainerPorts s) = void (get_container_ports K s)"
| "read_tool_call K GetCaddyfile = void (read_fs get_caddyfile)"
| "read_tool_call K (CheckPortListening p) = void (check_port_listening K p)"
| "read_tool_call K GetHostSupervisorStatus = void (get_host_supervisor_status K)"
| "read_tool_call K GetTailscaleStatus = void (get_tailscale_status K)"
| "read_tool_call K GetDiskUsage = void (get_disk_usage K)"
| "read_tool_call K ListContainers = void (list_containers K)"
| "read_tool_call K ListApps = void list_apps_tool"
| "read_tool_call K GetAppStatus = void (get_app_status K)"

section \<open>Read only\<close>

text \<open>Which containers run, the contents of every file, and the database.\<close>

definition content :: "('e \<Rightarrow> string \<Rightarrow> bool) \<Rightarrow> 'e world \<Rightarrow> (string \<Rightarrow> bool) \<times> (string \<times> string) list \<times> db" where
  "content up w = (up (w_ext w), files (w_fs w), w_db w)"

named_theorems read_only \<open>operations that change no content\<close>

lemma read_only_calls:
  assumes "docker_laws K up"
  shows "neutral up g \<Longrightarrow> io_keeps (\<lambda>w. content up w = x) (dk_call g)"
    "neutral up g \<Longrightarrow> io_keeps (\<lambda>w. content up w = x) (dk_ask what g)"
    "neutral up h \<Longrightarrow> io_keeps (\<lambda>w. content up w = x) (ext_read h)"
    "neutral up b \<Longrightarrow> io_keeps (\<lambda>w. content up w = x) (ext_bool b)"
    "harmless argv \<Longrightarrow> io_keeps (\<lambda>w. content up w = x) (shell_output K argv)"
    "harmless argv \<Longrightarrow> io_keeps (\<lambda>w. content up w = x) (spawn K argv envs)"
proof -
  have call: "neutral up g \<Longrightarrow> io_keeps (\<lambda>w. content up w = x) (dk_call g)" for g
    by (auto simp: io_keeps_def content_def dk_call_def neutral_def split_beta)
  show "neutral up g \<Longrightarrow> io_keeps (\<lambda>w. content up w = x) (dk_call g)" by (rule call)
  show "neutral up g \<Longrightarrow> io_keeps (\<lambda>w. content up w = x) (dk_ask what g)"
    unfolding dk_ask_def by (intro io_keeps_bind call) (auto intro: io_keeps_basic split: sum.split)
  show "neutral up h \<Longrightarrow> io_keeps (\<lambda>w. content up w = x) (ext_read h)"
    by (auto simp: io_keeps_def content_def ext_read_def neutral_def split_beta)
  show "neutral up b \<Longrightarrow> io_keeps (\<lambda>w. content up w = x) (ext_bool b)"
    by (auto simp: io_keeps_def content_def ext_bool_def neutral_def split_beta)
  have sp: "harmless argv \<Longrightarrow> io_keeps (\<lambda>w. content up w = x) (spawn K argv envs)" for envs
    using laws_spawn [OF assms, of argv envs]
    by (auto simp: io_keeps_def content_def spawn_def neutral_def split_beta)
  show "harmless argv \<Longrightarrow> io_keeps (\<lambda>w. content up w = x) (spawn K argv envs)" by (rule sp)
  show "harmless argv \<Longrightarrow> io_keeps (\<lambda>w. content up w = x) (shell_output K argv)"
    unfolding shell_output_def by (intro io_keeps_bind sp) (auto intro: io_keeps_basic split: option.split)
qed

lemma read_only_db_open [read_only]: "io_keeps (\<lambda>w. content up w = x) db_open"
proof -
  have dir: "io_keeps (\<lambda>w. content up w = x) (on_fs (create_dir_all p))" for p
    using create_dir_all_frame(1) [of p] by (simp add: io_keeps_def on_fs_def content_def split: prod.split)
  have open': "io_keeps (\<lambda>w. content up w = x)
      (\<lambda>w. if db_down (w_db w) then (Inl e, w) else (Inr (), w))" for e
    by (simp add: io_keeps_def)
  show ?thesis unfolding db_open_def by (intro io_keeps_then dir open')
qed

lemma read_only_reads [read_only]:
  "io_keeps (\<lambda>w. content up w = x) (read_fs g)" "io_keeps (\<lambda>w. content up w = x) (read_db h)"
  "io_keeps (\<lambda>w. content up w = x) (docker_connect K)" "io_keeps (\<lambda>w. content up w = x) (known_service K s)"
  "io_keeps (\<lambda>w. content up w = x) (\<lambda>w. (r w, w))"
  by (auto simp: io_keeps_def read_fs_def read_db_def docker_connect_def known_service_def split: sum.split)

lemmas read_only_rules = read_only io_keeps_bind io_keeps_then io_keeps_basic io_keeps_try io_keeps_when
  io_keeps_if io_keeps_map

lemma read_only_parts:
  assumes "docker_laws K up"
  shows "io_keeps (\<lambda>w. content up w = x) (service_status_of K def)"
    "io_keeps (\<lambda>w. content up w = x) (list_local K s)"
    "io_keeps (\<lambda>w. content up w = x) (svc_stats K s)"
    "io_keeps (\<lambda>w. content up w = x) (container_exec K s cmd)"
    "io_keeps (\<lambda>w. content up w = x) (diagnose_service K previews def)"
    "io_keeps (\<lambda>w. content up w = x) (shell_ss K)"
    "io_keeps (\<lambda>w. content up w = x) (check_supervisord K)"
    "io_keeps (\<lambda>w. content up w = x) (check_tailscale K)"
    "io_keeps (\<lambda>w. content up w = x) (check_caddy K)"
proof -
  note calls = read_only_calls [OF assms] laws_neutral [OF assms]
  have exec: "io_keeps (\<lambda>w. content up w = x) (container_exec K s cmd)" for s cmd
    unfolding container_exec_def by (intro read_only_rules calls) simp
  show "io_keeps (\<lambda>w. content up w = x) (container_exec K s cmd)" by (rule exec)
  show "io_keeps (\<lambda>w. content up w = x) (service_status_of K def)"
    unfolding service_status_of_def Let_def by (intro read_only_rules calls)
  show "io_keeps (\<lambda>w. content up w = x) (list_local K s)"
    unfolding list_local_def by (intro read_only_rules calls)
  show "io_keeps (\<lambda>w. content up w = x) (svc_stats K s)"
    unfolding svc_stats_def by (intro read_only_rules exec)
  have insp: "io_keeps (\<lambda>w. content up w = x) (inspect_container K n)" for n
    unfolding inspect_container_def by (intro read_only_rules calls)
  show "io_keeps (\<lambda>w. content up w = x) (diagnose_service K previews def)"
    unfolding diagnose_service_def Let_def by (intro read_only_rules insp)
  show "io_keeps (\<lambda>w. content up w = x) (shell_ss K)"
    unfolding shell_ss_def by (intro read_only_rules calls) simp
  show "io_keeps (\<lambda>w. content up w = x) (check_supervisord K)"
    unfolding check_supervisord_def by (intro io_keeps_bind calls) (auto intro: read_only_rules split: option.split)
  show "io_keeps (\<lambda>w. content up w = x) (check_tailscale K)"
    unfolding check_tailscale_def by (intro io_keeps_bind calls) (auto intro: read_only_rules split: option.split)
  show "io_keeps (\<lambda>w. content up w = x) (check_caddy K)"
    unfolding check_caddy_def by (intro read_only_rules calls)
qed

lemma read_tool_keeps:
  assumes "docker_laws K up"
  shows "io_keeps (\<lambda>w. content up w = x) (read_tool_call K tool)"
proof -
  note calls = read_only_calls [OF assms] laws_neutral [OF assms] read_only_parts [OF assms]
  have check: "io_keeps (\<lambda>w. content up w = x) m \<Longrightarrow> io_keeps (\<lambda>w. content up w = x) (run_check n m)" for n m
    unfolding run_check_def by (intro read_only_rules)
  have download: "io_keeps (\<lambda>w. content up w = x) (read_container_file K s p)" for s p
    unfolding read_container_file_def
    by (intro read_only_rules calls) (auto intro!: read_only_rules split: sum.split)
  have sup: "io_keeps (\<lambda>w. content up w = x) (get_supervisor_status K s)" for s
    unfolding get_supervisor_status_def
    by (intro read_only_rules calls) (auto intro!: read_only_rules calls split: sum.split)
  show ?thesis
  proof (cases tool)
    case RunPreflight
    then show ?thesis
      unfolding RunPreflight read_tool_call.simps void_def run_preflight_def
      by (intro read_only_rules check calls)
  next
    case GetRoutes
    show ?thesis
      unfolding GetRoutes read_tool_call.simps void_def get_routes_def by (intro read_only_rules calls) simp
  next
    case DiagnoseTool
    show ?thesis
      unfolding DiagnoseTool read_tool_call.simps void_def diagnose_run_def by (intro read_only_rules calls)
  qed (simp only: read_tool_call.simps void_def, intro read_only_rules download sup;
      (simp only: get_status_def list_images_def get_container_info_def get_container_ports_def
        check_port_listening_def get_host_supervisor_status_def get_tailscale_status_def get_disk_usage_def
        list_containers_def list_apps_tool_def get_app_status_def)?; (intro read_only_rules calls)?; (simp; fail)?)+
qed

section \<open>Correctness\<close>



end
