(* ===== verification/Resumption.thy ===== *)
theory Resumption
  imports Effects
begin

text \<open>
  Programs whose calls are atomic steps: an effectful function cut at the points where other processes
  can run. A program is run to its end, or interleaved with others one step at a time. Rely and
  guarantee judgements say what holds at every point of a program while others change the state.
\<close>

section \<open>Programs\<close>

datatype ('s, 'a) prog =
  Ended "'a res"
| Next "'s \<Rightarrow> ('s, 'a) prog \<times> 's"

primrec seq :: "('s, 'a) prog \<Rightarrow> ('a \<Rightarrow> ('s, 'b) prog) \<Rightarrow> ('s, 'b) prog" where
  "seq (Ended r) = (\<lambda>k. case r of Inl e \<Rightarrow> Ended (Inl e) | Inr a \<Rightarrow> k a)"
| "seq (Next f) = (\<lambda>k. Next (\<lambda>s. map_prod (\<lambda>g. g k) id ((map_prod seq id \<circ> f) s)))"

definition call :: "('s, 'a) io \<Rightarrow> ('s, 'a) prog" where
  "call m = Next (\<lambda>s. map_prod Ended id (m s))"

abbreviation afterwards :: "('s, 'a) prog \<Rightarrow> ('s, 'b) prog \<Rightarrow> ('s, 'b) prog" where
  "afterwards p q \<equiv> seq p (\<lambda>_. q)"

definition ends :: "'a \<Rightarrow> ('s, 'a) prog" where
  "ends a = Ended (Inr a)"

definition fails :: "error \<Rightarrow> ('s, 'a) prog" where
  "fails e = Ended (Inl e)"

lemma seq_assoc: "seq (seq p k) l = seq p (\<lambda>a. seq (k a) l)"
proof (induction p)
  case (Ended r)
  show ?case by (cases r) simp_all
next
  case (Next f)
  have "seq (seq (fst (f s)) k) l = seq (fst (f s)) (\<lambda>a. seq (k a) l)" for s
    using Next [of "f s" "fst (f s)"] by (simp add: fsts.intros)
  then show ?case by (simp add: map_prod_def split_beta)
qed

text \<open>Without interference.\<close>

primrec run_prog :: "('s, 'a) prog \<Rightarrow> ('s, 'a) io" where
  "run_prog (Ended r) = (\<lambda>s. (r, s))"
| "run_prog (Next f) = (\<lambda>s. case (map_prod run_prog id \<circ> f) s of (m, t) \<Rightarrow> m t)"

named_theorems prog_run \<open>what a program does when it runs alone\<close>

lemma run_seq [prog_run]: "run_prog (seq p k) = io_bind (run_prog p) (\<lambda>a. run_prog (k a))"
proof (induction p arbitrary: k)
  case (Ended r)
  show ?case by (cases r) (simp_all add: io_bind_def fun_eq_iff)
next
  case (Next f)
  have step: "run_prog (seq (fst (f s)) k) t = io_bind (run_prog (fst (f s))) (\<lambda>a. run_prog (k a)) t" for s t
    using Next [of "f s" "fst (f s)" k] by (simp add: fsts.intros)
  show ?case
    by (rule ext) (simp add: io_bind_def split_beta map_prod_def step [unfolded io_bind_def split_beta])
qed

lemma run_call [prog_run]: "run_prog (call m) = m"
  by (simp add: call_def fun_eq_iff split_beta map_prod_def)

lemma run_basic [prog_run]:
  "run_prog (ends a) = io_return a" "run_prog (fails e) = io_fail e"
  "run_prog (if b then p else q) = (if b then run_prog p else run_prog q)"
  by (simp_all add: ends_def fails_def io_return_def io_fail_def fun_eq_iff)

section \<open>Guarantees\<close>

text \<open>Every step of the program, from whatever state it is taken, is one of \<open>G\<close>.\<close>

primrec steps_in :: "('s \<Rightarrow> 's \<Rightarrow> bool) \<Rightarrow> ('s, 'a) prog \<Rightarrow> bool" where
  "steps_in G (Ended r) = True"
| "steps_in G (Next f) = (\<forall>s. case (map_prod (steps_in G) id \<circ> f) s of (b, t) \<Rightarrow> b \<and> G s t)"

lemma steps_in_Next:
  "steps_in G (Next f) \<longleftrightarrow> (\<forall>s. steps_in G (fst (f s)) \<and> G s (snd (f s)))"
  by (simp add: split_beta)

lemma steps_in_step: "steps_in G (Next f) \<Longrightarrow> f s = (p, t) \<Longrightarrow> G s t \<and> steps_in G p"
  unfolding steps_in_Next by (metis fst_conv snd_conv)

named_theorems guar \<open>introduction rules for guarantees\<close>

lemma steps_in_seq [guar]:
  assumes "steps_in G p" and "\<And>a. steps_in G (k a)"
  shows "steps_in G (seq p k)"
  using assms(1)
proof (induction p)
  case (Ended r)
  then show ?case using assms(2) by (cases r) simp_all
next
  case (Next f)
  have "steps_in G (seq (fst (f s)) k)" for s
    using Next.IH [of "f s" "fst (f s)"] Next.prems unfolding steps_in_Next by (simp add: fsts.intros)
  then show ?case
    using Next.prems unfolding steps_in_Next by (simp add: split_beta map_prod_def)
qed

lemma steps_in_call [guar]: "(\<And>s. G s (snd (m s))) \<Longrightarrow> steps_in G (call m)"
  by (simp add: call_def split_beta map_prod_def)

lemma steps_in_basic [guar]:
  "steps_in G (ends a)" "steps_in G (fails e)"
  "(b \<Longrightarrow> steps_in G p) \<Longrightarrow> (\<not> b \<Longrightarrow> steps_in G q) \<Longrightarrow> steps_in G (if b then p else q)"
  by (simp_all add: ends_def fails_def)

section \<open>Rely\<close>

text \<open>
  While others make steps of \<open>R\<close> before and after each of its own, the program meets \<open>I\<close> in every
  state, and its result, if it succeeds, meets \<open>Q\<close>.
\<close>

primrec rely ::
  "('s \<Rightarrow> 's \<Rightarrow> bool) \<Rightarrow> ('s \<Rightarrow> bool) \<Rightarrow> ('a \<Rightarrow> 's \<Rightarrow> bool) \<Rightarrow> ('s, 'a) prog \<Rightarrow> 's \<Rightarrow> bool" where
  "rely R I Q (Ended r) = (\<lambda>s. \<forall>t. R s t \<longrightarrow> I t \<and> (\<forall>a. r = Inr a \<longrightarrow> Q a t))"
| "rely R I Q (Next f) =
     (\<lambda>s. \<forall>t. R s t \<longrightarrow> I t \<and> (case (map_prod (rely R I Q) id \<circ> f) t of (g, u) \<Rightarrow> g u))"

locale interference =
  fixes R :: "'s \<Rightarrow> 's \<Rightarrow> bool" and I :: "'s \<Rightarrow> bool"
  assumes still: "R s s" and longer: "R s t \<Longrightarrow> R t u \<Longrightarrow> R s u"
begin

lemma rely_Next: "rely R I Q (Next f) s \<longleftrightarrow> (\<forall>t. R s t \<longrightarrow> I t \<and> rely R I Q (fst (f t)) (snd (f t)))"
  by (simp add: split_beta)

lemma rely_env: "rely R I Q p s \<Longrightarrow> R s t \<Longrightarrow> rely R I Q p t"
  by (cases p) (auto simp only: rely.simps intro: longer)

lemma rely_now: "rely R I Q p s \<Longrightarrow> I s"
  by (cases p) (auto simp only: rely.simps intro: still)

lemma rely_step: "rely R I Q (Next f) s \<Longrightarrow> f s = (p, t) \<Longrightarrow> rely R I Q p t"
  unfolding rely_Next by (metis still fst_conv snd_conv)

lemma rely_result: "rely R I Q (Ended (Inr a)) s \<Longrightarrow> Q a s"
  using still by simp

lemma rely_seq:
  assumes "rely R I Q p s" and "\<And>a t. Q a t \<Longrightarrow> rely R I Q' (k a) t"
  shows "rely R I Q' (seq p k) s"
  using assms(1)
proof (induction p arbitrary: s)
  case (Ended r)
  show ?case
  proof (cases r)
    case (Inl e)
    with Ended show ?thesis by simp
  next
    case (Inr a)
    with Ended assms(2) still show ?thesis by simp
  qed
next
  case (Next f)
  show ?case
    unfolding seq.simps rely_Next
  proof (intro allI impI conjI)
    fix t assume t: "R s t"
    from Next.prems t show "I t" unfolding rely_Next by blast
    have "rely R I Q (fst (f t)) (snd (f t))" using Next.prems t unfolding rely_Next by blast
    then have "rely R I Q' (seq (fst (f t)) k) (snd (f t))"
      using Next.IH [of "f t" "fst (f t)"] by (simp add: fsts.intros)
    then show "rely R I Q' (fst (map_prod (\<lambda>g. g k) id ((map_prod seq id \<circ> f) t)))
        (snd (map_prod (\<lambda>g. g k) id ((map_prod seq id \<circ> f) t)))"
      by (simp add: map_prod_def split_beta)
  qed
qed

definition stable :: "('s \<Rightarrow> bool) \<Rightarrow> bool" where
  "stable P \<longleftrightarrow> (\<forall>s t. P s \<longrightarrow> R s t \<longrightarrow> P t) \<and> (\<forall>s. P s \<longrightarrow> I s)"

lemma stable_ends: "stable P \<Longrightarrow> P s \<Longrightarrow> (\<And>t. P t \<Longrightarrow> Q a t) \<Longrightarrow> rely R I Q (ends a) s"
  by (auto simp: ends_def stable_def)

lemma stable_fails: "stable P \<Longrightarrow> P s \<Longrightarrow> rely R I Q (fails e) s"
  by (auto simp: fails_def stable_def)

lemma stable_call:
  assumes "stable P" and "\<And>a. stable (Q a)" and "stable E" and "io_triple P m Q E" and "P s"
  shows "rely R I Q (call m) s"
proof -
  have run: "rely R I Q (Ended r) u" if m: "m t = (r, u)" and t: "P t" for t r u
  proof (cases r)
    case (Inl e)
    with io_tripleD(2) [OF assms(4) t] m assms(3) show ?thesis unfolding stable_def by auto
  next
    case (Inr a)
    with io_tripleD(1) [OF assms(4) t] m assms(2) show ?thesis unfolding stable_def by simp blast
  qed
  show ?thesis
    unfolding call_def rely_Next
  proof (intro allI impI conjI)
    fix t assume "R s t"
    with assms(1,5) have t: "P t" "I t" unfolding stable_def by blast+
    then show "I t" by blast
    show "rely R I Q (fst (map_prod Ended id (m t))) (snd (map_prod Ended id (m t)))"
      using run [OF _ t(1)] by (cases "m t") simp
  qed
qed

text \<open>The judgement: from states with \<open>P\<close>, every result meets \<open>Q\<close>, and \<open>I\<close> holds all along.\<close>

definition sat :: "('s \<Rightarrow> bool) \<Rightarrow> ('s, 'a) prog \<Rightarrow> ('a \<Rightarrow> 's \<Rightarrow> bool) \<Rightarrow> bool" where
  "sat P p Q \<longleftrightarrow> (\<forall>s. P s \<longrightarrow> rely R I Q p s)"

lemma sat_seq: "sat P p M \<Longrightarrow> (\<And>a. sat (M a) (k a) Q) \<Longrightarrow> sat P (seq p k) Q"
  unfolding sat_def by (intro allI impI, rule rely_seq [of M]) simp_all

lemma sat_ends: "stable (Q a) \<Longrightarrow> sat (Q a) (ends a) Q"
  unfolding sat_def by (intro allI impI, rule stable_ends)

lemma sat_fails: "stable P \<Longrightarrow> sat P (fails e) Q"
  unfolding sat_def by (intro allI impI, rule stable_fails)

lemma sat_if: "(b \<Longrightarrow> sat P p Q) \<Longrightarrow> (\<not> b \<Longrightarrow> sat P q Q) \<Longrightarrow> sat P (if b then p else q) Q"
  by simp

lemma sat_call:
  "io_triple P m Q E \<Longrightarrow> stable P \<Longrightarrow> (\<And>a. stable (Q a)) \<Longrightarrow> stable E \<Longrightarrow> sat P (call m) Q"
  unfolding sat_def by (intro allI impI, rule stable_call)

lemma sat_keeps: "io_keeps P m \<Longrightarrow> stable P \<Longrightarrow> sat P (call m) (\<lambda>_. P)"
  by (rule sat_call) (simp_all add: io_keeps_iff_triple)

lemma rely_weaken:
  assumes "rely R I Q p s" and "\<And>a t. Q a t \<Longrightarrow> Q' a t"
  shows "rely R I Q' p s"
  using assms(1)
proof (induction p arbitrary: s)
  case (Next f)
  have "rely R I Q' (fst (f t)) (snd (f t))" if "R s t" for t
    using Next.IH [of "f t" "fst (f t)"] Next.prems that unfolding rely_Next by (simp add: fsts.intros)
  with Next.prems show ?case unfolding rely_Next by blast
qed (use assms(2) in auto)

lemma sat_weaken:
  assumes "sat P p Q" and "\<And>s. P' s \<Longrightarrow> P s" and "\<And>a s. Q a s \<Longrightarrow> Q' a s"
  shows "sat P' p Q'"
  unfolding sat_def
  by (intro allI impI, rule rely_weaken [OF _ assms(3)]) (use assms(1,2) in \<open>simp_all add: sat_def\<close>)

lemma sat_given: "(b \<Longrightarrow> sat P p Q) \<Longrightarrow> sat (\<lambda>s. P s \<and> b) p Q"
  by (simp add: sat_def)

end

end
