(* ===== verification/Deploy_Steps.thy ===== *)
theory Deploy_Steps
  imports Deploy_Entry Resumption
begin

text \<open>
  The deployment core of \<^verbatim>\<open>deploy.rs\<close> cut at its awaits: every call of a \<^verbatim>\<open>DeployDeps\<close> method and every
  lookup is one atomic step, and other processes run in between. Each program, run alone, is the
  function of \<open>Deploy\<close> and \<open>Deploy_Entry\<close> it was cut from; under interference that leaves the containers
  and the record of its service alone, the recorded color runs at every point of it.
\<close>

section \<open>The programs\<close>

definition start_prog ::
  "'s deploy_deps \<Rightarrow> service_def \<Rightarrow> string \<Rightarrow> color \<Rightarrow> ('s, unit) prog" where
  "start_prog D def sha inactive =
     afterwards (call (dd_validate D def sha inactive))
    (afterwards (call (dd_remove_container D (container_name (sd_service def) inactive)))
    (afterwards (call (dd_ensure_nginx_config D))
    (afterwards (call (dd_start_container D def sha inactive))
    (call (dd_health_check D def inactive)))))"

definition cutover_prog ::
  "'s deploy_deps \<Rightarrow> service_def \<Rightarrow> string \<Rightarrow> color \<Rightarrow> color \<Rightarrow> ('s, unit) prog" where
  "cutover_prog D def sha active inactive =
     (let inactive_container = container_name (sd_service def) inactive;
          active_container = container_name (sd_service def) active
      in seq (call (dd_container_running D inactive_container)) (\<lambda>running.
           if \<not> running then fails (CutoverRefused inactive_container active_container)
           else afterwards (call (dd_write_active D (sd_service def) inactive))
               (afterwards (call (dd_write_active_sha D (sd_service def) sha))
               (afterwards (call (dd_apply_caddy D))
               (afterwards (call (dd_stop_container D active_container))
               (call (dd_prune_images D (sd_service def))))))))"

definition deploy_prog :: "'s deploy_deps \<Rightarrow> service_def \<Rightarrow> string \<Rightarrow> ('s, unit) prog" where
  "deploy_prog D def sha =
     afterwards (call (dd_preflight D))
    (afterwards (call (dd_ensure_network D (sd_network def)))
    (seq (call (dd_read_active D (sd_service def))) (\<lambda>active.
       let inactive = flip active;
           rest = afterwards (start_prog D def sha inactive) (cutover_prog D def sha active inactive)
       in seq (call (io_read (dd_read_active_sha D (sd_service def)))) (\<lambda>recorded.
            if recorded = Some sha
            then seq (call (dd_container_running D (container_name (sd_service def) active))) (\<lambda>running.
                   if running then ends () else rest)
            else rest))))"

definition stage_prog :: "'s deploy_deps \<Rightarrow> service_def \<Rightarrow> string \<Rightarrow> ('s, color) prog" where
  "stage_prog D def sha =
     afterwards (call (dd_preflight D))
    (afterwards (call (dd_ensure_network D (sd_network def)))
    (seq (call (dd_read_active D (sd_service def))) (\<lambda>active.
       afterwards (start_prog D def sha (flip active)) (ends (flip active)))))"

definition cancel_prog :: "'s deploy_deps \<Rightarrow> service_def \<Rightarrow> ('s, unit) prog" where
  "cancel_prog D def =
     seq (call (dd_read_active D (sd_service def))) (\<lambda>active.
       let container = container_name (sd_service def) (flip active)
       in afterwards (call (dd_stop_container D container))
         (afterwards (call (dd_remove_container D container))
         (call (dd_prune_images D (sd_service def)))))"

definition plan_prog ::
  "'e platform \<Rightarrow> service_def \<Rightarrow> string \<Rightarrow> color \<Rightarrow> cutover_plan \<Rightarrow> ('e world, unit) prog" where
  "plan_prog K def service active plan =
     (let D = real_deps K; inactive = flip active
      in case plan of
           Promote sha staged \<Rightarrow>
             if staged then cutover_prog D def sha active inactive
             else seq (call (container_runs_image K def inactive sha)) (\<lambda>already_up.
                    afterwards (if \<not> already_up then start_prog D def sha inactive else ends ())
                      (cutover_prog D def sha active inactive))
         | NothingNewer _ _ \<Rightarrow> ends ()
         | NoLocalImages \<Rightarrow> fails (NoLocalImagesFor service)
         | StalePreview sha \<Rightarrow> fails (StalePreviewFor service sha))"

definition switch_prog ::
  "'e platform \<Rightarrow> string \<Rightarrow> string option \<Rightarrow> string option \<Rightarrow> service_def \<Rightarrow> ('e world, unit) prog" where
  "switch_prog K service sha_opt preview def =
     seq (call (dd_read_active (real_deps K) (sd_service def))) (\<lambda>active.
     seq (case preview of
            Some p \<Rightarrow> call (container_runs_image K def (flip active) p)
          | None \<Rightarrow> ends False) (\<lambda>preview_staged.
     seq (call (list_local K (sd_service def))) (\<lambda>images.
     seq (call (container_image_tag K (container_name (sd_service def) active))) (\<lambda>active_image.
       plan_prog K def service active
         (plan_cutover sha_opt preview preview_staged
            (case images of [] \<Rightarrow> None | i # _ \<Rightarrow> Some i)
            (case active_image of Some t \<Rightarrow> t | None \<Rightarrow> []))))))"

lemma run_start: "run_prog (start_prog D def sha c) = start_inactive D def sha c"
  by (simp add: start_prog_def start_inactive_def prog_run io_then_def)

lemma run_cutover_prog: "run_prog (cutover_prog D def sha a c) = cutover D def sha a c"
  by (simp add: cutover_prog_def cutover_def prog_run io_then_def Let_def cong: if_cong)

lemma run_plan: "run_prog (plan_prog K def service a plan) = execute_plan K def service a plan"
  by (cases plan)
    (simp_all add: plan_prog_def execute_plan_def prog_run run_start run_cutover_prog io_then_def Let_def
      io_when_def cong: if_cong)

lemma run_deploy: "run_prog (deploy_prog D def sha) = deploy_service D def sha"
  by (simp add: deploy_prog_def deploy_service_def prog_run run_start run_cutover_prog io_then_def Let_def
      cong: if_cong)

text \<open>Run without interference, each program is the function it was cut from.\<close>

lemma commands_run_alone:
  "run_prog (deploy_prog D def sha) = deploy_service D def sha \<and>
   run_prog (stage_prog (real_deps K) def sha) = preview_steps K sha def \<and>
   run_prog (switch_prog K service sha_opt preview def) = cutover_steps K service sha_opt preview def \<and>
   run_prog (cancel_prog (real_deps K) def) = cancel_steps K def"
proof (intro conjI)
  show "run_prog (deploy_prog D def sha) = deploy_service D def sha" by (rule run_deploy)
  show "run_prog (stage_prog (real_deps K) def sha) = preview_steps K sha def"
    by (simp add: stage_prog_def preview_steps_def prog_run run_start io_then_def)
  have pre: "run_prog (case preview of Some p \<Rightarrow> call (f p) | None \<Rightarrow> ends False) =
      (case preview of Some p \<Rightarrow> f p | None \<Rightarrow> io_return False)" for f
    by (cases preview) (simp_all add: prog_run)
  show "run_prog (switch_prog K service sha_opt preview def) = cutover_steps K service sha_opt preview def"
    by (simp add: switch_prog_def cutover_steps_def prog_run run_plan pre)
  show "run_prog (cancel_prog (real_deps K) def) = cancel_steps K def"
    by (simp add: cancel_prog_def cancel_steps_def prog_run io_then_def Let_def)
qed

section \<open>One service under interference\<close>

context deploy_host begin

text \<open>What other processes do to a service: nothing to its record, and they stop none of its containers.\<close>

definition untouched :: "'s \<Rightarrow> 's \<Rightarrow> bool" where
  "untouched s t \<longleftrightarrow> color t = color s \<and> sha_of t = sha_of s \<and>
     (\<forall>c. up s (container_name svc c) \<longrightarrow> up t (container_name svc c))"

end

sublocale deploy_host \<subseteq> others: interference untouched serving
  by unfold_locales (simp_all add: untouched_def)

context deploy_host begin

definition staged :: "color \<Rightarrow> bool \<Rightarrow> 's \<Rightarrow> bool" where
  "staged a b s \<longleftrightarrow> live True a s \<and> (b \<longrightarrow> up s (container_name svc (flip a)))"

lemma stable_views:
  "others.stable (live True a)" "others.stable (staged a b)" "others.stable (promoted a)"
  "others.stable (finished sha a)" "others.stable (\<lambda>s. finished sha a s \<or> kept sha s)" "others.stable serving"
  "others.stable (\<lambda>s. live True a s \<and> c)" "others.stable (\<lambda>s. live True a s \<and> sha_of s = h)"
  by (auto simp: others.stable_def live_def staged_def promoted_def finished_def kept_def serving_def untouched_def)

lemma live_calls:
  "quiet (\<lambda>s. (up s, color s, sha_of s)) m \<Longrightarrow> others.sat (live True a) (call m) (\<lambda>_. live True a)"
  "local_to up (\<lambda>s. (color s, sha_of s)) (container_name svc (flip a)) m \<Longrightarrow>
   others.sat (live True a) (call m) (\<lambda>_. live True a)"
  by (intro others.sat_keeps stable_views quiet_live local_live; assumption)+

lemma start_prog_sat:
  assumes "sd_service def = svc"
  shows "others.sat (live True a) (start_prog D def sha (flip a)) (\<lambda>_. live True a)"
  unfolding start_prog_def assms
  by (rule others.sat_seq [OF live_calls(1) [OF quiet_validate]],
      rule others.sat_seq [OF live_calls(2) [OF remove_local]],
      rule others.sat_seq [OF live_calls(1) [OF quiet_nginx]],
      rule others.sat_seq [OF live_calls(2) [OF start_local [OF assms]]],
      rule live_calls(2) [OF health_local [OF assms]])

lemma running_sat: "others.sat (live True a) (call (dd_container_running D (container_name svc (flip a)))) (staged a)"
proof -
  have "io_triple (live True a) (dd_container_running D (container_name svc (flip a))) (staged a) serving"
    by (rule io_triple_weaken [OF triple_running [of True]]) (simp_all add: staged_def)
  then show ?thesis by (rule others.sat_call) (rule stable_views)+
qed

lemma write_sat:
  "others.sat (staged a True) (call (dd_write_active D svc (flip a))) (\<lambda>_. promoted a)"
  "others.sat (promoted a) (call (dd_write_active_sha D svc sha)) (\<lambda>_. finished sha a)"
proof -
  have w: "io_triple (staged a True) (dd_write_active D svc (flip a)) (\<lambda>_. promoted a) serving"
    by (rule io_triple_weaken [OF triple_write_active [of True]]) (simp_all add: staged_def)
  show "others.sat (staged a True) (call (dd_write_active D svc (flip a))) (\<lambda>_. promoted a)"
    by (rule others.sat_call [OF w]) (rule stable_views)+
  have h: "io_triple (promoted a) (dd_write_active_sha D svc sha) (\<lambda>_. finished sha a) serving"
    by (rule io_triple_weaken [OF triple_write_sha [of _ _ True]]) simp_all
  show "others.sat (promoted a) (call (dd_write_active_sha D svc sha)) (\<lambda>_. finished sha a)"
    by (rule others.sat_call [OF h]) (rule stable_views)+
qed

lemma finished_calls:
  "quiet (\<lambda>s. (up s, color s, sha_of s)) m \<Longrightarrow> others.sat (finished sha a) (call m) (\<lambda>_. finished sha a)"
  "others.sat (finished sha a) (call (dd_stop_container D (container_name svc a))) (\<lambda>_. finished sha a)"
  by (intro others.sat_keeps stable_views finished_quiet finished_stop; assumption?)+

lemma cutover_prog_sat:
  assumes "sd_service def = svc"
  shows "others.sat (live True a) (cutover_prog D def sha a (flip a)) (\<lambda>_. finished sha a)"
  unfolding cutover_prog_def Let_def assms
proof (rule others.sat_seq [OF running_sat])
  fix b
  show "others.sat (staged a b)
      (if \<not> b then fails (CutoverRefused (container_name svc (flip a)) (container_name svc a))
       else afterwards (call (dd_write_active D svc (flip a)))
         (afterwards (call (dd_write_active_sha D svc sha)) (afterwards (call (dd_apply_caddy D))
           (afterwards (call (dd_stop_container D (container_name svc a))) (call (dd_prune_images D svc))))))
      (\<lambda>_. finished sha a)"
  proof (cases b)
    case True
    have "others.sat (finished sha a) (afterwards (call (dd_apply_caddy D))
        (afterwards (call (dd_stop_container D (container_name svc a))) (call (dd_prune_images D svc))))
        (\<lambda>_. finished sha a)"
      by (rule others.sat_seq [OF finished_calls(1) [OF quiet_caddy]],
          rule others.sat_seq [OF finished_calls(2)], rule finished_calls(1) [OF quiet_prune])
    then have "others.sat (staged a True) (afterwards (call (dd_write_active D svc (flip a)))
         (afterwards (call (dd_write_active_sha D svc sha)) (afterwards (call (dd_apply_caddy D))
           (afterwards (call (dd_stop_container D (container_name svc a))) (call (dd_prune_images D svc))))))
      (\<lambda>_. finished sha a)"
      by (intro others.sat_seq [OF write_sat(1)] others.sat_seq [OF write_sat(2)])
    with True show ?thesis by simp
  qed (simp add: others.sat_fails stable_views)
qed

lemma read_sat: "others.sat (live True a) (call (dd_read_active D svc)) (\<lambda>c s. live True a s \<and> c = a)"
proof -
  have "io_triple (live True a) (dd_read_active D svc) (\<lambda>c s. live True a s \<and> c = a) serving"
  proof (rule io_tripleI)
    fix s c t assume s: "live True a s" "dd_read_active D svc s = (Inr c, t)"
    from io_keepsD [OF quiet_live [OF quiet_read] s] read_color [OF s(2)] s(1)
    show "live True a t \<and> c = a" by (simp add: live_def)
  next
    fix s e t assume s: "live True a s" "dd_read_active D svc s = (Inl e, t)"
    from live_serving [OF io_keepsD [OF quiet_live [OF quiet_read] s]] show "serving t" by simp
  qed
  then show ?thesis by (rule others.sat_call) (rule stable_views)+
qed

lemma recorded_sat:
  "others.sat (live True a) (call (io_read (dd_read_active_sha D svc))) (\<lambda>h s. live True a s \<and> sha_of s = h)"
proof -
  have "io_triple (live True a) (io_read (dd_read_active_sha D svc)) (\<lambda>h s. live True a s \<and> sha_of s = h) serving"
    by (simp add: io_triple_def io_read_def read_sha)
  then show ?thesis by (rule others.sat_call) (rule stable_views)+
qed

lemma again_sat:
  "others.sat (\<lambda>s. live True a s \<and> sha_of s = h) (call (dd_container_running D n))
     (\<lambda>_ s. live True a s \<and> sha_of s = h)"
proof (rule others.sat_keeps)
  show "io_keeps (\<lambda>s. live True a s \<and> sha_of s = h) (dd_container_running D n)"
    unfolding live_def by (rule keeps_quiet [OF quiet_running])
qed (rule stable_views)

lemma deploy_prog_sat:
  assumes "sd_service def = svc"
  shows "others.sat (live True a) (deploy_prog D def sha) (\<lambda>_ s. finished sha a s \<or> kept sha s)"
proof -
  let ?Q = "\<lambda>(_ :: unit) s. finished sha a s \<or> kept sha s"
  let ?rest = "afterwards (start_prog D def sha (flip a)) (cutover_prog D def sha a (flip a))"
  have "others.sat (live True a) ?rest (\<lambda>_. finished sha a)"
    by (rule others.sat_seq [OF start_prog_sat [OF assms] cutover_prog_sat [OF assms]])
  then have rest: "others.sat (\<lambda>s. live True a s \<and> sha_of s = h) ?rest ?Q" for h
    by (rule others.sat_weaken) simp_all
  have same: "others.sat (\<lambda>s. live True a s \<and> sha_of s = Some sha) (ends ()) ?Q"
  proof (rule others.sat_weaken [OF others.sat_ends])
    show "others.stable (\<lambda>s. live True a s \<and> sha_of s = Some sha)" by (rule stable_views)
  qed (use live_serving [of True] in \<open>auto simp: kept_def\<close>)
  have found: "others.sat (\<lambda>s. live True a s \<and> sha_of s = h)
      (if h = Some sha
       then seq (call (dd_container_running D (container_name svc a))) (\<lambda>running. if running then ends () else ?rest)
       else ?rest) ?Q" for h
    by (rule others.sat_if, hypsubst, rule others.sat_seq [OF again_sat], rule others.sat_if)
      (rule same rest)+
  show ?thesis
    unfolding deploy_prog_def Let_def assms
    by (rule others.sat_seq [OF live_calls(1) [OF quiet_preflight]],
        rule others.sat_seq [OF live_calls(1) [OF quiet_network]],
        rule others.sat_seq [OF read_sat], rule others.sat_given, simp only:,
        rule others.sat_seq [OF recorded_sat found])
qed

lemma stage_prog_sat:
  assumes "sd_service def = svc"
  shows "others.sat (live True a) (stage_prog D def sha) (\<lambda>_. live True a)"
  unfolding stage_prog_def assms
  by (rule others.sat_seq [OF live_calls(1) [OF quiet_preflight]],
      rule others.sat_seq [OF live_calls(1) [OF quiet_network]],
      rule others.sat_seq [OF read_sat], rule others.sat_given, simp only:,
      rule others.sat_seq [OF start_prog_sat [OF assms]], rule others.sat_ends, rule stable_views)

lemma cancel_prog_sat:
  assumes "sd_service def = svc"
  shows "others.sat (live True a) (cancel_prog D def) (\<lambda>_. live True a)"
  unfolding cancel_prog_def Let_def assms
  by (rule others.sat_seq [OF read_sat], rule others.sat_given, simp only:,
      rule others.sat_seq [OF live_calls(2) [OF stop_local]],
      rule others.sat_seq [OF live_calls(2) [OF remove_local]], rule live_calls(1) [OF quiet_prune])

end

end
