(* ===== verification/Host.thy ===== *)
theory Host
  imports Deploy_Entry Deploy_Lock
begin

text \<open>
  The host as a process of the orchestrator sees it: the world, and the deploy locks held on it by all
  processes. The command line of \<^verbatim>\<open>main.rs\<close> runs on a host; the deploy console of \<^verbatim>\<open>ui.rs\<close> extends it
  by the state it keeps in memory.
\<close>

record 'e host =
  ho_world :: "'e world"
  ho_held :: "string list"
  ho_nolock :: bool  \<comment> \<open>the kernel is out of lock memory\<close>

definition on_host :: "('e world, 'a) io \<Rightarrow> (('e, 'z) host_scheme, 'a) io" where
  "on_host m h = (case m (ho_world h) of (r, w) \<Rightarrow> (r, h\<lparr>ho_world := w\<rparr>))"

definition acquire :: "string \<Rightarrow> (('e, 'z) host_scheme, string) io" where
  "acquire service h =
     (case try_acquire service
             \<lparr>ls_fs = w_fs (ho_world h), ls_held = ho_held h, ls_exhausted = ho_nolock h\<rparr> of
        (r, st) \<Rightarrow> (r, h\<lparr>ho_world := (ho_world h)\<lparr>w_fs := ls_fs st\<rparr>, ho_held := ls_held st\<rparr>))"

text \<open>A lock guard is dropped when the function that owns it returns, with a result or an error.\<close>

definition holding :: "string \<Rightarrow> (('e, 'z) host_scheme, 'a) io \<Rightarrow> (('e, 'z) host_scheme, 'a) io" where
  "holding path m h =
     (case m h of (r, g) \<Rightarrow>
        (r, if r = Inl DoesNotReturn then g else g\<lparr>ho_held := remove1 path (ho_held g)\<rparr>))"

section \<open>Lifting\<close>

lemma on_host_run: "on_host m u = (r, v) \<longleftrightarrow> (\<exists>w. m (ho_world u) = (r, w) \<and> v = u\<lparr>ho_world := w\<rparr>)"
  by (auto simp: on_host_def split: prod.splits)

lemma on_host_triple:
  assumes "io_triple P m Q E"
  shows "io_triple (\<lambda>u. P (ho_world u)) (on_host m) (\<lambda>a u. Q a (ho_world u)) (\<lambda>u. E (ho_world u))"
  using io_tripleD [OF assms] by (intro io_tripleI) (auto simp: on_host_run)

lemma on_host_keeps: "io_keeps P m \<Longrightarrow> io_keeps (\<lambda>u. P (ho_world u)) (on_host m)"
  by (auto simp: io_keeps_def on_host_def split: prod.splits)

lemma on_host_held: "io_keeps (\<lambda>u. P (ho_held u)) (on_host m)"
  by (auto simp: io_keeps_def on_host_def split: prod.splits)

lemma holding_run:
  assumes "holding path m h = (r, g)"
  obtains g' where "m h = (r, g')" "ho_world g = ho_world g'"
    "r \<noteq> Inl DoesNotReturn \<longrightarrow> ho_held g = remove1 path (ho_held g')"
    "host.more g = host.more g'"
proof -
  obtain x g' where m: "m h = (x, g')" by force
  with assms have g: "r = x" "g = (if r = Inl DoesNotReturn then g' else g'\<lparr>ho_held := remove1 path (ho_held g')\<rparr>)"
    by (auto simp: holding_def)
  show thesis by (rule that [of g']) (simp_all add: m g)
qed

section \<open>The lock file\<close>

lemma open_keep_cases:
  "open_keep p f = (r, g) \<Longrightarrow> g = f \<or> (g = put_file p [] f \<and> file_at f p = None)"
  by (auto simp: open_keep_def split: if_splits)

lemma try_acquire_fs:
  assumes "try_acquire s st = (r, st')"
  shows "(ls_fs st' = ls_fs st \<or> ls_fs st' = put_file (deploy_lock_path s) [] (ls_fs st)) \<and>
    (lock_name_ok s \<or> st' = st)"
proof (cases "lock_name_ok s")
  case True
  obtain q g where "open_keep (deploy_lock_path s) (ls_fs st) = (q, g)" by force
  with True assms open_keep_cases [OF this] show ?thesis
    by (auto simp: try_acquire_def try_acquire_path_def Let_def split: sum.splits if_splits)
qed (use assms in \<open>simp add: try_acquire_def\<close>)

lemma lock_name_service: "lock_name_ok s \<Longrightarrow> service_ok s"
  using lock_name_no_slash by (simp add: service_ok_def)

lemma lock_path_other:
  assumes "service_ok t"
  shows "deploy_lock_path s \<noteq> state_path t" "deploy_lock_path s \<noteq> sha_path t"
    "deploy_lock_path s \<noteq> service_yaml_path x"
  using assms
  by (simp_all add: deploy_lock_path_def service_ok_paths STATE_DIR_def service_yaml_path_def SERVICES_DIR_def)

lemma lock_file_view:
  assumes "g = f \<or> g = put_file (deploy_lock_path s) [] f" and "service_ok t"
  shows "state_view t g = state_view t f"
  using assms(1) lock_path_other [OF assms(2), of s] by (auto simp: state_view_def path_exists_def)

lemma lock_file_load:
  assumes "g = f \<or> g = put_file (deploy_lock_path s) [] f"
  shows "load_def yaml g x = load_def yaml f x"
proof -
  have ok: "service_ok []" by (simp add: service_ok_def)
  have "read_text g (service_yaml_path x) = read_text f (service_yaml_path x)"
    using assms lock_path_other(3) [OF ok, of s x, symmetric] by auto
  then show ?thesis by (simp add: load_def_def load_def_at_def)
qed

text \<open>What taking a lock leaves as it was, whether it is granted or not.\<close>

definition same_host :: "('e, 'z) host_scheme \<Rightarrow> ('e, 'z) host_scheme \<Rightarrow> bool" where
  "same_host u v \<longleftrightarrow>
     w_ext (ho_world v) = w_ext (ho_world u) \<and> w_db (ho_world v) = w_db (ho_world u) \<and>
     host.more v = host.more u \<and>
     (\<forall>t. service_ok t \<longrightarrow> state_view t (w_fs (ho_world v)) = state_view t (w_fs (ho_world u))) \<and>
     (\<forall>yaml x. load_def yaml (w_fs (ho_world v)) x = load_def yaml (w_fs (ho_world u)) x)"

lemma acquire_cases:
  assumes "acquire s u = (r, v)"
  obtains (taken) "r = Inr (deploy_lock_path s)" "lock_name_ok s" "same_host u v"
      "ho_held v = deploy_lock_path s # ho_held u" "deploy_lock_path s \<notin> set (ho_held u)"
    | (refused) e where "r = Inl e" "same_host u v" "ho_held v = ho_held u" "lock_name_ok s \<or> v = u"
proof -
  let ?st = "\<lparr>ls_fs = w_fs (ho_world u), ls_held = ho_held u, ls_exhausted = ho_nolock u\<rparr>"
  obtain st where st: "try_acquire s ?st = (r, st)"
      and v: "v = u\<lparr>ho_world := (ho_world u)\<lparr>w_fs := ls_fs st\<rparr>, ho_held := ls_held st\<rparr>"
    using assms by (auto simp: acquire_def split: prod.splits)
  have f: "ls_fs st = ls_fs ?st \<or> ls_fs st = put_file (deploy_lock_path s) [] (ls_fs ?st)"
    using try_acquire_fs [OF st] by auto
  have same: "same_host u v"
    using lock_file_view [OF f] lock_file_load [OF f] by (simp add: same_host_def v)
  show thesis
  proof (cases r)
    case (Inl e)
    with try_acquire_Inl [of s ?st e st] try_acquire_fs [OF st] st same v show ?thesis
      by (intro refused) auto
  next
    case (Inr p)
    with try_acquire_Inr [of s ?st p st] st same v show ?thesis by (intro taken) auto
  qed
qed

lemma same_host_color: "same_host u v \<Longrightarrow> service_ok t \<Longrightarrow>
   color_of t (w_fs (ho_world v)) = color_of t (w_fs (ho_world u))"
  by (rule state_view_color) (simp add: same_host_def)

lemma same_host_serving:
  assumes "same_host u v" and "service_ok t"
  shows "real_serving up t (ho_world v) \<longleftrightarrow> real_serving up t (ho_world u)"
proof -
  have "w_ext (ho_world v) = w_ext (ho_world u)" using assms(1) by (simp add: same_host_def)
  with same_host_color [OF assms] show ?thesis by (simp add: real_serving_def)
qed

end
