(* ===== verification/Host_Frames.thy ===== *)
theory Host_Frames
  imports Host Mcp_Apps
begin

text \<open>
  What operations leave alone: the two state files and the containers of a service. The proxy and
  bundle generators touch neither; a deploy of one service touches neither of any other.
\<close>

section \<open>File operations below the bundle directory\<close>

definition bundle_path :: "string \<Rightarrow> bool" where
  "bundle_path p \<longleftrightarrow> starts_with APPS_S6_DIR p"

lemma bundle_path_not_state:
  assumes "service_ok t" and "bundle_path p" and "q = state_path t \<or> q = sha_path t"
  shows "p \<noteq> q" and "q \<notin> set (ancestors p)" and "\<not> below p q"
proof -
  obtain r where p: "p = APPS_S6_DIR @ r" using assms(2) by (auto simp: bundle_path_def starts_with_iff)
  obtain s where q: "q = STATE_DIR @ CHR ''/'' # s"
    using assms(1,3) by (auto simp: service_ok_paths)
  have ne: "take 13 p \<noteq> take 13 q" by (simp add: p q APPS_S6_DIR_def STATE_DIR_def)
  then show "p \<noteq> q" by blast
  have len: "13 \<le> length q" by (simp add: q STATE_DIR_def)
  show "q \<notin> set (ancestors p)"
  proof
    assume "q \<in> set (ancestors p)"
    then obtain x where "p = q @ x" using ancestors_prefix by blast
    with ne len show False by simp
  qed
  have "13 \<le> length p" by (simp add: p APPS_S6_DIR_def)
  with ne show "\<not> below p q" by (auto simp: below_def starts_with_iff)
qed

lemma path_join_bundle:
  assumes "bundle_path d" and "\<not> starts_with ''/'' n"
  shows "bundle_path (path_join d n)"
  using assms by (auto simp: bundle_path_def path_join_def starts_with_iff)

named_theorems state_files \<open>file operations that keep the view of the state files\<close>

lemma write_keeps_state [state_files]:
  assumes "service_ok t" and "bundle_path p"
  shows "io_keeps (\<lambda>f. state_view t f = v) (write_text p c)"
  using write_state_view [of p t c] bundle_path_not_state(1) [OF assms] by (simp add: io_keeps_def)

lemma mkdir_keeps_state [state_files]:
  assumes "service_ok t" and "bundle_path p"
  shows "io_keeps (\<lambda>f. state_view t f = v) (create_dir_all p)"
proof -
  have "state_view t (snd (create_dir_all p f)) = state_view t f" for f
    using bundle_path_not_state(2) [OF assms]
    by (auto simp: state_view_def create_dir_all_def path_exists_def file_at_def)
  then show ?thesis by (simp add: io_keeps_def)
qed

lemma remove_file_keeps_state [state_files]:
  assumes "service_ok t" and "bundle_path p"
  shows "io_keeps (\<lambda>f. state_view t f = v) (remove_file p)"
proof -
  have "state_view t (snd (remove_file p f)) = state_view t f" for f
    using bundle_path_not_state(1) [OF assms]
    by (auto simp: state_view_def remove_file_def path_exists_def file_at_def delete_conv')
  then show ?thesis by (simp add: io_keeps_def)
qed

lemma remove_dir_keeps_state [state_files]:
  assumes "service_ok t" and "bundle_path p"
  shows "io_keeps (\<lambda>f. state_view t f = v) (remove_dir_all p)"
proof -
  have m: "map_of (filter (\<lambda>(x, _). \<not> below p x) fs) q = map_of fs q"
    if "\<not> below p q" for q and fs :: "(string \<times> string) list"
    using that by (induction fs) auto
  have "state_view t (snd (remove_dir_all p f)) = state_view t f" for f
    using bundle_path_not_state(1,3) [OF assms] m
    by (auto simp: state_view_def remove_dir_all_def path_exists_def file_at_def)
  then show ?thesis by (simp add: io_keeps_def)
qed

definition app_names_ok :: "db \<Rightarrow> bool" where
  "app_names_ok d \<longleftrightarrow> (\<forall>a \<in> set (db_apps d). CHR ''/'' \<notin> set (ar_name a))"

lemma write_bundle_state:
  assumes "service_ok t" and "CHR ''/'' \<notin> set (ar_name app)"
  shows "io_keeps (\<lambda>f. state_view t f = v) (write_bundle json APPS_S6_DIR app)"
proof -
  have "bundle_path APPS_S6_DIR" by (simp add: bundle_path_def starts_with_iff)
  moreover have "\<not> starts_with ''/'' (ar_name app)" using assms(2) by (auto simp: starts_with_iff)
  ultimately have "bundle_path (path_join APPS_S6_DIR (ar_name app))" by (rule path_join_bundle)
  note b = path_join_bundle [OF this]
  have d: "bundle_path (path_join (path_join APPS_S6_DIR (ar_name app)) ''dependencies.d'')"
    by (rule b) (simp add: starts_with_iff)
  note e = path_join_bundle [OF d]
  show ?thesis
    unfolding write_bundle_def Let_def write_executable_def
    by (intro io_keeps_then io_keeps_if io_keeps_bind io_keeps_try io_keeps_basic
        write_keeps_state mkdir_keeps_state remove_file_keeps_state assms(1) d)
      (rule b e, simp add: starts_with_iff)+
qed

lemma sync_s6_state:
  assumes "service_ok t" and "app_names_ok d"
  shows "io_keeps (\<lambda>f. state_view t f = v) (sync_s6 json d)"
proof -
  have prune: "io_keeps (\<lambda>f. state_view t f = v) (io_each (prune_bundle apps) entries)"
    if "read_dir APPS_S6_DIR f = Inr entries" for f entries apps
  proof (rule io_keeps_each)
    fix x assume "x \<in> set entries"
    then have "parent_dir x = APPS_S6_DIR" using that by (auto simp: read_dir_def split: if_splits)
    from parent_dir_cases [OF this] have "bundle_path x"
      by (auto simp: APPS_S6_DIR_def bundle_path_def starts_with_iff)
    then show "io_keeps (\<lambda>f. state_view t f = v) (prune_bundle apps x)"
      using remove_dir_keeps_state [OF assms(1)] by (simp add: io_keeps_def prune_bundle_def)
  qed
  have bundles: "io_keeps (\<lambda>f. state_view t f = v)
      (io_each (write_bundle json APPS_S6_DIR) (filter (\<lambda>a. ar_source a = ''runtime'') apps))"
    if "list_apps d = Inr apps" for apps
    using that assms(2)
    by (intro io_keeps_each write_bundle_state [OF assms(1)])
      (auto simp: list_apps_def app_names_ok_def split: if_splits)
  have "bundle_path APPS_S6_DIR" by (simp add: bundle_path_def starts_with_iff)
  then show ?thesis
    unfolding sync_s6_def sync_s6_to_dir_def
    by (intro keeps_bind_lift io_keeps_then keeps_bind_read mkdir_keeps_state prune bundles assms(1))
qed

section \<open>Services spared\<close>

text \<open>
  An operation spares a service if its containers stay up, its two state files stay as they are, and
  the names of the registered apps stay free of slashes.
\<close>

definition spares_service :: "('e \<Rightarrow> string \<Rightarrow> bool) \<Rightarrow> string \<Rightarrow> ('e world, 'a) io \<Rightarrow> bool" where
  "spares_service up t m \<longleftrightarrow>
     (\<forall>c. io_keeps (\<lambda>w. up (w_ext w) (container_name t c)) m) \<and>
     (\<forall>v. io_keeps (\<lambda>w. state_view t (w_fs w) = v) m) \<and>
     io_keeps (\<lambda>w. app_names_ok (w_db w)) m"

text \<open>The same as a relation between the world before and after.\<close>

definition frame_step :: "('e \<Rightarrow> string \<Rightarrow> bool) \<Rightarrow> string \<Rightarrow> 'e world \<Rightarrow> 'e world \<Rightarrow> bool" where
  "frame_step up t w v \<longleftrightarrow>
     (\<forall>c. up (w_ext w) (container_name t c) \<longrightarrow> up (w_ext v) (container_name t c)) \<and>
     state_view t (w_fs v) = state_view t (w_fs w) \<and> (app_names_ok (w_db w) \<longrightarrow> app_names_ok (w_db v))"

lemma spares_frame:
  assumes "spares_service up t m"
  shows "frame_step up t w (snd (m w))"
proof -
  have "io_keeps (\<lambda>x. state_view t (w_fs x) = state_view t (w_fs w)) m"
    using assms unfolding spares_service_def by blast
  then have "state_view t (w_fs (snd (m w))) = state_view t (w_fs w)" by (simp add: io_keeps_def)
  with assms show ?thesis by (simp add: spares_service_def io_keeps_def frame_step_def)
qed

named_theorems spared \<open>operations that spare a service\<close>

lemma spared_bind [spared]:
  "spares_service up t m \<Longrightarrow> (\<And>a. spares_service up t (f a)) \<Longrightarrow> spares_service up t (io_bind m f)"
  by (simp add: spares_service_def io_keeps_bind)

lemma spared_then [spared]:
  "spares_service up t m \<Longrightarrow> spares_service up t k \<Longrightarrow> spares_service up t (io_then m k)"
  by (simp add: spares_service_def io_keeps_then)

lemma spared_when [spared]: "spares_service up t m \<Longrightarrow> spares_service up t (io_when b m)"
  by (simp add: spares_service_def io_keeps_when)

lemma spared_if [spared]:
  "spares_service up t m \<Longrightarrow> spares_service up t m' \<Longrightarrow> spares_service up t (if b then m else m')"
  by simp

lemma spared_still:
  assumes "still up t m"
  shows "spares_service up t m"
  unfolding spares_service_def io_keeps_def
  using stillD [OF assms] by simp

lemma spared_basic [spared]:
  "spares_service up t (io_return a)" "spares_service up t (io_fail e)" "spares_service up t (io_lift r)"
  "spares_service up t (io_read g)" "spares_service up t (read_fs h)" "spares_service up t (read_db d)"
  "spares_service up t (docker_connect K)"
  by (intro spared_still still_basic)+

lemma spared_touches:
  assumes "touches up t n m" and "\<And>c. n \<noteq> container_name t c"
  shows "spares_service up t m"
  unfolding spares_service_def
proof (intro conjI allI)
  fix c v
  show "io_keeps (\<lambda>w. up (w_ext w) (container_name t c)) m"
    using assms(1) assms(2) [of c] unfolding touches_def by metis
  show "io_keeps (\<lambda>w. state_view t (w_fs w) = v) m"
    using assms(1) unfolding touches_def by blast
next
  have "io_keeps (\<lambda>w. w_db w = d) m" for d using assms(1) unfolding touches_def by blast
  then show "io_keeps (\<lambda>w. app_names_ok (w_db w)) m" unfolding io_keeps_def by metis
qed

lemma spared_on_db:
  "io_keeps app_names_ok m \<Longrightarrow> spares_service up t (on_db m)"
  by (auto simp: spares_service_def io_keeps_def on_db_def split: prod.splits)

lemma spared_on_fs:
  "(\<And>v. io_keeps (\<lambda>f. state_view t f = v) m) \<Longrightarrow> spares_service up t (on_fs m)"
  unfolding spares_service_def by (intro conjI allI ext_frame keeps_on_fs db_frame) simp

lemma spared_serving:
  assumes "spares_service up t m"
  shows "io_keeps (real_serving up t) m"
  unfolding io_keeps_def
proof (intro allI impI)
  fix w assume s: "real_serving up t w"
  let ?c = "color_of t (w_fs w)"
  have "up (w_ext (snd (m w))) (container_name t ?c)" "state_view t (w_fs (snd (m w))) = state_view t (w_fs w)"
    using spares_frame [OF assms, of w] s unfolding frame_step_def real_serving_def by blast+
  then show "real_serving up t (snd (m w))"
    using state_view_color [of t "w_fs (snd (m w))" "w_fs w"] by (simp add: real_serving_def)
qed

text \<open>Writing the state files of another service.\<close>

lemma state_write_other:
  assumes "service_ok t" and "service_ok s" and "t \<noteq> s" and "p = state_path s \<or> p = sha_path s"
  shows "io_keeps (\<lambda>f. state_view t f = v) (io_then (create_dir_all (parent_dir p)) (write_text p c))"
proof (rule io_keeps_then)
  have "CHR ''/'' \<notin> set (s @ ''.color'')" "CHR ''/'' \<notin> set (s @ ''.sha'')"
    using assms(2) by (simp_all add: service_ok_def)
  from parent_dir_join(1) [OF this(1)] parent_dir_join(1) [OF this(2)] assms(4)
  have d: "parent_dir p = STATE_DIR" by (auto simp: service_ok_paths [OF assms(2)])
  show "io_keeps (\<lambda>f. state_view t f = v) (create_dir_all (parent_dir p))"
    using mkdir_state_view [OF assms(1), of STATE_DIR] by (simp add: io_keeps_def d STATE_DIR_def)
  have "p \<noteq> state_path t" "p \<noteq> sha_path t"
    using assms state_path_eq_iff [OF assms(1,2)] sha_path_eq_iff [OF assms(1,2)]
      state_sha_path_neq [OF assms(1,2)] state_sha_path_neq [OF assms(2,1)] by metis+
  then show "io_keeps (\<lambda>f. state_view t f = v) (write_text p c)"
    using write_state_view [of p t c] by (simp add: io_keeps_def)
qed

lemma spared_writes:
  assumes "service_ok t" and "service_ok s" and "t \<noteq> s"
  shows "spares_service up t (on_fs (write_active s c))" "spares_service up t (on_fs (write_active_sha s sha))"
  unfolding write_active_def write_active_sha_def Let_def
  by (rule spared_on_fs, rule state_write_other [OF assms], simp)+

section \<open>Deploys of another service\<close>

lemma real_ops_spared:
  assumes "docker_laws K up" and "service_ok t" and "service_ok s" and "t \<noteq> s"
  shows "spares_service up t (preflight_run K)" "spares_service up t (ensure_network K n)"
    "spares_service up t (check_deploy K def sha c)" "spares_service up t (apply_all K)"
    "spares_service up t (prune K s)" "spares_service up t ensure_nginx_config"
    "spares_service up t (container_running K n)"
    "spares_service up t (remove_container_if_exists K (container_name s c))"
    "spares_service up t (stop_container K (container_name s c))"
proof -
  have n: "container_name s c \<noteq> container_name t d" for c d
    using assms(4) by (simp add: container_name_inject)
  note st = assms(1)
  show "spares_service up t (preflight_run K)" by (rule spared_still [OF still_preflight [OF st]])
  show "spares_service up t (ensure_network K n)" by (rule spared_still [OF still_ensure_network [OF st]])
  show "spares_service up t (check_deploy K def sha c)" by (rule spared_still [OF still_validate [OF st]])
  show "spares_service up t (apply_all K)" by (rule spared_still [OF still_apply_all [OF st assms(2)]])
  show "spares_service up t (prune K s)" by (rule spared_still [OF still_prune [OF st]])
  show "spares_service up t ensure_nginx_config" by (rule spared_still [OF still_ensure_nginx [OF assms(2)]])
  show "spares_service up t (container_running K n)" by (rule spared_still [OF still_running [OF st]])
  show "spares_service up t (remove_container_if_exists K (container_name s c))"
    by (rule spared_touches [OF touches_remove [OF st] n])
  show "spares_service up t (stop_container K (container_name s c))"
    by (rule spared_touches [OF touches_stop [OF st] n])
qed

lemma containers_spared:
  assumes "docker_laws K up" and "sd_service def = s" and "t \<noteq> s"
  shows "spares_service up t (start_container K def sha c)" "spares_service up t (run_health_check K def c)"
proof -
  have n: "container_name (sd_service def) c \<noteq> container_name t d" for d
    using assms(2,3) by (simp add: container_name_inject)
  show "spares_service up t (start_container K def sha c)"
    by (rule spared_touches [OF touches_start [OF assms(1)] n])
  show "spares_service up t (run_health_check K def c)"
    by (rule spared_touches [OF touches_health [OF assms(1)] n])
qed

lemma start_inactive_spared:
  assumes "docker_laws K up" and "service_ok t" and "service_ok s" and "t \<noteq> s" and "sd_service def = s"
  shows "spares_service up t (start_inactive (real_deps K) def sha c)"
  unfolding start_inactive_def real_ops assms(5)
  by (intro spared real_ops_spared [OF assms(1-4)] containers_spared [OF assms(1,5,4)])

lemma cutover_spared:
  assumes "docker_laws K up" and "service_ok t" and "service_ok s" and "t \<noteq> s" and "sd_service def = s"
  shows "spares_service up t (cutover (real_deps K) def sha a b)"
  unfolding cutover_def real_ops assms(5) Let_def
  by (intro spared real_ops_spared [OF assms(1-4)] spared_writes assms(2-4))

lemma deploy_service_spared:
  assumes "docker_laws K up" and "service_ok t" and "service_ok s" and "t \<noteq> s" and "sd_service def = s"
  shows "spares_service up t (deploy_service (real_deps K) def sha)"
  unfolding deploy_service_def real_ops assms(5) Let_def
  by (intro spared real_ops_spared [OF assms(1-4)] start_inactive_spared [OF assms]
      cutover_spared [OF assms])

lemma execute_plan_spared:
  assumes "docker_laws K up" and "service_ok t" and "service_ok s" and "t \<noteq> s" and "sd_service def = s"
  shows "spares_service up t (execute_plan K def service a plan)"
  unfolding execute_plan_def Let_def
  by (cases plan) (auto intro!: spared spared_still [OF still_runs_image [OF assms(1)]]
      start_inactive_spared [OF assms] cutover_spared [OF assms])

lemma steps_spared:
  assumes "docker_laws K up" and "service_ok t" and "service_ok s" and "t \<noteq> s" and "sd_service def = s"
  shows "spares_service up t (cutover_steps K service sha_opt preview def)"
    "spares_service up t (cancel_steps K def)" "spares_service up t (preview_steps K sha def)"
proof -
  show "spares_service up t (cutover_steps K service sha_opt preview def)"
    unfolding cutover_steps_def real_ops
    by (cases preview) (auto intro!: spared execute_plan_spared [OF assms]
        spared_still [OF still_runs_image [OF assms(1)]] spared_still [OF still_list_local [OF assms(1)]]
        spared_still [OF still_image_tag [OF assms(1)]])
  show "spares_service up t (cancel_steps K def)"
    unfolding cancel_steps_def real_ops assms(5) Let_def
    by (intro spared real_ops_spared [OF assms(1-4)])
  show "spares_service up t (preview_steps K sha def)"
    unfolding preview_steps_def real_ops
    by (intro spared real_ops_spared [OF assms(1-4)] start_inactive_spared [OF assms])
qed

section \<open>The proxy and bundle generators\<close>

lemma still_generate:
  assumes "docker_laws K up" and "service_ok t"
  shows "still up t (generate_and_reload K)"
proof -
  have route: "still up t (\<lambda>w. (build_route_map y r (w_fs w) (w_db w), w))" for y r
    by (simp add: still_def io_keeps_def)
  have p: "length (parent_dir NGINX_CONFIG) \<le> 19" by code_simp
  have dir: "still up t (on_fs (create_dir_all (parent_dir NGINX_CONFIG)))"
    by (intro still_on_fs mkdir_state_view assms(2) p)
  have "still up t (on_fs (write_text NGINX_CONFIG c))" for c
    by (intro still_on_fs write_state_view state_paths_other assms(2))
  moreover have "still up t (reload_in_active_container K)"
    unfolding reload_in_active_container_def Let_def
    by (intro still_bind still_basic)
      (auto intro!: still_rules still_ext laws_neutral assms(1) split: sum.split)
  ultimately show ?thesis
    unfolding generate_and_reload_def by (intro still_rules still_db_open route dir assms(2))
qed

end
