(* ===== verification/Ui.thy ===== *)
theory Ui
  imports Host
begin

text \<open>
  The deploy console of \<^verbatim>\<open>ui.rs\<close>: the status list built from the container list, the map of
  operations in progress with its three writers (HTTP handlers, the Docker event watcher, the
  five-minute safety net), and the rollback flow. The HTTP router, the page and the event streams
  are not modelled; a broadcast is the status list it carries.
\<close>

section \<open>Names\<close>

definition short_id :: "string option \<Rightarrow> string" where
  "short_id docker_id =
     (let s = trim_start_matches ''sha256:'' (case docker_id of Some s \<Rightarrow> s | None \<Rightarrow> [])
      in if 12 \<le> length s then take 12 s else s)"

definition parse_service_container :: "string \<Rightarrow> (string \<times> color) option" where
  "parse_service_container name =
     (case strip_prefix ''codery-'' name of
        None \<Rightarrow> None
      | Some rest \<Rightarrow>
          (case strip_suffix ''-blue'' rest of
             Some svc \<Rightarrow> Some (svc, Blue)
           | None \<Rightarrow> map_option (\<lambda>svc. (svc, Green)) (strip_suffix ''-green'' rest)))"

definition sha_from_image_tag :: "string \<Rightarrow> string \<Rightarrow> string option" where
  "sha_from_image_tag service img = strip_prefix (REGISTRY @ '':'' @ service @ ''-'') img"

section \<open>Status\<close>

type_synonym op_map = "string \<rightharpoonup> string"

record ui_service_status =
  ss_name :: string
  ss_image :: string
  ss_status :: string
  ss_state :: string
  ss_service :: "string option"
  ss_rollback_available :: bool
  ss_prev_container :: "string option"
  ss_operation :: "string option"
  ss_serving :: bool
  ss_container_id :: string
  ss_image_id :: string

definition or_empty :: "string option \<Rightarrow> string" where
  "or_empty s = (case s of Some t \<Rightarrow> t | None \<Rightarrow> [])"

definition summary_name :: "container_summary \<Rightarrow> string" where
  "summary_name c =
     dropWhile (\<lambda>x. x = CHR ''/'') (case cs_names c of Some (n # _) \<Rightarrow> n | _ \<Rightarrow> [])"

definition is_container_stopped :: "'e platform \<Rightarrow> string \<Rightarrow> ('e world, bool) io" where
  "is_container_stopped K container =
     io_bind (dk_call (pf_inspect K container)) (\<lambda>r.
       io_return (case r of Inr i \<Rightarrow> \<not> running_flag (Inr i) | Inl _ \<Rightarrow> False))"

text \<open>The service part of an entry: service, rollback offered, its target, serving.\<close>

definition service_part ::
  "'e platform \<Rightarrow> string \<Rightarrow> ('e world, string option \<times> bool \<times> string option \<times> bool) io" where
  "service_part K name =
     (case parse_service_container name of
        None \<Rightarrow> io_return (None, False, None, False)
      | Some (svc, color) \<Rightarrow>
          io_bind (io_read (\<lambda>w. read_active svc (w_fs w))) (\<lambda>active.
            let peer = container_name svc (flip color)
            in io_bind (is_container_stopped K peer) (\<lambda>stopped.
                 io_return (Some svc, stopped, if stopped then Some peer else None,
                   active = Inr color))))"

definition container_status ::
  "'e platform \<Rightarrow> op_map \<Rightarrow> container_summary \<Rightarrow> ('e world, ui_service_status) io" where
  "container_status K ops c =
     io_bind (service_part K (summary_name c)) (\<lambda>(service, avail, prev, serving).
       io_return
         \<lparr>ss_name = summary_name c, ss_image = or_empty (cs_image c), ss_status = or_empty (cs_status c),
          ss_state = or_empty (cs_state c), ss_service = service, ss_rollback_available = avail,
          ss_prev_container = prev, ss_operation = ops (summary_name c), ss_serving = serving,
          ss_container_id = short_id (cs_id c), ss_image_id = short_id (cs_image_id c)\<rparr>)"

definition build_status :: "'e platform \<Rightarrow> op_map \<Rightarrow> ('e world, ui_service_status list) io" where
  "build_status K ops =
     io_then (docker_connect K)
       (io_bind (dk_ask ''containers'' (pf_list_containers K)) (io_map (container_status K ops)))"

section \<open>The server\<close>

text \<open>
  The host, and in memory the operations map, the services whose rollback request is being served
  and the status lists broadcast so far. A status list that could not
  be built is broadcast empty.
\<close>

record 'e ui = "'e host" +
  ui_ops :: op_map
  ui_rollbacks :: "string set"
  ui_events :: "ui_service_status list list"

definition broadcast_status :: "'e platform \<Rightarrow> ('e ui, unit) io" where
  "broadcast_status K u =
     (case build_status K (ui_ops u) (ho_world u) of
        (r, w) \<Rightarrow>
          (Inr (), u\<lparr>ho_world := w,
             ui_events := ui_events u @ [case r of Inr ss \<Rightarrow> ss | Inl _ \<Rightarrow> []]\<rparr>))"

section \<open>Rollback\<close>

definition do_rollback ::
  "'e platform \<Rightarrow> service_def \<Rightarrow> string \<Rightarrow> color \<Rightarrow> string \<Rightarrow> string \<Rightarrow> ('e world, unit) io" where
  "do_rollback K def service prev_color prev_container active_container =
     io_bind (dk_call (pf_inspect K prev_container)) (\<lambda>inspected.
       case inspected of
         Inl _ \<Rightarrow> io_fail (ToolError ''no stopped container'')
       | Inr info \<Rightarrow>
           if running_flag (Inr info) then io_fail (ToolError ''container is already running'')
           else
             let prev_sha = (case sha_from_image_tag service (or_empty (ci_image info)) of
                               Some s \<Rightarrow> s | None \<Rightarrow> ''unknown'')
             in io_then (dk_ask prev_container (pf_start K prev_container))
               (io_bind (io_try (poll_health K def prev_color)) (\<lambda>health.
                  case health of
                    Inl _ \<Rightarrow>
                      io_bind (io_try (stop_container K prev_container)) (\<lambda>_.
                        io_fail (ToolError ''health check failed after restart''))
                  | Inr _ \<Rightarrow>
                      io_then (on_fs (write_active service prev_color))
                     (io_then (on_fs (write_active_sha service prev_sha))
                     (io_bind (io_try (apply_all K)) (\<lambda>reload.
                        case reload of
                          Inl _ \<Rightarrow> io_fail (ToolError ''caddy reload failed after state write'')
                        | Inr _ \<Rightarrow> stop_container K active_container))))))"

definition rollback_marked ::
  "'e platform \<Rightarrow> service_def \<Rightarrow> string \<Rightarrow> color \<Rightarrow> ('e ui, unit) io" where
  "rollback_marked K def service active_color u =
     (let prev_color = flip active_color;
          prev_container = container_name service prev_color;
          active_container = container_name service active_color
      in io_then (io_modify (\<lambda>v. v\<lparr>ui_ops := (ui_ops v)(active_container \<mapsto> ''rolling_back'')\<rparr>))
        (io_then (broadcast_status K)
        (io_bind (io_try (on_host (do_rollback K def service prev_color prev_container active_container)))
          (\<lambda>result.
             io_then (io_modify (\<lambda>v. v\<lparr>ui_ops := (ui_ops v)(active_container := None)\<rparr>))
            (io_then (broadcast_status K) (io_lift result))))) u)"

text \<open>What runs under the deploy lock, and the whole of \<^verbatim>\<open>run_rollback\<close>.\<close>

definition locked_rollback :: "'e platform \<Rightarrow> string \<Rightarrow> ('e ui, unit) io" where
  "locked_rollback K service =
     io_bind (io_try (on_host (load_service K service))) (\<lambda>loaded.
        case loaded of
          Inl _ \<Rightarrow> io_fail (ToolError ''unknown service'')
        | Inr def \<Rightarrow>
            io_then (on_host (docker_connect K))
           (io_bind (on_host (read_fs (read_active service))) (\<lambda>active_color.
              rollback_marked K def service active_color)))"

definition run_rollback :: "'e platform \<Rightarrow> string \<Rightarrow> ('e ui, unit) io" where
  "run_rollback K service =
     io_bind (io_try (acquire service)) (\<lambda>lock.
       case lock of
         Inl _ \<Rightarrow> io_fail DeployInProgress
       | Inr path \<Rightarrow> holding path (locked_rollback K service))"

datatype http = Ok200 | NoContent | Conflict | InternalError error | NoResponse

definition post_rollback :: "'e platform \<Rightarrow> string \<Rightarrow> 'e ui \<Rightarrow> http \<times> 'e ui" where
  "post_rollback K service u =
     (if service \<in> ui_rollbacks u then (Conflict, u)
      else case run_rollback K service (u\<lparr>ui_rollbacks := insert service (ui_rollbacks u)\<rparr>) of
             (r, v) \<Rightarrow>
               if r = Inl DoesNotReturn then (NoResponse, v)
               else (case r of Inr _ \<Rightarrow> Ok200 | Inl e \<Rightarrow> InternalError e,
                     v\<lparr>ui_rollbacks := ui_rollbacks v - {service}\<rparr>))"

section \<open>Facts\<close>

lemma io_triple_map:
  assumes "\<And>x. io_triple P (f x) (\<lambda>y s. P s \<and> R y) E"
  shows "io_triple P (io_map f xs) (\<lambda>ys s. P s \<and> (\<forall>y \<in> set ys. R y)) E"
proof (induction xs)
  case Nil
  then show ?case by (simp add: io_triple_def io_return_def)
next
  case (Cons x xs)
  have "io_triple (\<lambda>s. P s \<and> R y) (io_bind (io_map f xs) (\<lambda>ys. io_return (y # ys)))
      (\<lambda>ys s. P s \<and> (\<forall>y \<in> set ys. R y)) E" for y
    using Cons.IH by (auto simp: io_triple_iff io_bind_def io_return_def split: prod.splits sum.splits)
  from io_triple_bind [OF assms this] show ?case by simp
qed

lemma parse_service_container_iff:
  "parse_service_container name = Some (svc, c) \<longleftrightarrow> name = container_name svc c"
proof -
  have ne: "svc' @ ''-green'' \<noteq> svc'' @ ''-blue''" for svc' svc'' :: string
  proof
    assume "svc' @ ''-green'' = svc'' @ ''-blue''"
    then have "last (svc' @ ''-green'') = last (svc'' @ ''-blue'')" by (rule arg_cong)
    then show False by simp
  qed
  have split: "parse_service_container name = Some (svc, c) \<longleftrightarrow>
      (\<exists>rest. strip_prefix ''codery-'' name = Some rest \<and>
        (c = Blue \<and> strip_suffix ''-blue'' rest = Some svc \<or>
         c = Green \<and> strip_suffix ''-blue'' rest = None \<and> strip_suffix ''-green'' rest = Some svc))"
    by (cases c) (simp_all add: parse_service_container_def split: option.splits)
  show ?thesis
    unfolding split strip_prefix_Some_iff strip_suffix_Some_iff strip_suffix_None_iff container_name_def
    using ne by (cases c) (simp_all add: color_str_def)
qed

lemma sha_from_image_tag_iff: "sha_from_image_tag svc img = Some sha \<longleftrightarrow> img = image_ref svc sha"
  by (simp add: sha_from_image_tag_def image_ref_def strip_prefix_Some_iff)

definition status_exact :: "op_map \<Rightarrow> fs \<Rightarrow> ui_service_status \<Rightarrow> bool" where
  "status_exact ops f s \<longleftrightarrow>
     ss_operation s = ops (ss_name s) \<and>
     (ss_serving s \<longleftrightarrow> (\<exists>svc c. ss_name s = container_name svc c \<and> read_active svc f = Inr c)) \<and>
     (ss_rollback_available s \<longleftrightarrow> ss_prev_container s \<noteq> None) \<and>
     (\<forall>p. ss_prev_container s = Some p \<longrightarrow>
        (\<exists>svc c. ss_service s = Some svc \<and> ss_name s = container_name svc c \<and>
           p = container_name svc (flip c)))"

lemma keeps_triple_True: "io_keeps P m \<Longrightarrow> io_triple P m (\<lambda>_. P) (\<lambda>_. True)"
  by (auto simp: io_keeps_iff_triple elim: io_triple_weaken)

lemma fs_stopped: "io_keeps (\<lambda>w. P (w_fs w)) (is_container_stopped K n)"
  unfolding is_container_stopped_def by (intro io_valid)

lemma service_part_triple:
  "io_triple (\<lambda>w. w_fs w = f) (service_part K name)
     (\<lambda>(service, avail, prev, serving) w. w_fs w = f \<and>
        (serving \<longleftrightarrow> (\<exists>svc c. name = container_name svc c \<and> read_active svc f = Inr c)) \<and>
        (avail \<longleftrightarrow> prev \<noteq> None) \<and>
        (\<forall>p. prev = Some p \<longrightarrow> (\<exists>svc c. service = Some svc \<and> name = container_name svc c \<and>
           p = container_name svc (flip c))))
     (\<lambda>_. True)"
proof (cases "parse_service_container name")
  case None
  then have n: "name \<noteq> container_name svc c" for svc c
    using parse_service_container_iff [of name svc c] by simp
  show ?thesis by (simp add: service_part_def None io_triple_def io_return_def n)
next
  case (Some p)
  obtain svc c where p: "p = (svc, c)" by force
  then have name: "name = container_name svc c" using Some parse_service_container_iff by blast
  have k: "io_keeps (\<lambda>w. w_fs w = f \<and> a = read_active svc f) (is_container_stopped K n)" for n a
    by (rule fs_stopped)
  have parse: "parse_service_container (container_name svc c) = Some (svc, c)"
    by (simp add: parse_service_container_iff)
  show ?thesis
    unfolding service_part_def name parse option.case prod.case Let_def container_name_inject
    by (rule io_triple_bind [where R = "\<lambda>a w. w_fs w = f \<and> a = read_active svc f",
          OF _ io_triple_bind [OF keeps_triple_True [OF k]]])
      (auto simp: io_triple_def io_read_def io_return_def)
qed

lemma build_status_exact:
  assumes "build_status K ops w = (Inr ss, t)" and "s \<in> set ss"
  shows "status_exact ops (w_fs w) s"
proof -
  have one: "io_triple (\<lambda>x. w_fs x = w_fs w) (container_status K ops c)
      (\<lambda>y x. w_fs x = w_fs w \<and> status_exact ops (w_fs w) y) (\<lambda>_. True)" for c
    unfolding container_status_def
    by (rule io_triple_bind [OF service_part_triple])
      (auto simp: io_triple_def io_return_def status_exact_def split: prod.splits)
  have con: "io_triple (\<lambda>x. w_fs x = w_fs w) (docker_connect K) (\<lambda>_ x. w_fs x = w_fs w) (\<lambda>_. True)"
    by (rule keeps_triple_True [OF world_reads(3)])
  have lst: "io_triple (\<lambda>x. w_fs x = w_fs w) (dk_ask ''containers'' (pf_list_containers K))
      (\<lambda>_ x. w_fs x = w_fs w) (\<lambda>_. True)"
    by (rule keeps_triple_True [OF keeps_dk_ask [OF fs_frame(2)]])
  have "io_triple (\<lambda>x. w_fs x = w_fs w) (build_status K ops)
      (\<lambda>ys x. w_fs x = w_fs w \<and> (\<forall>y \<in> set ys. status_exact ops (w_fs w) y)) (\<lambda>_. True)"
    unfolding build_status_def
    by (rule io_triple_then [OF con io_triple_bind [OF lst io_triple_map [OF one]]])
  from io_tripleD(1) [OF this refl assms(1)] assms(2) show ?thesis by blast
qed

section \<open>Correctness\<close>

text \<open>
  The names the console parses are exactly the names the deployer gives: a container name is read
  as the service and color it was made from, an image reference as its tag, and nothing else is.
\<close>

theorem console_names_roundtrip:
  "(parse_service_container name = Some (svc, c) \<longleftrightarrow> name = container_name svc c) \<and>
   (sha_from_image_tag svc img = Some sha \<longleftrightarrow> img = image_ref svc sha)"
  by (simp add: parse_service_container_iff sha_from_image_tag_iff)



end
