(* ===== verification/Ui_Rollback.thy ===== *)
theory Ui_Rollback
  imports Ui
begin

text \<open>
  The rollback of the deploy console keeps the service up: lemmas that carry the contract of a
  deploy host over to \<^verbatim>\<open>run_rollback\<close>, which does not ask the engine whether the previous container
  runs but trusts its health check.
\<close>

section \<open>Health checks prove that a container runs\<close>

text \<open>
  What Docker documents of its two probes: \<^verbatim>\<open>docker exec\<close> fails in a container that is not running,
  and only a running container is reported healthy.
\<close>

definition probe_laws :: "'e platform \<Rightarrow> ('e \<Rightarrow> string \<Rightarrow> bool) \<Rightarrow> bool" where
  "probe_laws K up \<longleftrightarrow>
     (\<forall>n p e r. fst (pf_spawn K (tcp_probe n p) [] e) = Some r \<longrightarrow> so_success r \<longrightarrow> up e n) \<and>
     (\<forall>n e i. fst (pf_inspect K n e) = Inr i \<longrightarrow> ci_health i = Some Healthy \<longrightarrow> up e n)"

lemma spawn_run:
  "spawn K argv envs w = (r, t) \<longleftrightarrow>
   r = Inr (fst (pf_spawn K argv envs (w_ext w))) \<and> t = w\<lparr>w_ext := snd (pf_spawn K argv envs (w_ext w))\<rparr>"
  by (auto simp: spawn_def split: prod.splits)

lemma poll_tcp_up:
  assumes "docker_laws K up" and "probe_laws K up" and "poll_tcp K (tcp_probe c p) i n w = (Inr True, t)"
  shows "up (w_ext t) c"
  using assms(3)
proof (induction n arbitrary: w)
  case 0
  then show ?case by (simp add: io_return_def)
next
  case (Suc n)
  let ?out = "fst (pf_spawn K (tcp_probe c p) [] (w_ext w))"
  let ?s = "w\<lparr>w_ext := snd (pf_spawn K (tcp_probe c p) [] (w_ext w))\<rparr>"
  have nt: "up (w_ext ?s) = up (w_ext w)"
    using laws_spawn [OF assms(1) harmless_probe, of c p "[]"] by (simp add: neutral_def)
  show ?case
  proof (cases "\<exists>r. ?out = Some r \<and> so_success r")
    case True
    then have "t = ?s" "up (w_ext w) c"
      using Suc.prems assms(2) by (auto simp: io_bind_def spawn_def io_return_def probe_laws_def split: prod.splits)
    with nt show ?thesis by simp
  next
    case False
    then have "\<exists>v. poll_tcp K (tcp_probe c p) i n v = (Inr True, t)"
      using Suc.prems by (auto simp: io_Inr_iffs spawn_run split: option.splits if_splits)
    with Suc.IH show ?thesis by blast
  qed
qed

lemma dk_ask_done:
  "dk_ask what g w = (Inr a, t) \<longleftrightarrow> g (w_ext w) = (Inr a, w_ext t) \<and> t = w\<lparr>w_ext := w_ext t\<rparr>"
  by (auto simp: dk_ask_def dk_call_def io_bind_def io_fail_def io_return_def split: prod.splits sum.splits)

lemma poll_docker_up:
  assumes "docker_laws K up" and "probe_laws K up" and "poll_docker K c n w = (Inr True, t)"
  shows "up (w_ext t) c"
  using assms(3)
proof (induction n arbitrary: w)
  case 0
  then show ?case by (simp add: io_return_def)
next
  case (Suc n)
  then obtain i s where s: "dk_ask c (pf_inspect K c) w = (Inr i, s)"
    and rest: "(case ci_health i of Some Healthy \<Rightarrow> io_return True | Some Unhealthy \<Rightarrow> io_return False
       | _ \<Rightarrow> io_then (sleep K 1) (poll_docker K c n)) s = (Inr True, t)"
    by (auto simp: io_Inr_iffs)
  have nt: "up (w_ext s) = up (w_ext w)"
    using laws_neutral(1) [OF assms(1), of c] s by (metis dk_ask_done neutral_def snd_conv)
  show ?case
  proof (cases "ci_health i = Some Healthy")
    case True
    then have "t = s" using rest by (simp add: io_return_def)
    moreover have "up (w_ext w) c"
      using s True assms(2) unfolding probe_laws_def by (metis dk_ask_done fst_conv)
    ultimately show ?thesis using nt by simp
  next
    case False
    then have "\<exists>v. poll_docker K c n v = (Inr True, t)"
      using rest by (auto simp: io_Inr_iffs split: option.splits health_status.splits)
    with Suc.IH show ?thesis by blast
  qed
qed

lemma poll_health_up:
  assumes "docker_laws K up" and "probe_laws K up" and "poll_health K def c w = (Inr u, t)"
  shows "up (w_ext t) (container_name (sd_service def) c)"
proof -
  obtain b s where b: "await_health K def c w = (Inr b, s)"
    and fin: "(if b then io_return () else io_fail (HealthTimeout (sd_service def))) s = (Inr u, t)"
    using assms(3) by (auto simp: poll_health_def io_Inr_iffs)
  then have "await_health K def c w = (Inr True, t)" by (cases b) (simp_all add: io_defs)
  then show ?thesis
    using poll_tcp_up [OF assms(1,2)] poll_docker_up [OF assms(1,2)]
    by (auto simp: await_health_def Let_def io_Inr_iffs wait_for_tcp_in_container_def
        wait_for_docker_healthy_def split: health_check.splits)
qed

section \<open>The rollback on the production host\<close>

text \<open>The state before the switch to the other color, and after it.\<close>

definition before_switch :: "('e \<Rightarrow> string \<Rightarrow> bool) \<Rightarrow> string \<Rightarrow> bool \<Rightarrow> color \<Rightarrow> 'e world \<Rightarrow> bool" where
  "before_switch up svc x a w \<longleftrightarrow>
     (x \<longrightarrow> up (w_ext w) (container_name svc a)) \<and> color_of svc (w_fs w) = a"

definition after_switch :: "('e \<Rightarrow> string \<Rightarrow> bool) \<Rightarrow> string \<Rightarrow> color \<Rightarrow> 'e world \<Rightarrow> bool" where
  "after_switch up svc a w \<longleftrightarrow>
     up (w_ext w) (container_name svc (flip a)) \<and> color_of svc (w_fs w) = flip a"

abbreviation serving_if :: "('e \<Rightarrow> string \<Rightarrow> bool) \<Rightarrow> string \<Rightarrow> bool \<Rightarrow> 'e world \<Rightarrow> bool" where
  "serving_if up svc x w \<equiv> x \<longrightarrow> real_serving up svc w"

lemma switch_serving:
  "before_switch up svc x a w \<Longrightarrow> serving_if up svc x w"
  "after_switch up svc a w \<Longrightarrow> serving_if up svc x w"
  by (simp_all add: before_switch_def after_switch_def real_serving_def)

lemma still_keeps_view:
  fixes m :: "('e world, 'a) io"
  assumes "still up svc m"
  shows "io_keeps (\<lambda>w. F (up (w_ext w)) (color_of svc (w_fs w))) m"
  unfolding io_keeps_def
proof (intro allI impI)
  fix w :: "'e world" assume "F (up (w_ext w)) (color_of svc (w_fs w))"
  then show "F (up (w_ext (snd (m w)))) (color_of svc (w_fs (snd (m w))))"
    using stillD [OF assms, of w] state_view_color by metis
qed

lemma still_switch:
  assumes "still up svc m"
  shows "io_keeps (before_switch up svc x a) m" "io_keeps (after_switch up svc a) m"
    "io_keeps (serving_if up svc x) m"
  unfolding before_switch_def after_switch_def real_serving_def by (rule still_keeps_view [OF assms])+

lemma touchesD:
  assumes "touches up svc n m"
  shows "n \<noteq> k \<Longrightarrow> up (w_ext w) k \<Longrightarrow> up (w_ext (snd (m w))) k"
    and "color_of svc (w_fs (snd (m w))) = color_of svc (w_fs w)"
proof -
  show "n \<noteq> k \<Longrightarrow> up (w_ext w) k \<Longrightarrow> up (w_ext (snd (m w))) k"
    using io_keepsD [OF spec [OF conjunct1 [OF assms [unfolded touches_def]], of k, rule_format] _
      prod.collapse [symmetric]] by simp
  have "state_view svc (w_fs (snd (m w))) = state_view svc (w_fs w)"
    using spec [OF conjunct1 [OF conjunct2 [OF assms [unfolded touches_def]]], of "state_view svc (w_fs w)"]
    unfolding io_keeps_def by blast
  then show "color_of svc (w_fs (snd (m w))) = color_of svc (w_fs w)" by (rule state_view_color)
qed

lemma touches_switch:
  assumes "touches up svc n m"
  shows "n \<noteq> container_name svc a \<Longrightarrow> io_keeps (before_switch up svc x a) m"
    and "n \<noteq> container_name svc (flip a) \<Longrightarrow> io_keeps (after_switch up svc a) m"
  unfolding before_switch_def after_switch_def io_keeps_def touchesD(2) [OF assms]
  using touchesD(1) [OF assms] by blast+

lemma keeps_to_triple:
  "io_keeps P m \<Longrightarrow> (\<And>s. P s \<Longrightarrow> E s) \<Longrightarrow> io_triple P m (\<lambda>_. P) E"
  by (auto simp: io_keeps_iff_triple elim: io_triple_weaken)

lemma switch_write:
  assumes "service_ok svc"
  shows "io_triple (\<lambda>w. before_switch up svc x a w \<and> up (w_ext w) (container_name svc (flip a)))
     (on_fs (write_active svc (flip a))) (\<lambda>_. after_switch up svc a) (serving_if up svc x)"
proof (rule io_tripleI)
  fix w u t assume w: "before_switch up svc x a w \<and> up (w_ext w) (container_name svc (flip a))"
    and m: "on_fs (write_active svc (flip a)) w = (Inr u, t)"
  from on_fs_run [OF m] have r: "write_active svc (flip a) (w_fs w) = (Inr u, w_fs t)" "w_ext t = w_ext w" by auto
  have "color_of svc (w_fs t) = flip a"
    using write_active_view(2) [OF assms r(1)] w by (simp add: before_switch_def)
  with r(2) w show "after_switch up svc a t" by (simp add: after_switch_def)
next
  fix w e t assume w: "before_switch up svc x a w \<and> up (w_ext w) (container_name svc (flip a))"
    and m: "on_fs (write_active svc (flip a)) w = (Inl e, t)"
  from on_fs_run [OF m] have r: "write_active svc (flip a) (w_fs w) = (Inl e, w_fs t)" "w_ext t = w_ext w" by auto
  have "color_of svc (w_fs t) \<in> {a, flip a}"
    using write_active_view(3) [OF assms r(1)] w by (simp add: before_switch_def)
  with r(2) w show "serving_if up svc x t" by (auto simp: before_switch_def real_serving_def)
qed

lemma switch_sha:
  assumes "service_ok svc"
  shows "io_keeps (after_switch up svc a) (on_fs (write_active_sha svc sha))"
  unfolding io_keeps_def
proof (intro allI impI)
  fix w assume w: "after_switch up svc a w"
  obtain r t where m: "on_fs (write_active_sha svc sha) w = (r, t)" by force
  from on_fs_run [OF m] have "write_active_sha svc sha (w_fs w) = (r, w_fs t)" "w_ext t = w_ext w" by auto
  with w write_sha_view(1) [OF assms] m show "after_switch up svc a (snd (on_fs (write_active_sha svc sha) w))"
    by (simp add: after_switch_def)
qed

text \<open>The calls of a rollback, one by one: those before the switch, the health check, those after it.\<close>

lemma rollback_calls:
  assumes "docker_laws K up" and "service_ok svc"
  shows "io_keeps (before_switch up svc x a) (dk_call (pf_inspect K n))"
    "io_keeps (before_switch up svc x a) (dk_ask (container_name svc (flip a)) (pf_start K (container_name svc (flip a))))"
    "io_keeps (before_switch up svc x a) (io_try (stop_container K (container_name svc (flip a))))"
    "io_keeps (after_switch up svc a) (on_fs (write_active_sha svc sha))"
    "io_keeps (after_switch up svc a) (io_try (apply_all K))"
    "io_keeps (after_switch up svc a) (stop_container K (container_name svc a))"
proof -
  show "io_keeps (before_switch up svc x a) (dk_call (pf_inspect K n))"
    by (intro still_switch still_dk_call laws_neutral assms(1))
  show "io_keeps (before_switch up svc x a) (dk_ask (container_name svc (flip a)) (pf_start K (container_name svc (flip a))))"
    by (intro touches_switch(1) [OF touches_dk_ask [OF laws_spares(2) [OF assms(1)]]]) simp
  show "io_keeps (before_switch up svc x a) (io_try (stop_container K (container_name svc (flip a))))"
    by (intro io_keeps_try touches_switch(1) [OF touches_stop [OF assms(1)]]) simp
  show "io_keeps (after_switch up svc a) (on_fs (write_active_sha svc sha))"
    by (rule switch_sha [OF assms(2)])
  show "io_keeps (after_switch up svc a) (io_try (apply_all K))"
    by (intro io_keeps_try still_switch still_apply_all assms)
  show "io_keeps (after_switch up svc a) (stop_container K (container_name svc a))"
    by (intro touches_switch(2) [OF touches_stop [OF assms(1)]]) simp
qed

lemma rollback_health:
  assumes "docker_laws K up" and "probe_laws K up" and "sd_service def = svc"
  shows "io_triple (before_switch up svc x a) (io_try (poll_health K def (flip a)))
    (\<lambda>r w. before_switch up svc x a w \<and> (\<forall>u. r = Inr u \<longrightarrow> up (w_ext w) (container_name svc (flip a))))
    (serving_if up svc x)"
proof (rule io_triple_try, rule io_tripleI)
  have still: "still up svc (poll_health K def (flip a))"
    unfolding poll_health_def by (intro still_rules still_await assms(1))
  let ?B = "before_switch up svc x a" and ?prev = "container_name svc (flip a)"
  show "?B t \<and> (\<forall>u'. Inr u = Inr u' \<longrightarrow> up (w_ext t) ?prev)"
    if "?B w" "poll_health K def (flip a) w = (Inr u, t)" for w u t
    using io_keepsD [OF still_switch(1) [OF still] that] poll_health_up [OF assms(1,2) that(2)] assms(3) by simp
  show "(\<forall>e. ?B t \<and> (\<forall>u. Inl e = Inr u \<longrightarrow> up (w_ext t) ?prev)) \<and> serving_if up svc x t"
    if "?B w" "poll_health K def (flip a) w = (Inl e, t)" for w e t
    using io_keepsD [OF still_switch(1) [OF still] that] switch_serving(1) [of up svc x a t] by simp
qed

lemma do_rollback_triple:
  assumes "docker_laws K up" and "probe_laws K up" and "service_ok svc" and "sd_service def = svc"
  shows "io_triple (before_switch up svc x a)
     (do_rollback K def svc (flip a) (container_name svc (flip a)) (container_name svc a))
     (\<lambda>_. after_switch up svc a) (serving_if up svc x)"
proof -
  let ?prev = "container_name svc (flip a)" and ?B = "before_switch up svc x a" and ?E = "serving_if up svc x"
  let ?A = "after_switch up svc a"
  note calls = rollback_calls [OF assms(1,3)] and health = rollback_health [OF assms(1,2,4)]
  have B: "io_triple ?B m (\<lambda>_. ?B) ?E" if "io_keeps ?B m" for m :: "('a world, 'c) io"
    by (rule keeps_to_triple [OF that switch_serving(1)])
  have A: "io_triple ?A m (\<lambda>_. ?A) ?E" if "io_keeps ?A m" for m :: "('a world, 'c) io"
    by (rule keeps_to_triple [OF that switch_serving(2)])
  have fail: "io_triple ?B (io_fail e) (\<lambda>_. ?A) ?E" "io_triple ?A (io_fail e) (\<lambda>_. ?A) ?E" for e
    using switch_serving(1) [of up svc x a] switch_serving(2) [of up svc a _ x]
    by (auto simp: io_triple_def io_fail_def)
  have tail: "io_triple ?A (case r of Inl _ \<Rightarrow> io_fail e | Inr _ \<Rightarrow> stop_container K (container_name svc a))
      (\<lambda>_. ?A) ?E" for r :: "unit res" and e
    using fail(2) A [OF calls(6)] by (cases r) simp_all
  have after_health: "io_triple (\<lambda>w. ?B w \<and> (\<forall>u. h = Inr u \<longrightarrow> up (w_ext w) ?prev))
      (case h of
         Inl _ \<Rightarrow> io_bind (io_try (stop_container K ?prev)) (\<lambda>_. io_fail e1)
       | Inr _ \<Rightarrow> io_then (on_fs (write_active svc (flip a)))
           (io_then (on_fs (write_active_sha svc sha))
             (io_bind (io_try (apply_all K)) (\<lambda>reload.
                case reload of Inl _ \<Rightarrow> io_fail e2 | Inr _ \<Rightarrow> stop_container K (container_name svc a)))))
      (\<lambda>_. ?A) ?E" for h :: "unit res" and sha e1 e2
  proof (cases h)
    case (Inl e)
    then show ?thesis using io_triple_bind [OF B [OF calls(3)] fail(1)] by simp
  next
    case (Inr u)
    then show ?thesis
      using io_triple_then [OF switch_write [OF assms(3)] io_triple_then [OF A [OF calls(4)]
          io_triple_bind [OF A [OF calls(5)] tail]]] by simp
  qed
  show ?thesis
    unfolding do_rollback_def Let_def
  proof (rule io_triple_bind [OF B [OF calls(1)]], split sum.split, intro conjI allI impI)
    fix inspected info
    show "io_triple ?B
      (if running_flag (Inr info) then io_fail (ToolError ''container is already running'')
       else io_then (dk_ask ?prev (pf_start K ?prev))
           (io_bind (io_try (poll_health K def (flip a))) (\<lambda>health.
              case health of
                Inl _ \<Rightarrow> io_bind (io_try (stop_container K ?prev)) (\<lambda>_.
                  io_fail (ToolError ''health check failed after restart''))
              | Inr _ \<Rightarrow>
                  io_then (on_fs (write_active svc (flip a)))
                 (io_then (on_fs (write_active_sha svc (case sha_from_image_tag svc (or_empty (ci_image info)) of
                           None \<Rightarrow> ''unknown'' | Some s \<Rightarrow> s)))
                 (io_bind (io_try (apply_all K)) (\<lambda>reload.
                    case reload of
                      Inl _ \<Rightarrow> io_fail (ToolError ''caddy reload failed after state write'')
                    | Inr _ \<Rightarrow> stop_container K (container_name svc a)))))))
      (\<lambda>_. ?A) ?E"
      by (rule io_triple_if [OF fail(1) io_triple_then [OF B [OF calls(2)] io_triple_bind [OF health after_health]]])
  qed (rule fail(1))
qed

section \<open>The request\<close>

lemma still_status: "docker_laws K up \<Longrightarrow> still up svc (build_status K ops)"
  unfolding build_status_def container_status_def service_part_def is_container_stopped_def Let_def
  by (intro still_rules still_ext laws_neutral)
    (auto intro!: still_rules still_ext laws_neutral split: option.split prod.split)

lemma broadcast_keeps:
  assumes "\<And>ops. io_keeps P (build_status K ops)"
  shows "io_keeps (\<lambda>u. P (ho_world u)) (broadcast_status K)"
  unfolding io_keeps_def broadcast_status_def
  using io_keepsD [OF assms] by (auto split: prod.splits)

lemma ops_keeps: "io_keeps (\<lambda>u. P (ho_world u)) (io_modify (\<lambda>v. v\<lparr>ui_ops := f v\<rparr>))"
  by (simp add: io_keeps_def io_modify_def)

lemma rollback_marked_triple:
  assumes "docker_laws K up" and "probe_laws K up" and "service_ok svc" and "sd_service def = svc"
  shows "io_triple (\<lambda>u. before_switch up svc x a (ho_world u)) (rollback_marked K def svc a)
     (\<lambda>_ u. after_switch up svc a (ho_world u)) (\<lambda>u. serving_if up svc x (ho_world u))"
proof -
  let ?B = "\<lambda>u. before_switch up svc x a (ho_world u)" and ?A = "\<lambda>u. after_switch up svc a (ho_world u)"
  let ?E = "\<lambda>u. serving_if up svc x (ho_world u)"
  let ?R = "\<lambda>r u. case r of Inl _ \<Rightarrow> ?E u | Inr _ \<Rightarrow> ?A u"
  note st = still_switch [OF still_status [OF assms(1)]]
  have B: "io_triple ?B m (\<lambda>_. ?B) ?E" if "io_keeps ?B m" for m :: "('a ui, 'c) io"
    by (rule keeps_to_triple [OF that switch_serving(1)])
  have R: "io_triple (?R r) m (\<lambda>_. ?R r) ?E" if "io_keeps ?A m" "io_keeps ?E m"
    for r :: "unit res" and m :: "('a ui, 'c) io"
    using keeps_to_triple [OF that(1), of ?E] keeps_to_triple [OF that(2), of ?E]
      switch_serving(2) [of up svc a _ x] by (cases r) simp_all
  have run: "io_triple ?B
      (io_try (on_host (do_rollback K def svc (flip a) (container_name svc (flip a)) (container_name svc a))))
      ?R ?E"
    using on_host_triple [OF do_rollback_triple [OF assms, of x a]]
    by (intro io_triple_try) (auto elim!: io_triple_weaken)
  have fin: "io_triple (?R r) (io_lift r) (\<lambda>_. ?A) ?E" for r
    by (cases r) (simp_all add: io_triple_def io_lift_def)
  show ?thesis
    unfolding rollback_marked_def Let_def
    by (rule io_triple_then [OF B [OF ops_keeps] io_triple_then [OF B [OF broadcast_keeps [OF st(1)]]
          io_triple_bind [OF run io_triple_then [OF R [OF ops_keeps ops_keeps]
            io_triple_then [OF R [OF broadcast_keeps [OF st(2)] broadcast_keeps [OF st(3)]] fin]]]]])
qed

lemma locked_rollback_triple:
  assumes "docker_laws K up" and "probe_laws K up" and "service_ok svc" and "sd_service def = svc"
  shows "io_triple (\<lambda>u. before_switch up svc x a (ho_world u) \<and>
       load_def (pf_yaml_service K) (w_fs (ho_world u)) svc = Inr def)
     (locked_rollback K svc)
     (\<lambda>_ u. after_switch up svc a (ho_world u)) (\<lambda>u. serving_if up svc x (ho_world u))"
proof -
  let ?B = "\<lambda>u. before_switch up svc x a (ho_world u)" and ?E = "\<lambda>u. serving_if up svc x (ho_world u)"
  let ?L = "\<lambda>u. load_def (pf_yaml_service K) (w_fs (ho_world u)) svc"
  have load: "io_triple (\<lambda>u. ?B u \<and> ?L u = Inr def) (io_try (on_host (load_service K svc)))
      (\<lambda>r u. ?B u \<and> r = Inr def) ?E"
    by (auto simp: io_triple_def io_try_def on_host_def load_service_def read_fs_def)
  have con: "io_triple ?B (on_host (docker_connect K)) (\<lambda>_. ?B) ?E"
    using switch_serving(1) [of up svc x a]
    by (auto simp: io_triple_def on_host_def docker_connect_def)
  have read: "io_triple ?B (on_host (read_fs (read_active svc))) (\<lambda>c u. ?B u \<and> c = a) ?E"
    using switch_serving(1) [of up svc x a]
    by (auto simp: io_triple_iff on_host_run read_fs_run before_switch_def dest: color_of_Inr [OF sym])
  have body: "io_triple (\<lambda>u. ?B u \<and> loaded = Inr def)
      (case loaded of
         Inl _ \<Rightarrow> io_fail (ToolError m)
       | Inr d \<Rightarrow> io_then (on_host (docker_connect K))
           (io_bind (on_host (read_fs (read_active svc))) (\<lambda>active_color. rollback_marked K d svc active_color)))
      (\<lambda>_ u. after_switch up svc a (ho_world u)) ?E" for loaded m
  proof (cases "loaded = Inr def")
    case True
    have "io_triple ?B (io_then (on_host (docker_connect K))
        (io_bind (on_host (read_fs (read_active svc))) (\<lambda>active_color. rollback_marked K def svc active_color)))
      (\<lambda>_ u. after_switch up svc a (ho_world u)) ?E"
      by (rule io_triple_then [OF con io_triple_bind [OF read triple_given_color]])
        (simp add: rollback_marked_triple [OF assms])
    with True show ?thesis by simp
  qed (simp add: io_triple_def)
  show ?thesis
    unfolding locked_rollback_def by (rule io_triple_bind [OF load body])
qed

lemma on_host_frame: "io_keeps (\<lambda>u. P (ho_held u) (ui_rollbacks u)) (on_host m)"
  by (auto simp: io_keeps_def on_host_def split: prod.splits)

lemma broadcast_frame: "io_keeps (\<lambda>u. P (ho_held u) (ui_rollbacks u)) (broadcast_status K)"
  by (auto simp: io_keeps_def broadcast_status_def split: prod.splits)

lemma ops_frame: "io_keeps (\<lambda>u. P (ho_held u) (ui_rollbacks u)) (io_modify (\<lambda>v. v\<lparr>ui_ops := f v\<rparr>))"
  by (simp add: io_keeps_def io_modify_def)

lemma locked_rollback_frame: "io_keeps (\<lambda>u. P (ho_held u) (ui_rollbacks u)) (locked_rollback K svc)"
proof -
  have "io_keeps (\<lambda>u. P (ho_held u) (ui_rollbacks u)) (rollback_marked K def svc a)" for def a
    unfolding rollback_marked_def Let_def
    by (intro io_keeps_bind io_keeps_then io_keeps_try on_host_frame broadcast_frame ops_frame io_keeps_basic)
  then show ?thesis
    unfolding locked_rollback_def
    by (auto intro!: io_keeps_bind io_keeps_then io_keeps_try on_host_frame io_keeps_basic split: sum.split)
qed

lemma same_host_rollbacks: "same_host u v \<Longrightarrow> ui_rollbacks v = ui_rollbacks u"
  by (cases u; cases v) (simp add: same_host_def)

lemma run_rollback_cases:
  assumes "run_rollback K svc u = (r, v)"
  obtains (refused) e where "r = Inl e" "same_host u v" "ho_held v = ho_held u" "lock_name_ok svc \<or> v = u"
    | (ran) u' v' where "same_host u u'" "ho_held u' = deploy_lock_path svc # ho_held u" "lock_name_ok svc"
        "locked_rollback K svc u' = (r, v')" "ho_world v = ho_world v'"
        "ui_rollbacks v = ui_rollbacks v'"
        "r \<noteq> Inl DoesNotReturn \<longrightarrow> ho_held v = remove1 (deploy_lock_path svc) (ho_held v')"
proof -
  obtain q u' where a: "acquire svc u = (q, u')" by force
  from a show thesis
  proof (cases rule: acquire_cases)
    case taken
    obtain x v' where l: "locked_rollback K svc u' = (x, v')" by force
    have "holding (deploy_lock_path svc) (locked_rollback K svc) u' = (r, v)"
      using assms a taken(1) by (simp add: run_rollback_def io_bind_def io_try_def)
    then have "r = x" "v = (if r = Inl DoesNotReturn then v' else v'\<lparr>ho_held := remove1 (deploy_lock_path svc) (ho_held v')\<rparr>)"
      using l by (auto simp: holding_def)
    then have "locked_rollback K svc u' = (r, v')" "ho_world v = ho_world v'" "ui_rollbacks v = ui_rollbacks v'"
      "r \<noteq> Inl DoesNotReturn \<longrightarrow> ho_held v = remove1 (deploy_lock_path svc) (ho_held v')"
      using l by simp_all
    then show ?thesis by (rule ran [OF taken(3,4,2)])
  next
    case (refused e)
    then have "\<exists>e'. r = Inl e' \<and> v = u'"
      using assms a by (auto simp: run_rollback_def io_bind_def io_try_def io_fail_def split: if_splits)
    then obtain e' where "r = Inl e'" "v = u'" by blast
    with refused(2-4) show ?thesis by (intro that(1)) simp_all
  qed
qed

text \<open>The part of a request that runs under the lock.\<close>

lemma locked_rollback_outcome:
  assumes "docker_laws K up" and "probe_laws K up" and "lock_name_ok svc" and "sd_service def = svc"
    and "same_host u u'" and "locked_rollback K svc u' = (r, v')"
    and "load_def (pf_yaml_service K) (w_fs (ho_world u)) svc = Inr def" and "real_serving up svc (ho_world u)"
  shows "real_serving up svc (ho_world v')"
    "r = Inr x \<Longrightarrow> color_of svc (w_fs (ho_world v')) = flip (color_of svc (w_fs (ho_world u)))"
proof -
  let ?a = "color_of svc (w_fs (ho_world u))"
  have ok: "service_ok svc" by (rule lock_name_service [OF assms(3)])
  have pre: "before_switch up svc True ?a (ho_world u') \<and>
      load_def (pf_yaml_service K) (w_fs (ho_world u')) svc = Inr def"
    using same_host_color [OF assms(5) ok] assms(5,7,8) by (simp add: same_host_def before_switch_def real_serving_def)
  note post = io_tripleD [OF locked_rollback_triple [OF assms(1,2) ok assms(4)] pre]
  show "real_serving up svc (ho_world v')"
  proof (cases r)
    case (Inl e)
    then show ?thesis using post(2) [of e v'] assms(6) by simp
  next
    case (Inr y)
    then have "after_switch up svc ?a (ho_world v')" using post(1) [of y v'] assms(6) by simp
    then show ?thesis by (simp add: after_switch_def real_serving_def)
  qed
  show "color_of svc (w_fs (ho_world v')) = flip ?a" if "r = Inr x"
    using post(1) [of x v'] assms(6) that by (simp add: after_switch_def)
qed

section \<open>Correctness\<close>

text \<open>
  C11: A rollback request never causes an outage: if the container of the recorded color runs when the
  request arrives, the container of the color recorded afterwards runs when it is answered, whatever
  fails on the way. A request that is answered with success has switched to the other color. The
  request mark of the service and the deploy lock are as before in every answer.
\<close>

theorem rollback_no_outage:
  assumes "docker_laws K up" and "probe_laws K up" and "post_rollback K svc u = (resp, v)"
    and "load_def (pf_yaml_service K) (w_fs (ho_world u)) svc = Inr def" and "sd_service def = svc"
    and "real_serving up svc (ho_world u)"
  shows "real_serving up svc (ho_world v) \<and>
    (resp = Ok200 \<longrightarrow> color_of svc (w_fs (ho_world v)) = flip (color_of svc (w_fs (ho_world u)))) \<and>
    (resp \<noteq> NoResponse \<longrightarrow> ui_rollbacks v = ui_rollbacks u \<and> ho_held v = ho_held u)"
proof (cases "svc \<in> ui_rollbacks u")
  case True
  then have "resp = Conflict" "v = u" using assms(3) by (simp_all add: post_rollback_def)
  with assms(6) show ?thesis by simp
next
  case False
  let ?u = "u\<lparr>ui_rollbacks := insert svc (ui_rollbacks u)\<rparr>" and ?a = "color_of svc (w_fs (ho_world u))"
  obtain r w where run: "run_rollback K svc ?u = (r, w)" by force
  have resp: "ho_world v = ho_world w" "resp = Ok200 \<longrightarrow> (\<exists>x. r = Inr x)"
    "resp \<noteq> NoResponse \<longrightarrow> r \<noteq> Inl DoesNotReturn \<and> ui_rollbacks v = ui_rollbacks w - {svc} \<and> ho_held v = ho_held w"
    using assms(3) False run by (auto simp: post_rollback_def split: if_splits sum.splits)
  from run show ?thesis
  proof (cases rule: run_rollback_cases)
    case (refused e)
    have "real_serving up svc (ho_world w) \<longleftrightarrow> real_serving up svc (ho_world ?u)"
      using refused(2,4) same_host_serving [OF _ lock_name_service] by metis
    moreover have "ui_rollbacks w = ui_rollbacks ?u" using same_host_rollbacks [OF refused(2)] .
    ultimately show ?thesis using resp False assms(6) refused(1,3) by (auto simp: real_serving_def)
  next
    case (ran u' v')
    have load: "load_def (pf_yaml_service K) (w_fs (ho_world ?u)) svc = Inr def" "real_serving up svc (ho_world ?u)"
      using assms(4,6) by (simp_all add: real_serving_def)
    note outcome = locked_rollback_outcome [OF assms(1,2) ran(3) assms(5) ran(1,4) load]
    have "real_serving up svc (ho_world v)" using outcome(1) ran(5) resp(1) by simp
    moreover have "color_of svc (w_fs (ho_world v)) = flip ?a" if "r = Inr x" for x
      using outcome(2) [OF that] ran(5) resp(1) by simp
    moreover have "ho_held v' = deploy_lock_path svc # ho_held u \<and> ui_rollbacks v' = insert svc (ui_rollbacks u)"
      using io_keepsD [OF locked_rollback_frame [of "\<lambda>h b. h = deploy_lock_path svc # ho_held u \<and>
          b = insert svc (ui_rollbacks u)"] _ ran(4)] ran(2) same_host_rollbacks [OF ran(1)] by simp
    ultimately show ?thesis using resp ran(6,7) False by auto
  qed
qed

lemma en_probe_laws: "probe_laws en_platform en_up"
proof -
  have "so_success r \<longrightarrow> en_up e n" if "fst (en_spawn (tcp_probe n p) [] e) = Some r" for n p e r
    using that by (auto simp: en_spawn_def tcp_probe_def)
  moreover have "ci_health i = Some Healthy \<longrightarrow> en_up e n" if "fst (en_inspect n e) = Inr i" for n e i
    using that by (auto simp: en_inspect_def en_up_def split: option.splits if_splits)
  ultimately show ?thesis by (auto simp: probe_laws_def en_platform_def)
qed

text \<open>The blue container runs, the green one of the tag before is stopped.\<close>

definition en_console :: "engine ui" where
  "en_console =
     \<lparr>ho_world = en_world\<lparr>w_ext := en_set ''codery-paseo-green''
        (''ghcr.io/coderyoss/codery:paseo-prev'', False) (w_ext en_world)\<rparr>,
      ho_held = [], ho_nolock = False, ui_ops = (\<lambda>_. None), ui_rollbacks = {}, ui_events = []\<rparr>"

lemma rollback_no_outage_witness:
  "fst (post_rollback en_platform ''paseo'' en_console) = Ok200 \<and>
   real_serving en_up ''paseo'' (ho_world (snd (post_rollback en_platform ''paseo'' en_console))) \<and>
   read_active_sha ''paseo'' (w_fs (ho_world (snd (post_rollback en_platform ''paseo'' en_console)))) =
     Some ''prev''"
proof -
  obtain resp v where p: "post_rollback en_platform ''paseo'' en_console = (resp, v)" by force
  have "load_def (pf_yaml_service en_platform) (w_fs (ho_world en_console)) ''paseo'' = Inr paseo_def"
    using en_load by (simp add: en_console_def)
  moreover have "real_serving en_up ''paseo'' (ho_world en_console)" by code_simp
  moreover have "fst (post_rollback en_platform ''paseo'' en_console) = Ok200"
    "read_active_sha ''paseo'' (w_fs (ho_world (snd (post_rollback en_platform ''paseo'' en_console)))) =
       Some ''prev''"
    by code_simp+
  ultimately show ?thesis
    using rollback_no_outage [OF en_docker_laws en_probe_laws p _ paseo_ok(2)] p by simp
qed

text \<open>
  The list offers a rollback wherever the container of the other color is stopped; the flow starts from
  the recorded color. When the container of the recorded color has crashed and the other one runs, the
  entry of the running container offers a rollback to the crashed one, which is always refused.
\<close>

definition en_crashed :: "engine ui" where
  "en_crashed = en_console\<lparr>ho_world := en_world\<lparr>w_ext := (w_ext en_world)\<lparr>en_containers :=
     [(''codery-paseo-blue'', (''ghcr.io/coderyoss/codery:paseo-new'', False)),
      (''codery-paseo-green'', (''ghcr.io/coderyoss/codery:paseo-prev'', True))]\<rparr>\<rparr>\<rparr>"

lemma rollback_offered_but_refused:
  "(\<exists>s \<in> set (case fst (build_status en_platform (ui_ops en_crashed) (ho_world en_crashed)) of
       Inr ss \<Rightarrow> ss | Inl _ \<Rightarrow> []).
     ss_service s = Some ''paseo'' \<and> ss_prev_container s = Some ''codery-paseo-blue'')"
  "fst (post_rollback en_platform ''paseo'' en_crashed) =
     InternalError (ToolError ''container is already running'')"
  by code_simp+

end
