(* ===== verification/Rollback_Steps.thy ===== *)
theory Rollback_Steps
  imports Deploy_Steps Host_Frames Ui_Rollback
begin

text \<open>
  The rollback of the console cut at its awaits, as \<open>Deploy_Steps\<close> does for the commands: what it does
  to its own service while others run, and that it spares every other service. The status lists it
  broadcasts before and after only read; they are left to the other processes.
\<close>

section \<open>The program\<close>

definition do_rollback_prog ::
  "'e platform \<Rightarrow> service_def \<Rightarrow> string \<Rightarrow> color \<Rightarrow> string \<Rightarrow> string \<Rightarrow> ('e world, unit) prog" where
  "do_rollback_prog K def service prev_color prev_container active_container =
     seq (call (dk_call (pf_inspect K prev_container))) (\<lambda>inspected.
       case inspected of
         Inl _ \<Rightarrow> fails (ToolError ''no stopped container'')
       | Inr info \<Rightarrow>
           if running_flag (Inr info) then fails (ToolError ''container is already running'')
           else
             let prev_sha = (case sha_from_image_tag service (or_empty (ci_image info)) of
                               Some s \<Rightarrow> s | None \<Rightarrow> ''unknown'')
             in afterwards (call (dk_ask prev_container (pf_start K prev_container)))
               (seq (call (io_try (poll_health K def prev_color))) (\<lambda>health.
                  case health of
                    Inl _ \<Rightarrow>
                      afterwards (call (io_try (stop_container K prev_container)))
                        (fails (ToolError ''health check failed after restart''))
                  | Inr _ \<Rightarrow>
                      afterwards (call (on_fs (write_active service prev_color)))
                     (afterwards (call (on_fs (write_active_sha service prev_sha)))
                     (seq (call (io_try (apply_all K))) (\<lambda>reload.
                        case reload of
                          Inl _ \<Rightarrow> fails (ToolError ''caddy reload failed after state write'')
                        | Inr _ \<Rightarrow> call (stop_container K active_container)))))))"

definition rollback_prog :: "'e platform \<Rightarrow> string \<Rightarrow> service_def \<Rightarrow> ('e world, unit) prog" where
  "rollback_prog K service def =
     afterwards (call (docker_connect K))
    (seq (call (read_fs (read_active service))) (\<lambda>active_color.
       do_rollback_prog K def service (flip active_color) (container_name service (flip active_color))
         (container_name service active_color)))"

lemma run_rollback_prog:
  "run_prog (do_rollback_prog K def service c n m) = do_rollback K def service c n m"
proof -
  have res: "run_prog (case r of Inl e \<Rightarrow> p e | Inr b \<Rightarrow> q b) = (case r of Inl e \<Rightarrow> run_prog (p e) | Inr b \<Rightarrow> run_prog (q b))"
    for r :: "'x + 'y" and p q
    by (cases r) simp_all
  show ?thesis
    by (simp add: do_rollback_prog_def do_rollback_def prog_run res io_then_def Let_def cong: if_cong sum.case_cong)
qed


section \<open>Other services\<close>

lemma spared_steps: "spares_service up t m \<Longrightarrow> steps_in (frame_step up t) (call m)"
  by (rule steps_in_call) (rule spares_frame)

lemma rollback_calls_spared:
  assumes "docker_laws K up" and "service_ok t" and "service_ok svc" and "t \<noteq> svc"
  shows "spares_service up t (dk_call (pf_inspect K n))"
    "spares_service up t (dk_ask (container_name svc c) (pf_start K (container_name svc c)))"
    "spares_service up t (io_try (poll_health K def c))"
    "spares_service up t (io_try (stop_container K (container_name svc c)))"
    "spares_service up t (io_try (apply_all K))"
proof -
  have n: "container_name svc c \<noteq> container_name t d" for c d
    using assms(4) by (simp add: container_name_inject)
  show "spares_service up t (dk_call (pf_inspect K n))"
    by (intro spared_still still_dk_call laws_neutral assms)
  show "spares_service up t (dk_ask (container_name svc c) (pf_start K (container_name svc c)))"
    by (rule spared_touches [OF touches_dk_ask [OF laws_spares(2) [OF assms(1)]] n])
  show "spares_service up t (io_try (poll_health K def c))"
    unfolding poll_health_def by (intro spared_still still_rules still_await assms)
  show "spares_service up t (io_try (stop_container K (container_name svc c)))"
    using real_ops_spared(9) [OF assms] unfolding spares_service_def by (auto intro: io_keeps_try)
  show "spares_service up t (io_try (apply_all K))"
    using real_ops_spared(4) [OF assms] unfolding spares_service_def by (auto intro: io_keeps_try)
qed

lemma rollback_spared:
  assumes "docker_laws K up" and "service_ok t" and "service_ok svc" and "t \<noteq> svc"
  shows "spares_service up t (do_rollback K def svc c (container_name svc c) (container_name svc d))"
    "steps_in (frame_step up t) (rollback_prog K svc def)"
proof -
  note calls = rollback_calls_spared [OF assms] spared_writes [OF assms(2-4)] real_ops_spared(9) [OF assms]
  show "spares_service up t (do_rollback K def svc c (container_name svc c) (container_name svc d))"
    unfolding do_rollback_def Let_def
    by (intro spared_bind [OF calls(1)]) (auto split: sum.split intro!: spared calls)
  have "steps_in (frame_step up t) (do_rollback_prog K def svc c (container_name svc c) (container_name svc d))" for c d
    unfolding do_rollback_prog_def Let_def
    by (intro steps_in_seq [OF spared_steps [OF calls(1)]]) (auto split: sum.split intro!: guar spared_steps calls)
  then show "steps_in (frame_step up t) (rollback_prog K svc def)"
    unfolding rollback_prog_def by (intro guar spared_steps spared)
qed

section \<open>The service itself\<close>

text \<open>What others do to a service while one operation holds its lock.\<close>

definition service_untouched :: "('e \<Rightarrow> string \<Rightarrow> bool) \<Rightarrow> string \<Rightarrow> 'e world \<Rightarrow> 'e world \<Rightarrow> bool" where
  "service_untouched up t w v \<longleftrightarrow>
     color_of t (w_fs v) = color_of t (w_fs w) \<and> read_active_sha t (w_fs v) = read_active_sha t (w_fs w) \<and>
     (\<forall>c. up (w_ext w) (container_name t c) \<longrightarrow> up (w_ext v) (container_name t c))"

interpretation world: interference "service_untouched up t" "real_serving up t" for up t
  by unfold_locales (simp_all add: service_untouched_def)

lemma stable_switch:
  "world.stable up t (before_switch up t True a)" "world.stable up t (after_switch up t a)"
  "world.stable up t (\<lambda>w. before_switch up t True a w \<and> (b \<longrightarrow> up (w_ext w) (container_name t (flip a))))"
  "world.stable up t (\<lambda>w. before_switch up t True a w \<and> q)" "world.stable up t (real_serving up t)"
  by (auto simp: world.stable_def before_switch_def after_switch_def real_serving_def service_untouched_def)

lemma do_rollback_sat:
  assumes "docker_laws K up" and "probe_laws K up" and "service_ok t" and "sd_service def = t"
  shows "world.sat up t (before_switch up t True a)
    (do_rollback_prog K def t (flip a) (container_name t (flip a)) (container_name t a)) (\<lambda>_. after_switch up t a)"
proof -
  let ?B = "before_switch up t True a" and ?A = "after_switch up t a"
  note calls = rollback_calls [OF assms(1,3)]
  have before: "world.sat up t ?B (call m) (\<lambda>_. ?B)" if "io_keeps ?B m" for m :: "('a world, 'c) io"
    by (rule world.sat_keeps [OF that stable_switch(1)])
  have after: "world.sat up t ?A (call m) (\<lambda>_. ?A)" if "io_keeps ?A m" for m :: "('a world, 'c) io"
    by (rule world.sat_keeps [OF that stable_switch(2)])
  have fail: "world.sat up t ?B (fails e) (\<lambda>_. ?A)" "world.sat up t ?A (fails e) (\<lambda>_. ?A)" for e
    by (rule world.sat_fails [OF stable_switch(1)], rule world.sat_fails [OF stable_switch(2)])
  have health: "world.sat up t ?B (call (io_try (poll_health K def (flip a))))
      (\<lambda>r w. ?B w \<and> ((\<exists>u. r = Inr u) \<longrightarrow> up (w_ext w) (container_name t (flip a))))"
    by (rule world.sat_call [OF _ stable_switch(1) stable_switch(3) stable_switch(5)])
      (rule io_triple_weaken [OF rollback_health [OF assms(1,2,4), of True a]], auto)
  have flips: "world.sat up t (\<lambda>w. ?B w \<and> (True \<longrightarrow> up (w_ext w) (container_name t (flip a))))
      (call (on_fs (write_active t (flip a)))) (\<lambda>_. ?A)"
    by (rule world.sat_call [OF _ stable_switch(3) stable_switch(2) stable_switch(5)])
      (rule io_triple_weaken [OF switch_write [OF assms(3), of up True a]], auto)
  have tail: "world.sat up t ?A (case r of Inl _ \<Rightarrow> fails e | Inr _ \<Rightarrow> call (stop_container K (container_name t a)))
      (\<lambda>_. ?A)" for r :: "unit res" and e
    using fail(2) after [OF calls(6)] by (cases r) simp_all
  have after_health: "world.sat up t (\<lambda>w. ?B w \<and> ((\<exists>u. h = Inr u) \<longrightarrow> up (w_ext w) (container_name t (flip a))))
      (case h of
         Inl _ \<Rightarrow> afterwards (call (io_try (stop_container K (container_name t (flip a))))) (fails e1)
       | Inr _ \<Rightarrow> afterwards (call (on_fs (write_active t (flip a))))
           (afterwards (call (on_fs (write_active_sha t sha)))
             (seq (call (io_try (apply_all K))) (\<lambda>reload.
                case reload of Inl _ \<Rightarrow> fails e2 | Inr _ \<Rightarrow> call (stop_container K (container_name t a))))))
      (\<lambda>_. ?A)" for h :: "unit res" and sha e1 e2
  proof (cases h)
    case (Inl e)
    then show ?thesis using world.sat_seq [OF before [OF calls(3)] fail(1)] by simp
  next
    case (Inr u)
    then show ?thesis
      using world.sat_seq [OF flips world.sat_seq [OF after [OF calls(4)]
          world.sat_seq [OF after [OF calls(5)] tail]]] by simp
  qed
  show ?thesis
    unfolding do_rollback_prog_def Let_def
  proof (rule world.sat_seq [OF before [OF calls(1)]], split sum.split, intro conjI allI impI)
    fix inspected info
    show "world.sat up t ?B
      (if running_flag (Inr info) then fails (ToolError ''container is already running'')
       else afterwards (call (dk_ask (container_name t (flip a)) (pf_start K (container_name t (flip a)))))
           (seq (call (io_try (poll_health K def (flip a)))) (\<lambda>health.
              case health of
                Inl _ \<Rightarrow> afterwards (call (io_try (stop_container K (container_name t (flip a)))))
                  (fails (ToolError ''health check failed after restart''))
              | Inr _ \<Rightarrow>
                  afterwards (call (on_fs (write_active t (flip a))))
                 (afterwards (call (on_fs (write_active_sha t (case sha_from_image_tag t (or_empty (ci_image info)) of
                           None \<Rightarrow> ''unknown'' | Some s \<Rightarrow> s))))
                 (seq (call (io_try (apply_all K))) (\<lambda>reload.
                    case reload of
                      Inl _ \<Rightarrow> fails (ToolError ''caddy reload failed after state write'')
                    | Inr _ \<Rightarrow> call (stop_container K (container_name t a)))))))) (\<lambda>_. ?A)"
      by (rule world.sat_if [OF fail(1) world.sat_seq [OF before [OF calls(2)] world.sat_seq [OF health after_health]]])
  qed (rule fail(1))
qed

lemma rollback_sat:
  assumes "docker_laws K up" and "probe_laws K up" and "service_ok t" and "sd_service def = t"
  shows "world.sat up t (before_switch up t True a) (rollback_prog K t def) (\<lambda>_. after_switch up t a)"
proof -
  let ?B = "before_switch up t True a"
  have con: "world.sat up t ?B (call (docker_connect K)) (\<lambda>_. ?B)"
    by (intro world.sat_keeps stable_switch still_switch still_basic)
  have "io_triple ?B (read_fs (read_active t)) (\<lambda>c w. ?B w \<and> c = a) (real_serving up t)"
    using switch_serving(1) [of up t True a]
    by (auto simp: io_triple_iff read_fs_run before_switch_def dest: color_of_Inr [OF sym])
  then have read: "world.sat up t ?B (call (read_fs (read_active t))) (\<lambda>c w. ?B w \<and> c = a)"
    by (rule world.sat_call) (rule stable_switch)+
  show ?thesis
    unfolding rollback_prog_def
    by (rule world.sat_seq [OF con world.sat_seq [OF read world.sat_given]])
      (simp add: do_rollback_sat [OF assms])
qed

end
