(* ===== verification/Fleet.thy ===== *)
theory Fleet
  imports Rollback_Steps
begin

text \<open>
  All processes of the host at once: locked deploys, previews, cutovers, cancellations and console
  rollbacks of any services, each advancing by single calls in any order, refused or killed at any point; and what
  happens to two deploys of one service that do not take the lock.
\<close>

section \<open>Jobs\<close>

datatype job =
  DeployJob string
| StageJob string
| SwitchJob "string option" "string option"  \<comment> \<open>the tag of \<^verbatim>\<open>--sha\<close> and the staged preview\<close>
| CancelJob
| RollbackJob

fun job_prog :: "'e platform \<Rightarrow> string \<Rightarrow> service_def \<Rightarrow> job \<Rightarrow> ('e world, unit) prog" where
  "job_prog K service def (DeployJob sha) = deploy_prog (real_deps K) def sha"
| "job_prog K service def (StageJob sha) = seq (stage_prog (real_deps K) def sha) (\<lambda>_. ends ())"
| "job_prog K service def (SwitchJob sha_opt preview) = switch_prog K service sha_opt preview def"
| "job_prog K service def CancelJob = cancel_prog (real_deps K) def"
| "job_prog K service def RollbackJob = rollback_prog K service def"

type_synonym 'e running = "string \<times> job \<times> ('e world, unit) prog"

text \<open>
  The lock is named after the argument and the record after the declaration, so a job begins with a
  declaration that carries its own name. A job ends by itself or is killed; the kernel drops its lock.
  Everything else on the host leaves running containers and recorded state alone.
\<close>

inductive fleet ::
  "'e platform \<Rightarrow> ('e \<Rightarrow> string \<Rightarrow> bool) \<Rightarrow> 'e host \<Rightarrow> 'e host \<Rightarrow> 'e running list \<Rightarrow> bool"
  for K :: "'e platform" and up :: "'e \<Rightarrow> string \<Rightarrow> bool" and h0 :: "'e host" where
  boot: "fleet K up h0 h0 []"
| enter: "fleet K up h0 h jobs \<Longrightarrow> acquire s h = (Inr path, g) \<Longrightarrow>
    load_def (pf_yaml_service K) (w_fs (ho_world g)) s = Inr def \<Longrightarrow> sd_service def = s \<Longrightarrow>
    fleet K up h0 g ((s, j, job_prog K s def j) # jobs)"
| refused: "fleet K up h0 h jobs \<Longrightarrow> acquire s h = (Inl e, g) \<Longrightarrow> fleet K up h0 g jobs"
| advance: "fleet K up h0 h jobs \<Longrightarrow> i < length jobs \<Longrightarrow> jobs ! i = (s, j, Next f) \<Longrightarrow>
    f (ho_world h) = (p, w) \<Longrightarrow> fleet K up h0 (h\<lparr>ho_world := w\<rparr>) (jobs[i := (s, j, p)])"
| leave: "fleet K up h0 h (before @ (s, j, p) # after) \<Longrightarrow>
    fleet K up h0 (h\<lparr>ho_held := remove1 (deploy_lock_path s) (ho_held h)\<rparr>) (before @ after)"
| other: "fleet K up h0 h jobs \<Longrightarrow> (\<And>t. service_ok t \<Longrightarrow> frame_step up t (ho_world h) w) \<Longrightarrow>
    fleet K up h0 (h\<lparr>ho_world := w\<rparr>) jobs"

section \<open>One service among others\<close>

lemma frame_untouched: "frame_step up t w v \<Longrightarrow> service_untouched up t w v"
  unfolding frame_step_def service_untouched_def using state_view_color state_view_sha by blast

definition job_done :: "string \<Rightarrow> job \<Rightarrow> 'e world \<Rightarrow> bool" where
  "job_done t j w \<longleftrightarrow>
     (case j of DeployJob sha \<Rightarrow> clean_sha sha \<longrightarrow> read_active_sha t (w_fs w) = Some sha | _ \<Rightarrow> True)"

lemma real_untouched:
  assumes "docker_laws K up" and "service_ok t"
  shows "deploy_host.untouched t (\<lambda>w. up (w_ext w)) (\<lambda>w. color_of t (w_fs w)) (\<lambda>w. read_active_sha t (w_fs w))
    = service_untouched up t"
    "deploy_host.serving t (\<lambda>w. up (w_ext w)) (\<lambda>w. color_of t (w_fs w)) = real_serving up t"
  using deploy_host.untouched_def [OF real_deps_host [OF assms]] real_serving_def' [OF assms]
  by (simp_all add: fun_eq_iff service_untouched_def)

lemma real_sat:
  assumes "docker_laws K up" and "service_ok t" and "sd_service def = t"
  shows "world.sat up t (real_live up t True a) (deploy_prog (real_deps K) def sha) (\<lambda>_. job_done t (DeployJob sha))"
    "world.sat up t (real_live up t True a) (stage_prog (real_deps K) def sha) (\<lambda>_. real_live up t True a)"
    "world.sat up t (real_live up t True a) (cancel_prog (real_deps K) def) (\<lambda>_. real_live up t True a)"
    "world.sat up t (real_live up t True a) (start_prog (real_deps K) def sha (flip a)) (\<lambda>_. real_live up t True a)"
    "world.sat up t (real_live up t True a) (cutover_prog (real_deps K) def sha a (flip a)) (\<lambda>_ _. True)"
    "world.sat up t (real_live up t True a) (call (dd_read_active (real_deps K) t))
      (\<lambda>c w. real_live up t True a w \<and> c = a)"
proof -
  note host = real_deps_host [OF assms(1,2)]
    and env = real_untouched [OF assms(1,2)]
  note deploy = deploy_host.deploy_prog_sat [OF host assms(3), of a sha, unfolded env]
    and cut = deploy_host.cutover_prog_sat [OF host assms(3), of a sha, unfolded env]
  show "world.sat up t (real_live up t True a) (deploy_prog (real_deps K) def sha) (\<lambda>_. job_done t (DeployJob sha))"
    by (rule world.sat_weaken [OF deploy])
      (auto simp: job_done_def deploy_host.finished_def [OF host] deploy_host.kept_def [OF host])
  show "world.sat up t (real_live up t True a) (cutover_prog (real_deps K) def sha a (flip a)) (\<lambda>_ _. True)"
    by (rule world.sat_weaken [OF cut]) simp_all
  show "world.sat up t (real_live up t True a) (stage_prog (real_deps K) def sha) (\<lambda>_. real_live up t True a)"
    by (rule deploy_host.stage_prog_sat [OF host assms(3), unfolded env])
  show "world.sat up t (real_live up t True a) (cancel_prog (real_deps K) def) (\<lambda>_. real_live up t True a)"
    by (rule deploy_host.cancel_prog_sat [OF host assms(3), unfolded env])
  show "world.sat up t (real_live up t True a) (start_prog (real_deps K) def sha (flip a)) (\<lambda>_. real_live up t True a)"
    by (rule deploy_host.start_prog_sat [OF host assms(3), unfolded env])
  show "world.sat up t (real_live up t True a) (call (dd_read_active (real_deps K) t))
      (\<lambda>c w. real_live up t True a w \<and> c = a)"
    by (rule deploy_host.read_sat [OF host, unfolded env])
qed

lemma stable_live:
  assumes "docker_laws K up" and "service_ok t"
  shows "world.stable up t (real_live up t True a)"
  using real_live_serving [OF assms, of True]
  by (auto simp: world.stable_def real_live_def [OF assms] service_untouched_def)

lemma live_ends:
  assumes "docker_laws K up" and "service_ok t"
  shows "world.sat up t (real_live up t True a) (ends r) (\<lambda>_. real_live up t True a)"
  by (rule world.sat_ends [where Q = "\<lambda>_. real_live up t True a"]) (rule stable_live [OF assms])

lemma still_sat:
  assumes "docker_laws K up" and "service_ok t" and "still up t m"
  shows "world.sat up t (real_live up t True a) (call m) (\<lambda>_. real_live up t True a)"
  by (rule world.sat_keeps [OF real_still_live [OF assms] stable_live [OF assms(1,2)]])

lemma plan_sat:
  assumes "docker_laws K up" and "service_ok t" and "sd_service def = t"
  shows "world.sat up t (real_live up t True a) (plan_prog K def service a plan) (\<lambda>_ _. True)"
proof -
  note parts = real_sat [OF assms, of a] and live = stable_live [OF assms(1,2)]
  have runs: "world.sat up t (real_live up t True a) (call (container_runs_image K def c sha)) (\<lambda>_. real_live up t True a)"
    for c sha
    by (rule still_sat [OF assms(1) assms(2) still_runs_image [OF assms(1)]])
  have ends: "world.sat up t (real_live up t True a) (ends ()) (\<lambda>_. real_live up t True a)"
    by (rule live_ends [OF assms(1,2)])
  have none: "world.sat up t (real_live up t True a) (ends ()) (\<lambda>_ _. True)"
    by (rule world.sat_weaken [OF ends]) simp_all
  show ?thesis
  proof (cases plan)
    case (Promote sha staged)
    have up_first: "world.sat up t (real_live up t True a)
        (afterwards (if \<not> b then start_prog (real_deps K) def sha (flip a) else ends ())
          (cutover_prog (real_deps K) def sha a (flip a))) (\<lambda>_ _. True)" for b
      by (rule world.sat_seq [OF _ parts(5)]) (rule world.sat_if parts(4) ends)+
    show ?thesis
      unfolding plan_prog_def Promote Let_def cutover_plan.case
      by (rule world.sat_if parts(5) world.sat_seq [OF runs up_first])+
  qed (simp_all add: plan_prog_def none world.sat_fails live)
qed

lemma switch_sat:
  assumes "docker_laws K up" and "service_ok t" and "sd_service def = t"
  shows "world.sat up t (real_live up t True a) (switch_prog K service sha_opt preview def) (\<lambda>_ _. True)"
proof -
  note still = still_sat [OF assms(1) assms(2)]
  have pre: "world.sat up t (real_live up t True a)
      (case preview of Some p \<Rightarrow> call (container_runs_image K def c p) | None \<Rightarrow> ends False)
      (\<lambda>_. real_live up t True a)" for c
    using still [OF still_runs_image [OF assms(1)]] live_ends [OF assms(1,2)]
    by (cases preview) simp_all
  show ?thesis
    unfolding switch_prog_def assms(3)
    by (rule world.sat_seq [OF real_sat(6) [OF assms]], rule world.sat_given, simp only:,
        rule world.sat_seq [OF pre], rule world.sat_seq [OF still [OF still_list_local [OF assms(1)]]],
        rule world.sat_seq [OF still [OF still_image_tag [OF assms(1)]]],
        rule plan_sat [OF assms])
qed

lemma job_sat:
  assumes "docker_laws K up" and "probe_laws K up" and "service_ok (sd_service def)"
    and "real_serving up (sd_service def) w"
  shows "rely (service_untouched up (sd_service def)) (real_serving up (sd_service def))
    (\<lambda>_. job_done (sd_service def) j) (job_prog K (sd_service def) def j) w"
proof -
  let ?t = "sd_service def" and ?a = "color_of (sd_service def) (w_fs w)"
  note parts = real_sat [OF assms(1,3) refl, of ?a]
  have live: "real_live up ?t True ?a w"
    using assms(4) by (simp add: real_live_def [OF assms(1,3)] real_serving_def)
  have "world.sat up ?t (real_live up ?t True ?a) (job_prog K (sd_service def) def j) (\<lambda>_. job_done ?t j)"
  proof (cases j)
    case (DeployJob sha)
    with parts(1) show ?thesis by simp
  next
    case (StageJob sha)
    have "world.sat up ?t (real_live up ?t True ?a) (ends ()) (\<lambda>_. real_live up ?t True ?a)"
      by (rule live_ends [OF assms(1,3)])
    then have "world.sat up ?t (real_live up ?t True ?a) (job_prog K (sd_service def) def j) (\<lambda>_. real_live up ?t True ?a)"
      unfolding StageJob job_prog.simps by (rule world.sat_seq [OF parts(2)])
    then show ?thesis by (rule world.sat_weaken) (simp_all add: StageJob job_done_def)
  next
    case (SwitchJob sha_opt preview)
    show ?thesis
      unfolding SwitchJob job_prog.simps
      by (rule world.sat_weaken [OF switch_sat [OF assms(1,3) refl]]) (simp_all add: job_done_def)
  next
    case CancelJob
    show ?thesis
      unfolding CancelJob job_prog.simps
      by (rule world.sat_weaken [OF parts(3)]) (simp_all add: job_done_def)
  next
    case RollbackJob
    have "before_switch up ?t True ?a u" if "real_live up ?t True ?a u" for u
      using that by (simp add: real_live_def [OF assms(1,3)] before_switch_def)
    then show ?thesis
      unfolding RollbackJob job_prog.simps
      by (intro world.sat_weaken [OF rollback_sat [OF assms(1-3) refl]]) (simp_all add: job_done_def)
  qed
  with live show ?thesis by (simp add: world.sat_def)
qed

section \<open>The other services\<close>

lemma parts_spared:
  assumes "docker_laws K up" and "service_ok t" and "service_ok s" and "t \<noteq> s" and "sd_service def = s"
  shows "steps_in (frame_step up t) (start_prog (real_deps K) def sha c)"
    "steps_in (frame_step up t) (cutover_prog (real_deps K) def sha a b)"
  unfolding start_prog_def cutover_prog_def real_ops assms(5) Let_def
  by (intro guar spared_steps real_ops_spared [OF assms(1-4)] containers_spared [OF assms(1,5,4)]
      spared_writes assms(2-4))+

lemma switch_spared:
  assumes "docker_laws K up" and "service_ok t" and "service_ok s" and "t \<noteq> s" and "sd_service def = s"
  shows "steps_in (frame_step up t) (switch_prog K service sha_opt preview def)"
proof -
  note still = spared_steps [OF spared_still]
  have plan: "steps_in (frame_step up t) (plan_prog K def service a plan)" for a plan
    unfolding plan_prog_def Let_def
    by (cases plan) (auto intro!: guar still [OF still_runs_image [OF assms(1)]] parts_spared [OF assms])
  have pre: "steps_in (frame_step up t)
      (case preview of Some p \<Rightarrow> call (container_runs_image K def c p) | None \<Rightarrow> ends False)" for c
    by (cases preview) (simp_all add: guar still [OF still_runs_image [OF assms(1)]])
  show ?thesis
    unfolding switch_prog_def real_ops assms(5)
    by (intro guar spared_steps spared pre plan spared_still [OF still_list_local [OF assms(1)]]
        spared_still [OF still_image_tag [OF assms(1)]])
qed

lemma job_spared:
  assumes "docker_laws K up" and "service_ok t" and "service_ok s" and "t \<noteq> s" and "sd_service def = s"
  shows "steps_in (frame_step up t) (job_prog K s def j)"
proof (cases j)
  case (DeployJob sha)
  show ?thesis
    unfolding DeployJob job_prog.simps deploy_prog_def real_ops assms(5) Let_def
    by (intro guar spared_steps spared real_ops_spared [OF assms(1-4)] parts_spared [OF assms, unfolded real_ops]
        parts_spared [OF assms])
next
  case (StageJob sha)
  show ?thesis
    unfolding StageJob job_prog.simps stage_prog_def real_ops assms(5)
    by (intro guar spared_steps spared real_ops_spared [OF assms(1-4)] parts_spared [OF assms])
next
  case (SwitchJob sha_opt preview)
  show ?thesis
    unfolding SwitchJob job_prog.simps by (rule switch_spared [OF assms])
next
  case CancelJob
  show ?thesis
    unfolding CancelJob job_prog.simps cancel_prog_def real_ops assms(5) Let_def
    by (intro guar spared_steps spared real_ops_spared [OF assms(1-4)])
next
  case RollbackJob
  have "steps_in (frame_step up t) (rollback_prog K s def)" by (rule rollback_spared(2) [OF assms(1-4)])
  with RollbackJob show ?thesis by simp
qed

section \<open>The invariant\<close>

text \<open>
  Every job holds the lock of its service, so no two jobs work on the same one; the jobs of the other
  services spare this one, and its own job keeps it running from wherever it has got to.
\<close>

definition on_course :: "('e \<Rightarrow> string \<Rightarrow> bool) \<Rightarrow> string \<Rightarrow> 'e world \<Rightarrow> 'e running \<Rightarrow> bool" where
  "on_course up t w r \<longleftrightarrow>
     (case r of (s, j, p) \<Rightarrow>
        if s = t then rely (service_untouched up t) (real_serving up t) (\<lambda>_. job_done t j) p w
        else steps_in (frame_step up t) p)"

definition fleet_inv :: "('e \<Rightarrow> string \<Rightarrow> bool) \<Rightarrow> string \<Rightarrow> 'e host \<Rightarrow> 'e running list \<Rightarrow> bool" where
  "fleet_inv up t h jobs \<longleftrightarrow>
     distinct (map fst jobs) \<and> (\<forall>r \<in> set jobs. deploy_lock_path (fst r) \<in> set (ho_held h)) \<and>
     real_serving up t (ho_world h) \<and> (\<forall>r \<in> set jobs. on_course up t (ho_world h) r)"

lemma on_course_frame: "frame_step up t w v \<Longrightarrow> on_course up t w r \<Longrightarrow> on_course up t v r"
  using world.rely_env [OF _ frame_untouched] by (auto simp: on_course_def split: prod.splits if_splits)

lemma frame_serving: "frame_step up t w v \<Longrightarrow> real_serving up t w \<Longrightarrow> real_serving up t v"
  using frame_untouched [of up t w v] by (simp add: service_untouched_def real_serving_def)

lemma inv_frame:
  assumes "fleet_inv up t h jobs" and "frame_step up t (ho_world h) (ho_world g)"
    and "set (ho_held h) \<subseteq> set (ho_held g)"
  shows "fleet_inv up t g jobs"
  using assms on_course_frame [OF assms(2)] frame_serving [OF assms(2)] unfolding fleet_inv_def by blast

lemma same_host_frame: "same_host h g \<Longrightarrow> service_ok t \<Longrightarrow> frame_step up t (ho_world h) (ho_world g)"
  by (simp add: same_host_def frame_step_def)

lemma inv_enter:
  assumes "docker_laws K up" and "probe_laws K up" and "service_ok t" and "fleet_inv up t h jobs"
    and "acquire s h = (Inr path, g)" and "sd_service def = s"
  shows "fleet_inv up t g ((s, j, job_prog K s def j) # jobs)"
  using assms(5)
proof (cases rule: acquire_cases)
  case taken
  have held: "ho_held g = deploy_lock_path s # ho_held h" "deploy_lock_path s \<notin> set (ho_held h)"
    using taken by simp_all
  have inv: "fleet_inv up t g jobs"
    by (rule inv_frame [OF assms(4) same_host_frame [OF taken(3) assms(3)]]) (use held in auto)
  have fresh: "s \<notin> set (map fst jobs)"
    using assms(4) held(2) by (auto simp: fleet_inv_def)
  have "on_course up t (ho_world g) (s, j, job_prog K s def j)"
  proof (cases "s = t")
    case True
    have "real_serving up t (ho_world g)" using inv by (simp add: fleet_inv_def)
    with job_sat [OF assms(1,2), where j = j and w = "ho_world g" and ?def = "def"] True assms(3,6)
    show ?thesis by (simp add: on_course_def)
  next
    case False
    have "service_ok s" by (rule lock_name_service [OF taken(2)])
    with False job_spared [OF assms(1,3) _ _ assms(6)] show ?thesis by (simp add: on_course_def)
  qed
  with inv fresh held show ?thesis by (auto simp: fleet_inv_def)
qed simp

lemma course_advance:
  assumes "on_course up t w (s, j, Next f)" and "f w = (p, v)" and "real_serving up t w"
  shows "on_course up t v (s, j, p)" "real_serving up t v"
    "fst r \<noteq> s \<Longrightarrow> on_course up t w r \<Longrightarrow> on_course up t v r"
proof -
  have "on_course up t v (s, j, p) \<and> real_serving up t v \<and> (fst r \<noteq> s \<longrightarrow> on_course up t w r \<longrightarrow> on_course up t v r)"
  proof (cases "s = t")
    case True
    have "rely (service_untouched up t) (real_serving up t) (\<lambda>_. job_done t j) (Next f) w"
      using assms(1) True by (simp add: on_course_def)
    from world.rely_step [OF this assms(2)]
    have "rely (service_untouched up t) (real_serving up t) (\<lambda>_. job_done t j) p v" .
    from this world.rely_now [OF this] True show ?thesis by (auto simp: on_course_def)
  next
    case False
    then have "steps_in (frame_step up t) (Next f)" using assms(1) by (simp add: on_course_def)
    from steps_in_step [OF this assms(2)] have step: "frame_step up t w v" "steps_in (frame_step up t) p" by simp_all
    from frame_serving [OF step(1) assms(3)] on_course_frame [OF step(1)] step(2) False
    show ?thesis by (simp add: on_course_def [of up t v "(s, j, p)"])
  qed
  then show "on_course up t v (s, j, p)" "real_serving up t v"
    "fst r \<noteq> s \<Longrightarrow> on_course up t w r \<Longrightarrow> on_course up t v r" by blast+
qed

lemma update_others:
  assumes "distinct (map fst xs)" and "i < length xs" and "fst (xs ! i) = s" and "r \<in> set (xs[i := y])" and "r \<noteq> y"
  shows "r \<in> set xs \<and> fst r \<noteq> s"
proof -
  obtain k where k: "k < length xs" "xs[i := y] ! k = r" using assms(4) by (auto simp: in_set_conv_nth)
  with assms(2,5) have "k \<noteq> i" by auto
  with k(2) have r: "xs ! k = r" by simp
  have "fst (xs ! k) \<noteq> fst (xs ! i)"
    using nth_eq_iff_index_eq [OF assms(1), of k i] k(1) assms(2) \<open>k \<noteq> i\<close> by simp
  with r assms(3) k(1) show ?thesis by auto
qed

lemma inv_advance:
  assumes "fleet_inv up t h jobs" and "i < length jobs" and "jobs ! i = (s, j, Next f)"
    and "f (ho_world h) = (p, w)"
  shows "fleet_inv up t (h\<lparr>ho_world := w\<rparr>) (jobs[i := (s, j, p)])"
proof -
  have r: "(s, j, Next f) \<in> set jobs" using assms(2,3) by (metis nth_mem)
  have inv: "distinct (map fst jobs)" "on_course up t (ho_world h) (s, j, Next f)" "real_serving up t (ho_world h)"
    using assms(1) r by (auto simp: fleet_inv_def)
  note new = course_advance [OF inv(2) assms(4) inv(3)]
    and old = update_others [OF inv(1) assms(2), of s _ "(s, j, p)", unfolded assms(3), OF fst_conv]
  have names: "map fst (jobs[i := (s, j, p)]) = map fst jobs"
    using assms(2,3) by (simp add: map_update list_update_same_conv)
  have "on_course up t w q \<and> deploy_lock_path (fst q) \<in> set (ho_held h)" if "q \<in> set (jobs[i := (s, j, p)])" for q
  proof (cases "q = (s, j, p)")
    case True
    with new(1) r assms(1) show ?thesis by (auto simp: fleet_inv_def)
  next
    case False
    with old [OF that] new(3) [of q] assms(1) show ?thesis by (simp add: fleet_inv_def)
  qed
  with inv(1) new(2) show ?thesis unfolding fleet_inv_def names by simp
qed

lemma fleet_runs:
  assumes "fleet K up h0 h jobs" and "docker_laws K up" and "probe_laws K up" and "service_ok t" and "real_serving up t (ho_world h0)"
  shows "fleet_inv up t h jobs"
  using assms(1)
proof induction
  case boot
  with assms(5) show ?case by (simp add: fleet_inv_def)
next
  case (enter h jobs s path g "def" j)
  show ?case by (rule inv_enter [OF assms(2,3,4) enter.IH enter.hyps(2,4)])
next
  case (refused h jobs s e g)
  then show ?case
  proof (cases rule: acquire_cases [OF refused.hyps(2)])
    case (2 e)
    with inv_frame [OF refused.IH same_host_frame [OF 2(2) assms(4)]] show ?thesis by simp
  qed simp
next
  case (advance h jobs i s j f p w)
  show ?case by (rule inv_advance [OF advance.IH advance.hyps(2-4)])
next
  case (leave h before s j p after)
  have "r \<in> set (before @ after) \<Longrightarrow> deploy_lock_path (fst r) \<in> set (remove1 (deploy_lock_path s) (ho_held h))" for r
  proof -
    assume r: "r \<in> set (before @ after)"
    with leave.IH have "fst r \<noteq> s" "deploy_lock_path (fst r) \<in> set (ho_held h)" by (auto simp: fleet_inv_def)
    then show ?thesis by simp
  qed
  with leave.IH show ?case by (auto simp: fleet_inv_def)
next
  case (other h jobs w)
  show ?case by (rule inv_frame [OF other.IH]) (use other.hyps(2) [OF assms(4)] in simp_all)
qed

text \<open>One schedule: which job makes the next call.\<close>

fun play :: "nat list \<Rightarrow> 'e host \<Rightarrow> 'e running list \<Rightarrow> 'e host \<times> 'e running list" where
  "play [] h jobs = (h, jobs)"
| "play (i # order) h jobs =
     (if i < length jobs
      then case jobs ! i of
             (s, j, Next f) \<Rightarrow> (case f (ho_world h) of
                (p, w) \<Rightarrow> play order (h\<lparr>ho_world := w\<rparr>) (jobs[i := (s, j, p)]))
           | (s, j, Ended r) \<Rightarrow> play order h jobs
      else play order h jobs)"

lemma play_fleet: "fleet K up h0 h jobs \<Longrightarrow> play order h jobs = (g, js) \<Longrightarrow> fleet K up h0 g js"
proof (induction order h jobs rule: play.induct)
  case (2 i order h jobs)
  show ?case
  proof (cases "i < length jobs")
    case True
    obtain s j q where q: "jobs ! i = (s, j, q)" by (cases "jobs ! i") auto
    show ?thesis
    proof (cases q)
      case (Next f)
      obtain p w where f: "f (ho_world h) = (p, w)" by force
      have "fleet K up h0 (h\<lparr>ho_world := w\<rparr>) (jobs[i := (s, j, p)])"
        by (rule fleet.advance [where f = f, OF "2.prems"(1) True]) (simp_all add: q Next f)
      with 2 True q Next f show ?thesis by simp
    qed (use 2 True q in simp)
  qed (use 2 in simp)
qed simp

lemma play_append: "play (xs @ ys) h jobs = (case play xs h jobs of (g, js) \<Rightarrow> play ys g js)"
  by (induction xs h jobs rule: play.induct) (auto split: prog.split prod.split)

lemma play_join: "play xs h jobs = (g, js) \<Longrightarrow> play ys g js = r \<Longrightarrow> play (xs @ ys) h jobs = r"
  by (simp add: play_append)

lemma play_call:
  assumes "i < length jobs" and "jobs ! i = (s, j, seq (call m) k)" and "fst (m (ho_world h)) = Inr a"
  shows "play (i # order) h jobs =
    play order (h\<lparr>ho_world := snd (m (ho_world h))\<rparr>) (jobs[i := (s, j, k a)])"
proof (cases "m (ho_world h)")
  case (Pair r w)
  with assms show ?thesis by (simp add: call_def)
qed

text \<open>A job that nobody interrupts ends, and as its function does.\<close>

lemma play_alone:
  assumes "i < length jobs" and "jobs ! i = (s, j, p)" and "run_prog p (ho_world h) = (r, w)"
  shows "\<exists>n. play (replicate n i) h jobs = (h\<lparr>ho_world := w\<rparr>, jobs[i := (s, j, Ended r)])"
  using assms
proof (induction p arbitrary: h jobs)
  case (Ended x)
  then have "x = r" "w = ho_world h" "jobs[i := (s, j, Ended r)] = jobs" by (auto simp: list_update_same_conv)
  then show ?case by (intro exI [of _ 0]) simp
next
  case (Next f)
  obtain q v where f: "f (ho_world h) = (q, v)" by force
  have q: "q \<in> Basic_BNFs.fsts (f (ho_world h))" using Basic_BNFs.fsts.intros [of "f (ho_world h)"] by (simp add: f)
  have run: "run_prog q v = (r, w)" using Next.prems(3) f by simp
  from Next.IH [OF rangeI q, of "jobs[i := (s, j, q)]" "h\<lparr>ho_world := v\<rparr>"] Next.prems(1) run
  obtain n where "play (replicate n i) (h\<lparr>ho_world := v\<rparr>) (jobs[i := (s, j, q)]) =
      (h\<lparr>ho_world := w\<rparr>, jobs[i := (s, j, Ended r)])" by auto
  with Next.prems(1,2) f show ?case by (intro exI [of _ "Suc n"]) simp
qed

section \<open>Correctness\<close>

text \<open>
  C1: No interleaving of locked operations interrupts a service. Deploys, previews, cutovers,
  cancellations and rollbacks from the console, of any services, run at the same time, each call of one in between any calls of the
  others, locks are refused, processes are killed at any point: a service whose recorded color runs
  at the start has its recorded color running in every state in between, and a deploy that has ended
  successfully has its tag recorded.
\<close>

theorem interleaved_no_outage:
  assumes "docker_laws K up" and "probe_laws K up" and "fleet K up h0 h jobs" and "service_ok t"
    and "real_serving up t (ho_world h0)"
  shows "real_serving up t (ho_world h) \<and>
    ((t, DeployJob sha, Ended (Inr ())) \<in> set jobs \<longrightarrow> clean_sha sha \<longrightarrow>
       read_active_sha t (w_fs (ho_world h)) = Some sha)"
proof -
  have inv: "fleet_inv up t h jobs" by (rule fleet_runs [OF assms(3,1,2,4,5)])
  have "read_active_sha t (w_fs (ho_world h)) = Some sha"
    if r: "(t, DeployJob sha, Ended (Inr ())) \<in> set jobs" and c: "clean_sha sha"
  proof -
    from inv r have "on_course up t (ho_world h) (t, DeployJob sha, Ended (Inr ()))" by (auto simp: fleet_inv_def)
    then have "job_done t (DeployJob sha) (ho_world h)"
      by (intro world.rely_result [where Q = "\<lambda>_. job_done t (DeployJob sha)" and a = "()"]) (simp add: on_course_def)
    with c show ?thesis by (simp add: job_done_def)
  qed
  with inv show ?thesis by (simp add: fleet_inv_def)
qed

definition en_fleet :: "engine host" where
  "en_fleet = \<lparr>ho_world = en_world, ho_held = [], ho_nolock = False\<rparr>"

lemma interleaved_no_outage_witness:
  "\<exists>h jobs. fleet en_platform en_up en_fleet h jobs \<and> (''paseo'', DeployJob ''new'', Ended (Inr ())) \<in> set jobs \<and>
     real_serving en_up ''paseo'' (ho_world h) \<and> read_active_sha ''paseo'' (w_fs (ho_world h)) = Some ''new''"
proof -
  let ?job = "\<lambda>p. (''paseo'', DeployJob ''new'', p)" and ?g = "snd (acquire ''paseo'' en_fleet)"
  have a: "acquire ''paseo'' en_fleet = (Inr (deploy_lock_path ''paseo''), ?g)"
    by (rule prod_eqI) (code_simp, simp)
  have "load_def (pf_yaml_service en_platform) (w_fs (ho_world ?g)) ''paseo'' = Inr paseo_def" by code_simp
  from fleet.enter [OF fleet.boot a this paseo_ok(2), of en_up "DeployJob ''new''"]
  have start: "fleet en_platform en_up en_fleet ?g [?job (deploy_prog (real_deps en_platform) paseo_def ''new'')]"
    by simp
  obtain w where run: "deploy_service (real_deps en_platform) paseo_def ''new'' (ho_world ?g) = (Inr (), w)"
  proof -
    have "fst (deploy_service (real_deps en_platform) paseo_def ''new'' (ho_world ?g)) = Inr ()" by code_simp
    then show ?thesis by (intro that) (rule prod_eqI, simp_all)
  qed
  obtain n where "play (replicate n 0) ?g [?job (deploy_prog (real_deps en_platform) paseo_def ''new'')] =
      (?g\<lparr>ho_world := w\<rparr>, [?job (Ended (Inr ()))])"
    using play_alone [of 0 "[?job (deploy_prog (real_deps en_platform) paseo_def ''new'')]" "''paseo''" _ _ ?g] run
    by (auto simp: run_deploy)
  from play_fleet [OF start this] have f: "fleet en_platform en_up en_fleet (?g\<lparr>ho_world := w\<rparr>) [?job (Ended (Inr ()))]" .
  have s: "real_serving en_up ''paseo'' (ho_world en_fleet)" "clean_sha ''new''" by code_simp+
  from interleaved_no_outage [OF en_docker_laws en_probe_laws f _ s(1), of "''new''"] s(2) paseo_ok
  have "real_serving en_up ''paseo'' w \<and> read_active_sha ''paseo'' (w_fs w) = Some ''new''" by simp
  with f show ?thesis by (intro exI [of _ "?g\<lparr>ho_world := w\<rparr>"] exI [of _ "[?job (Ended (Inr ()))]"]) simp
qed

section \<open>Without the lock\<close>

text \<open>Two deploys of one service at once, as the rollback tool allows: it takes no lock.\<close>

definition two_deploys :: "engine running list" where
  "two_deploys =
     [(''paseo'', DeployJob ''new'', deploy_prog (real_deps en_platform) paseo_def ''new''),
      (''paseo'', DeployJob ''old'', deploy_prog (real_deps en_platform) paseo_def ''old'')]"

lemma play_second:
  "fst (m w) = Inr a \<Longrightarrow> play (Suc 0 # order) (h\<lparr>ho_world := w\<rparr>) [x, (s, j, seq (call m) k)] =
     play order (h\<lparr>ho_world := snd (m w)\<rparr>) [x, (s, j, k a)]"
  using play_call [of 1 "[x, (s, j, seq (call m) k)]" s j m k "h\<lparr>ho_world := w\<rparr>" a order] by simp

lemma play_second_read:
  "play (Suc 0 # order) (h\<lparr>ho_world := w\<rparr>) [x, (s, j, seq (call (io_read g)) k)] =
     play order (h\<lparr>ho_world := w\<rparr>) [x, (s, j, k (g w))]"
  using play_second [of "io_read g" w "g w" order h x s j k] by (simp add: io_read_def)

text \<open>The world once the second deploy has validated its configuration, its next call the removal.\<close>

definition race_world :: "engine world" where
  "race_world =
     snd (check_deploy en_platform paseo_def ''old'' Green
       (snd (read_fs (read_active ''paseo'')
         (snd (ensure_network en_platform (sd_network paseo_def) (snd (preflight_run en_platform en_world)))))))"

abbreviation remove_green :: "(engine world, unit) io" where
  "remove_green \<equiv> remove_container_if_exists en_platform (container_name ''paseo'' Green)"

abbreviation race :: "(engine world, unit) prog \<Rightarrow> (unit \<Rightarrow> (engine world, unit) prog) \<Rightarrow> engine running list" where
  "race p rest \<equiv> [(''paseo'', DeployJob ''new'', p), (''paseo'', DeployJob ''old'', seq (call remove_green) rest)]"

lemma race_begins:
  "\<exists>rest. play [1, 1, 1, 1, 1] en_fleet two_deploys =
     (en_fleet\<lparr>ho_world := race_world\<rparr>, race (deploy_prog (real_deps en_platform) paseo_def ''new'') rest)"
proof -
  let ?w1 = "snd (preflight_run en_platform en_world)"
  let ?w2 = "snd (ensure_network en_platform (sd_network paseo_def) ?w1)"
  let ?w3 = "snd (read_fs (read_active ''paseo'') ?w2)"
  have calls: "fst (preflight_run en_platform en_world) = Inr ()"
    "fst (ensure_network en_platform (sd_network paseo_def) ?w1) = Inr ()"
    "fst (read_fs (read_active ''paseo'') ?w2) = Inr Blue" "read_active_sha ''paseo'' (w_fs ?w3) = None"
    "fst (check_deploy en_platform paseo_def ''old'' Green ?w3) = Inr ()"
    by code_simp+
  have "\<exists>rest. play [1, 1, 1, 1, 1] (en_fleet\<lparr>ho_world := en_world\<rparr>) two_deploys =
     (en_fleet\<lparr>ho_world := race_world\<rparr>, race (deploy_prog (real_deps en_platform) paseo_def ''new'') rest)"
    unfolding two_deploys_def deploy_prog_def [of "real_deps en_platform" paseo_def "''old''"] real_ops Let_def
      paseo_ok(2) race_world_def
    by (simp add: play_second [where m = "preflight_run en_platform", OF calls(1)]
        play_second [where m = "ensure_network en_platform (sd_network paseo_def)", OF calls(2)]
        play_second [where m = "read_fs (read_active ''paseo'')", OF calls(3)] play_second_read
        play_second [where m = "check_deploy en_platform paseo_def ''old'' Green", OF calls(5)]
        calls(4) start_prog_def seq_assoc real_ops paseo_ok(2) flip_def del: play.simps(2)) blast
  moreover have "en_fleet\<lparr>ho_world := en_world\<rparr> = en_fleet" by (simp add: en_fleet_def)
  ultimately show ?thesis by simp
qed

text \<open>
  C5: The lock is needed. On the sample host, where the recorded color runs, two deploys of one service
  that overlap without it, as the rollback tool and a deploy can, end in an outage: both find the same
  inactive color, one finishes and reports success, the other removes the container that is now the
  recorded one, and neither color of the service runs.
\<close>

theorem unlocked_deploys_interrupt:
  "\<exists>order h jobs. play order en_fleet two_deploys = (h, jobs) \<and>
     real_serving en_up ''paseo'' (ho_world en_fleet) \<and>
     (''paseo'', DeployJob ''new'', Ended (Inr ())) \<in> set jobs \<and>
     (\<forall>c. \<not> en_up (w_ext (ho_world h)) (container_name ''paseo'' c))"
proof -
  let ?new = "deploy_prog (real_deps en_platform) paseo_def ''new''" and ?h = "\<lambda>w. en_fleet\<lparr>ho_world := w\<rparr>"
  let ?v = "snd (deploy_service (real_deps en_platform) paseo_def ''new'' race_world)"
  let ?u = "snd (remove_green ?v)"
  obtain rest where start: "play [1, 1, 1, 1, 1] en_fleet two_deploys = (?h race_world, race ?new rest)"
    using race_begins ..
  have ok: "fst (deploy_service (real_deps en_platform) paseo_def ''new'' race_world) = Inr ()"
    "fst (remove_green ?v) = Inr ()" by code_simp+
  have "run_prog ?new race_world = (Inr (), ?v)" using ok(1) by (simp add: run_deploy prod_eq_iff)
  then obtain n where alone: "play (replicate n 0) (?h race_world) (race ?new rest) = (?h ?v, race (Ended (Inr ())) rest)"
    using play_alone [of 0 "race ?new rest" "''paseo''" "DeployJob ''new''" ?new "?h race_world"] by auto
  let ?jobs = "[(''paseo'', DeployJob ''new'', Ended (Inr ())), (''paseo'', DeployJob ''old'', rest ())]"
  have last: "play [1] (?h ?v) (race (Ended (Inr ())) rest) = (?h ?u, ?jobs)"
    by (simp add: play_second [where m = remove_green, OF ok(2)] del: play.simps(2))
  have "play ([1, 1, 1, 1, 1] @ replicate n 0 @ [1]) en_fleet two_deploys = (?h ?u, ?jobs)"
    by (rule play_join [OF start play_join [OF alone last]])
  moreover have "\<not> en_up (w_ext ?u) (container_name ''paseo'' Blue)" "\<not> en_up (w_ext ?u) (container_name ''paseo'' Green)"
    by code_simp+
  then have "\<not> en_up (w_ext ?u) (container_name ''paseo'' c)" for c by (cases c) simp_all
  moreover have "real_serving en_up ''paseo'' (ho_world en_fleet)" by code_simp
  ultimately show ?thesis
    by (intro exI [of _ "[1, 1, 1, 1, 1] @ replicate n 0 @ [1]"] exI [of _ "?h ?u"] exI [of _ ?jobs])
      (simp del: play.simps(2))
qed

end
