(* ===== verification/Proxies.thy ===== *)
theory Proxies
  imports Deploy_Real
begin

text \<open>
  \<^verbatim>\<open>tcp_proxy.rs\<close> and \<^verbatim>\<open>udp_proxy.rs\<close>: the listeners on fixed host ports that follow the active color.
  The TCP proxy looks the color up for each connection. The UDP relay keeps a table of clients, each
  with its own outbound socket and a task that forwards replies, and a cached container address; its
  run is a step relation over datagrams, sweeps, replies and the ends of forwarders. Times are in
  milliseconds, sockets are numbers handed out by the operating system.
\<close>

section \<open>Targets\<close>

record proxy_target =
  px_service :: string
  px_fixed_port :: u16
  px_container_port :: u16
  px_scheme :: port_scheme
  px_bind :: port_bind

definition collect_proxy_targets :: "service_def list \<Rightarrow> proxy_target list" where
  "collect_proxy_targets defs =
     [\<lparr>px_service = sd_service def, px_fixed_port = fixed, px_container_port = np_container_port p,
       px_scheme = sd_port_scheme def, px_bind = np_bind p\<rparr>.
        def \<leftarrow> defs, p \<leftarrow> sd_ports def, np_protocol p \<noteq> ProtoUdp,
        fixed \<leftarrow> (case np_fixed_port p of Some x \<Rightarrow> [x] | None \<Rightarrow> [])]"

record udp_target =
  ut_service :: string
  ut_network :: string
  ut_fixed_port :: u16
  ut_container_port :: u16
  ut_bind :: port_bind

definition collect_udp_targets :: "service_def list \<Rightarrow> udp_target list" where
  "collect_udp_targets defs =
     [\<lparr>ut_service = sd_service def, ut_network = sd_network def, ut_fixed_port = fixed,
       ut_container_port = np_container_port p, ut_bind = np_bind p\<rparr>.
        def \<leftarrow> defs, p \<leftarrow> sd_ports def, np_protocol p = ProtoUdp,
        fixed \<leftarrow> (case np_fixed_port p of Some x \<Rightarrow> [x] | None \<Rightarrow> [])]"

section \<open>The TCP proxy\<close>

text \<open>The address a listener binds, and the address one of its connections is forwarded to.\<close>

definition listener_address :: "port_bind \<Rightarrow> u16 \<Rightarrow> fs \<Rightarrow> (string \<times> u16) res" where
  "listener_address bind fixed_port f =
     (if fixed_port = 0 then Inl (ToolError ''fixed_port 0 is invalid'')
      else map_sum id (\<lambda>ip. (ip, fixed_port)) (resolve_bind bind f))"

definition run_listener :: "proxy_target \<Rightarrow> fs \<Rightarrow> (string \<times> u16) res" where
  "run_listener t = listener_address (px_bind t) (px_fixed_port t)"

definition connection_target :: "proxy_target \<Rightarrow> string \<Rightarrow> fs \<Rightarrow> (string \<times> u16) res" where
  "connection_target t bind_ip f =
     (case read_active (px_service t) f of
        Inl e \<Rightarrow> Inl e
      | Inr c \<Rightarrow> Inr (bind_ip, host_port (px_scheme t) c (px_container_port t)))"

text \<open>\<open>connect\<close> says which addresses accept a connection; the copying of the bytes is not modelled.\<close>

definition proxy_connection ::
  "(string \<times> u16 \<Rightarrow> bool) \<Rightarrow> proxy_target \<Rightarrow> string \<Rightarrow> fs \<Rightarrow> unit res" where
  "proxy_connection connect t bind_ip f =
     (case connection_target t bind_ip f of
        Inl e \<Rightarrow> Inl e
      | Inr addr \<Rightarrow> if connect addr then Inr () else Inl (IoError (fst addr)))"

section \<open>The UDP relay\<close>

definition CLIENT_IDLE_MS :: nat where "CLIENT_IDLE_MS = 300000"
definition FORWARDER_IDLE_MS :: nat where "FORWARDER_IDLE_MS = 300000"
definition RESOLVE_TTL_MS :: nat where "RESOLVE_TTL_MS = 2000"
definition MAX_CLIENTS :: nat where "MAX_CLIENTS = 16"
definition LOG_INTERVAL_MS :: nat where "LOG_INTERVAL_MS = 5000"

record client_entry =
  ce_outbound :: nat
  ce_last_seen :: nat

record 'a resolved =
  rs_addr :: 'a
  rs_at :: nat

type_synonym client_table = "(string \<times> client_entry) list"

text \<open>\<open>bound\<close> is the socket the operating system gives a new client, if it has one.\<close>

definition outbound_for ::
  "nat option \<Rightarrow> string \<Rightarrow> nat \<Rightarrow> client_table \<Rightarrow> nat option \<times> client_table" where
  "outbound_for bound peer now clients =
     (case map_of clients peer of
        Some entry \<Rightarrow>
          (Some (ce_outbound entry), AList.update peer (entry\<lparr>ce_last_seen := now\<rparr>) clients)
      | None \<Rightarrow>
          if MAX_CLIENTS \<le> length clients then (None, clients)
          else case bound of
                 None \<Rightarrow> (None, clients)
               | Some s \<Rightarrow>
                   (Some s, AList.update peer \<lparr>ce_outbound = s, ce_last_seen = now\<rparr> clients))"

definition sweep_clients :: "nat \<Rightarrow> client_table \<Rightarrow> client_table" where
  "sweep_clients now clients = filter (\<lambda>(_, c). now - ce_last_seen c < CLIENT_IDLE_MS) clients"

text \<open>Whether a message is printed, and when the last one was.\<close>

definition log_throttled :: "nat \<Rightarrow> nat option \<Rightarrow> bool \<times> nat option" where
  "log_throttled now prev =
     (if (case prev of None \<Rightarrow> True | Some t \<Rightarrow> LOG_INTERVAL_MS < now - t) then (True, Some now)
      else (False, prev))"

definition stale :: "nat \<Rightarrow> 'a resolved option \<Rightarrow> bool" where
  "stale now cached = (case cached of None \<Rightarrow> True | Some r \<Rightarrow> RESOLVE_TTL_MS < now - rs_at r)"

definition server_addr ::
  "'a res \<Rightarrow> nat \<Rightarrow> 'a resolved option \<Rightarrow> nat option \<Rightarrow> 'a option \<times> 'a resolved option \<times> nat option" where
  "server_addr answer now cached last_err =
     (let (cached', last_err') =
            (if stale now cached
             then (case answer of
                     Inr addr \<Rightarrow> (Some \<lparr>rs_addr = addr, rs_at = now\<rparr>, last_err)
                   | Inl _ \<Rightarrow> (cached, snd (log_throttled now last_err)))
             else (cached, last_err))
      in (map_option rs_addr cached', cached', last_err'))"

text \<open>
  The address of the active container on the network of the service. Parsing an IP address text is
  the standard library's; \<open>parse_ip\<close> stands for it.
\<close>

definition container_ip :: "string \<Rightarrow> container_info \<Rightarrow> string option" where
  "container_ip network info =
     (case map_of (ci_networks info) network of
        None \<Rightarrow> None
      | Some s \<Rightarrow>
          (let ip = hd (split_on (CHR ''/'') (rev (dropWhile (\<lambda>c. c = CHR ''/'') (rev (trim s)))))
           in if ip = [] then None else Some ip))"

definition resolve_server ::
  "'e platform \<Rightarrow> (string \<Rightarrow> 'ip option) \<Rightarrow> udp_target \<Rightarrow> ('e world, 'ip \<times> u16) io" where
  "resolve_server K parse_ip t =
     io_bind (read_fs (read_active (ut_service t))) (\<lambda>c.
       let name = container_name (ut_service t) c
       in io_bind (dk_ask name (pf_inspect K name)) (\<lambda>info. io_lift
            (case container_ip (ut_network t) info of
               None \<Rightarrow> Inl (ToolError ''container has no IP on network'')
             | Some ip \<Rightarrow>
                 (case parse_ip ip of
                    None \<Rightarrow> Inl (ParseError ip)
                  | Some a \<Rightarrow> Inr (a, ut_container_port t)))))"

section \<open>The relay loop\<close>

text \<open>
  A forwarder is a task that owns one outbound socket and sends what arrives there to one client; it
  ends after a period without replies, or when sending fails. \<open>rl_sent\<close> and \<open>rl_delivered\<close> record
  the datagrams that went out towards the server and back to the clients.
\<close>

record forwarder =
  fw_socket :: nat
  fw_client :: string
  fw_heard :: nat

record 'a relay =
  rl_clients :: client_table
  rl_resolved :: "'a resolved option"
  rl_last_err :: "nat option"
  rl_forwarders :: "forwarder list"
  rl_sent :: "(nat \<times> 'a) list"
  rl_delivered :: "(nat \<times> string) list"

definition relay_start :: "'a relay" where
  "relay_start = \<lparr>rl_clients = [], rl_resolved = None, rl_last_err = None, rl_forwarders = [],
     rl_sent = [], rl_delivered = []\<rparr>"

text \<open>One datagram from a client: \<open>ok\<close> says whether sending it on succeeds.\<close>

definition on_datagram ::
  "nat option \<Rightarrow> 'a res \<Rightarrow> bool \<Rightarrow> string \<Rightarrow> nat \<Rightarrow> 'a relay \<Rightarrow> 'a relay" where
  "on_datagram bound answer ok peer now r =
     (case outbound_for bound peer now (rl_clients r) of
        (None, clients) \<Rightarrow> r\<lparr>rl_clients := clients\<rparr>
      | (Some s, clients) \<Rightarrow>
          (let spawned = (if map_of (rl_clients r) peer = None
                          then [\<lparr>fw_socket = s, fw_client = peer, fw_heard = now\<rparr>] else []);
               r' = r\<lparr>rl_clients := clients, rl_forwarders := rl_forwarders r @ spawned\<rparr>
           in case server_addr answer now (rl_resolved r) (rl_last_err r) of
                (None, cached, err) \<Rightarrow> r'\<lparr>rl_resolved := cached, rl_last_err := err\<rparr>
              | (Some addr, cached, err) \<Rightarrow>
                  if ok then r'\<lparr>rl_resolved := cached, rl_last_err := err, rl_sent := rl_sent r @ [(s, addr)]\<rparr>
                  else r'\<lparr>rl_resolved := cached, rl_last_err := snd (log_throttled now err)\<rparr>))"

definition on_recv_error :: "nat \<Rightarrow> 'a relay \<Rightarrow> 'a relay" where
  "on_recv_error now r = r\<lparr>rl_last_err := snd (log_throttled now (rl_last_err r))\<rparr>"

definition on_sweep :: "nat \<Rightarrow> 'a relay \<Rightarrow> 'a relay" where
  "on_sweep now r = r\<lparr>rl_clients := sweep_clients now (rl_clients r)\<rparr>"

definition on_reply :: "bool \<Rightarrow> forwarder \<Rightarrow> nat \<Rightarrow> 'a relay \<Rightarrow> 'a relay" where
  "on_reply ok fw now r =
     (if ok then r\<lparr>rl_forwarders := map (\<lambda>x. if x = fw then fw\<lparr>fw_heard := now\<rparr> else x) (rl_forwarders r),
                   rl_delivered := rl_delivered r @ [(fw_socket fw, fw_client fw)]\<rparr>
      else r\<lparr>rl_forwarders := removeAll fw (rl_forwarders r)\<rparr>)"

definition on_forwarder_timeout :: "forwarder \<Rightarrow> 'a relay \<Rightarrow> 'a relay" where
  "on_forwarder_timeout fw r = r\<lparr>rl_forwarders := removeAll fw (rl_forwarders r)\<rparr>"

text \<open>A socket in use is held by a client entry or by a forwarder; a new one is none of these.\<close>

definition sockets_in_use :: "'a relay \<Rightarrow> nat set" where
  "sockets_in_use r = (\<lambda>(_, c). ce_outbound c) ` set (rl_clients r) \<union> fw_socket ` set (rl_forwarders r)"

inductive relay_step :: "nat \<Rightarrow> 'a relay \<Rightarrow> nat \<Rightarrow> 'a relay \<Rightarrow> bool" where
  datagram: "now \<le> t \<Longrightarrow> (\<forall>s. bound = Some s \<longrightarrow> s \<notin> sockets_in_use r) \<Longrightarrow>
    relay_step now r t (on_datagram bound answer ok peer t r)"
| recv_error: "now \<le> t \<Longrightarrow> relay_step now r t (on_recv_error t r)"
| sweep: "now \<le> t \<Longrightarrow> relay_step now r t (on_sweep t r)"
| reply: "now \<le> t \<Longrightarrow> fw \<in> set (rl_forwarders r) \<Longrightarrow> relay_step now r t (on_reply ok fw t r)"
| timeout: "now \<le> t \<Longrightarrow> fw \<in> set (rl_forwarders r) \<Longrightarrow> FORWARDER_IDLE_MS \<le> t - fw_heard fw \<Longrightarrow>
    relay_step now r t (on_forwarder_timeout fw r)"

inductive relay_run :: "nat \<Rightarrow> 'a relay \<Rightarrow> bool" where
  start: "relay_run 0 relay_start"
| step: "relay_run now r \<Longrightarrow> relay_step now r t r' \<Longrightarrow> relay_run t r'"

section \<open>The client table as a finite map\<close>

text \<open>What the relay needs of its table: a finite map with a size.\<close>

locale session_table =
  fixes lookup :: "'t \<Rightarrow> string \<Rightarrow> client_entry option"
    and put :: "string \<Rightarrow> client_entry \<Rightarrow> 't \<Rightarrow> 't"
    and retain :: "(client_entry \<Rightarrow> bool) \<Rightarrow> 't \<Rightarrow> 't"
    and count :: "'t \<Rightarrow> nat"
    and ok :: "'t \<Rightarrow> bool"
  assumes ok_put: "ok t \<Longrightarrow> ok (put p c t)"
    and ok_retain: "ok t \<Longrightarrow> ok (retain P t)"
    and lookup_put: "lookup (put p c t) q = (if q = p then Some c else lookup t q)"
    and lookup_retain: "ok t \<Longrightarrow>
      lookup (retain P t) q = (case lookup t q of None \<Rightarrow> None | Some c \<Rightarrow> if P c then Some c else None)"
    and count_dom: "ok t \<Longrightarrow> count t = card (dom (lookup t))"
    and finite_dom: "ok t \<Longrightarrow> finite (dom (lookup t))"
begin

lemma count_put:
  assumes "ok t"
  shows "count (put p c t) = (if lookup t p = None then Suc (count t) else count t)"
proof -
  have "dom (lookup (put p c t)) = insert p (dom (lookup t))" by (auto simp: lookup_put)
  then show ?thesis
    using count_dom [OF assms] count_dom [OF ok_put [OF assms]] finite_dom [OF assms]
    by (auto simp: insert_absorb domIff card_insert_if)
qed

lemma count_retain:
  assumes "ok t"
  shows "count (retain P t) \<le> count t"
proof -
  have "dom (lookup (retain P t)) \<subseteq> dom (lookup t)"
    using lookup_retain [OF assms] by (auto split: option.splits)
  then show ?thesis
    using count_dom [OF assms] count_dom [OF ok_retain [OF assms]] finite_dom [OF assms] card_mono by metis
qed

end

lemma table_retain_lookup:
  "distinct (map fst t) \<Longrightarrow> map_of (filter (\<lambda>(_, c). P c) t) q =
     (case map_of t q of None \<Rightarrow> None | Some c \<Rightarrow> if P c then Some c else None)"
proof (induction t)
  case (Cons x t)
  obtain k c where x: "x = (k, c)" by force
  have "k \<notin> fst ` set t" using Cons.prems x by simp
  then have none: "map_of (filter (\<lambda>(_, c). P c) t) k = None"
    by (auto simp: map_of_eq_None_iff image_iff)
  show ?case using Cons none x by (auto split: option.splits)
qed simp

interpretation sessions: session_table map_of AList.update "\<lambda>P. filter (\<lambda>(_, c). P c)" length
  "\<lambda>t. distinct (map fst t)"
proof unfold_locales
  fix t :: client_table assume d: "distinct (map fst t)"
  show "distinct (map fst (AList.update p c t))" for p c using d by (simp add: distinct_update)
  show "distinct (map fst (filter (\<lambda>(_, c). P c) t))" for P using d by (simp add: distinct_map_filter)
  show "map_of (filter (\<lambda>(_, c). P c) t) q =
      (case map_of t q of None \<Rightarrow> None | Some c \<Rightarrow> if P c then Some c else None)" for P q
    by (rule table_retain_lookup [OF d])
  have "card (fst ` set t) = length t" using distinct_card [OF d] by simp
  then show "length t = card (dom (map_of t))" by (simp add: dom_map_of_conv_image_fst)
  show "finite (dom (map_of t))" by (rule finite_dom_map_of)
qed (simp add: update_conv')

section \<open>Refinement\<close>

text \<open>
  The abstract relay serves at most \<^const>\<open>MAX_CLIENTS\<close> peers, a finite map from peers to sessions; the
  table of the code implements it.
\<close>

definition spec_outbound ::
  "nat option \<Rightarrow> string \<Rightarrow> nat \<Rightarrow> (string \<Rightarrow> client_entry option) \<Rightarrow>
   nat option \<times> (string \<Rightarrow> client_entry option)" where
  "spec_outbound bound peer now M =
     (case M peer of
        Some e \<Rightarrow> (Some (ce_outbound e), M(peer \<mapsto> e\<lparr>ce_last_seen := now\<rparr>))
      | None \<Rightarrow>
          (case bound of
             Some s \<Rightarrow> if card (dom M) < MAX_CLIENTS
                       then (Some s, M(peer \<mapsto> \<lparr>ce_outbound = s, ce_last_seen = now\<rparr>)) else (None, M)
           | None \<Rightarrow> (None, M)))"

definition spec_sweep :: "nat \<Rightarrow> (string \<Rightarrow> client_entry option) \<Rightarrow> string \<Rightarrow> client_entry option" where
  "spec_sweep now M p =
     (case M p of
        None \<Rightarrow> None
      | Some e \<Rightarrow> if now < ce_last_seen e + CLIENT_IDLE_MS then Some e else None)"

lemma idle_iff: "(now :: nat) - seen < CLIENT_IDLE_MS \<longleftrightarrow> now < seen + CLIENT_IDLE_MS"
  by (auto simp: CLIENT_IDLE_MS_def)

lemma outbound_refines:
  assumes "distinct (map fst cs)"
  shows "(fst (outbound_for bound peer now cs), map_of (snd (outbound_for bound peer now cs))) =
    spec_outbound bound peer now (map_of cs)"
  using sessions.count_dom [OF assms]
  by (auto simp: outbound_for_def spec_outbound_def update_conv' split: option.splits)

lemma sweep_refines:
  assumes "distinct (map fst cs)"
  shows "map_of (sweep_clients now cs) = spec_sweep now (map_of cs)"
  using sessions.lookup_retain [OF assms]
  by (simp add: sweep_clients_def spec_sweep_def idle_iff fun_eq_iff)

lemma outbound_table:
  assumes "distinct (map fst cs)" and "length cs \<le> MAX_CLIENTS"
  shows "distinct (map fst (snd (outbound_for bound peer now cs)))"
    and "length (snd (outbound_for bound peer now cs)) \<le> MAX_CLIENTS"
  using assms sessions.ok_put [OF assms(1)] sessions.count_put [OF assms(1)]
  by (auto simp: outbound_for_def split: option.splits)

section \<open>Invariant\<close>

text \<open>\<open>owns r s p\<close>: the socket \<open>s\<close> is the outbound socket of peer \<open>p\<close>, or forwards replies to it.\<close>

definition owns :: "'a relay \<Rightarrow> nat \<Rightarrow> string \<Rightarrow> bool" where
  "owns r s p \<longleftrightarrow> (\<exists>e. map_of (rl_clients r) p = Some e \<and> ce_outbound e = s) \<or>
     (\<exists>fw \<in> set (rl_forwarders r). fw_socket fw = s \<and> fw_client fw = p)"

definition relay_inv :: "nat \<Rightarrow> 'a relay \<Rightarrow> bool" where
  "relay_inv now r \<longleftrightarrow>
     distinct (map fst (rl_clients r)) \<and> length (rl_clients r) \<le> MAX_CLIENTS \<and>
     (\<forall>p e. map_of (rl_clients r) p = Some e \<longrightarrow> ce_last_seen e \<le> now) \<and>
     (\<forall>s p q. owns r s p \<longrightarrow> owns r s q \<longrightarrow> p = q)"

lemma owns_in_use: "owns r s p \<Longrightarrow> s \<in> sockets_in_use r"
  unfolding owns_def sockets_in_use_def by (force dest: map_of_SomeD)

text \<open>A step that keeps the table, up to entries it drops, and the owners.\<close>

lemma relay_inv_shrink:
  assumes "relay_inv now r" and "now \<le> t"
    and "distinct (map fst (rl_clients r'))" and "length (rl_clients r') \<le> length (rl_clients r)"
    and "\<And>p e. map_of (rl_clients r') p = Some e \<Longrightarrow> map_of (rl_clients r) p = Some e"
    and "\<And>s p. owns r' s p \<Longrightarrow> owns r s p"
  shows "relay_inv t r'"
  using assms unfolding relay_inv_def by (meson order_trans)

text \<open>What a datagram does to the table and the forwarders.\<close>

lemma on_datagram_parts:
  "rl_clients (on_datagram bound answer ok peer now r) = snd (outbound_for bound peer now (rl_clients r))"
  "rl_forwarders (on_datagram bound answer ok peer now r) = rl_forwarders r @
     (case outbound_for bound peer now (rl_clients r) of
        (Some s, _) \<Rightarrow> if map_of (rl_clients r) peer = None
          then [\<lparr>fw_socket = s, fw_client = peer, fw_heard = now\<rparr>] else []
      | (None, _) \<Rightarrow> [])"
  "rl_delivered (on_datagram bound answer ok peer now r) = rl_delivered r"
  by (auto simp: on_datagram_def Let_def split: prod.splits option.splits)

lemma outbound_cases:
  obtains (known) e where "map_of cs peer = Some e"
      "outbound_for bound peer now cs = (Some (ce_outbound e), AList.update peer (e\<lparr>ce_last_seen := now\<rparr>) cs)"
  | (dropped) "map_of cs peer = None" "outbound_for bound peer now cs = (None, cs)"
  | (opened) s where "map_of cs peer = None" "bound = Some s" "length cs < MAX_CLIENTS"
      "outbound_for bound peer now cs = (Some s, AList.update peer \<lparr>ce_outbound = s, ce_last_seen = now\<rparr> cs)"
proof (cases "map_of cs peer")
  case (Some e)
  then show ?thesis by (intro known) (simp_all add: outbound_for_def)
next
  case None
  show ?thesis
  proof (cases "MAX_CLIENTS \<le> length cs \<or> bound = None")
    case True
    then show ?thesis using None by (intro dropped) (auto simp: outbound_for_def)
  next
    case False
    then obtain s where "bound = Some s" "length cs < MAX_CLIENTS" by auto
    then show ?thesis using None by (intro opened) (simp_all add: outbound_for_def)
  qed
qed

lemma datagram_owns:
  assumes "owns (on_datagram bound answer ok peer now r) s p"
  shows "owns r s p \<or> (bound = Some s \<and> p = peer)"
proof (cases rule: outbound_cases [where cs = "rl_clients r" and peer = peer and bound = bound and now = now])
  case (known e)
  then show ?thesis using assms
    by (auto simp: owns_def on_datagram_parts update_conv' simp del: fun_upd_apply split: if_splits)
      (auto split: if_splits)
next
  case dropped
  then show ?thesis using assms by (simp add: owns_def on_datagram_parts)
next
  case (opened x)
  then show ?thesis using assms
    by (simp add: owns_def on_datagram_parts update_conv' bex_Un split: if_splits) blast
qed

lemma datagram_seen:
  assumes "map_of (rl_clients (on_datagram bound answer ok peer now r)) p = Some e"
  shows "ce_last_seen e = now \<or> map_of (rl_clients r) p = Some e"
proof (cases rule: outbound_cases [where cs = "rl_clients r" and peer = peer and bound = bound and now = now])
  case (known e)
  then show ?thesis using assms by (auto simp: on_datagram_parts update_conv' split: if_splits)
next
  case dropped
  then show ?thesis using assms by (simp add: on_datagram_parts)
next
  case (opened s)
  then show ?thesis using assms by (auto simp: on_datagram_parts update_conv' split: if_splits)
qed

lemma relay_inv_datagram:
  assumes inv: "relay_inv now r" and "now \<le> t" and fresh: "\<forall>s. bound = Some s \<longrightarrow> s \<notin> sockets_in_use r"
  shows "relay_inv t (on_datagram bound answer ok peer t r)" (is "relay_inv t ?r")
proof -
  have d: "distinct (map fst (rl_clients r))" "length (rl_clients r) \<le> MAX_CLIENTS"
    using inv by (simp_all add: relay_inv_def)
  have "p = q" if "owns ?r s p" "owns ?r s q" for s p q
    using datagram_owns [OF that(1)] datagram_owns [OF that(2)] fresh owns_in_use [of r s] inv
    unfolding relay_inv_def by blast
  moreover have "ce_last_seen e \<le> t" if "map_of (rl_clients ?r) p = Some e" for p e
    using datagram_seen [OF that] inv assms(2) unfolding relay_inv_def by force
  ultimately show ?thesis
    unfolding relay_inv_def using outbound_table [OF d] by (simp add: on_datagram_parts)
qed

lemma inv_table: "relay_inv now r \<Longrightarrow> distinct (map fst (rl_clients r))"
  by (simp add: relay_inv_def)

text \<open>A step that leaves the table alone and gives no socket a new peer.\<close>

lemma relay_inv_same_table:
  assumes "relay_inv now r" and "now \<le> t" and "rl_clients r' = rl_clients r"
    and "\<And>fw. fw \<in> set (rl_forwarders r') \<Longrightarrow>
      \<exists>gw \<in> set (rl_forwarders r). fw_socket gw = fw_socket fw \<and> fw_client gw = fw_client fw"
  shows "relay_inv t r'"
proof (rule relay_inv_shrink [OF assms(1,2)])
  show "owns r s p" if "owns r' s p" for s p
    using that assms(4) unfolding owns_def assms(3) by metis
qed (simp_all add: assms(3) inv_table [OF assms(1)])

lemma relay_inv_sweep:
  assumes "relay_inv now r" and "now \<le> t"
  shows "relay_inv t (on_sweep t r)"
proof (rule relay_inv_shrink [OF assms])
  note d = inv_table [OF assms(1)]
  show sub: "map_of (rl_clients r) p = Some e" if "map_of (rl_clients (on_sweep t r)) p = Some e" for p e
    using that sessions.lookup_retain [OF d]
    by (simp add: on_sweep_def sweep_clients_def split: option.splits if_splits)
  show "owns r s p" if "owns (on_sweep t r) s p" for s p
    using that sub unfolding owns_def by (simp add: on_sweep_def) blast
  show "distinct (map fst (rl_clients (on_sweep t r)))"
    using sessions.ok_retain [OF d] by (simp add: on_sweep_def sweep_clients_def)
  show "length (rl_clients (on_sweep t r)) \<le> length (rl_clients r)"
    using sessions.count_retain [OF d] by (simp add: on_sweep_def sweep_clients_def)
qed

lemma reply_forwarders:
  assumes "x \<in> set (rl_forwarders (on_reply ok fw t r))" and "fw \<in> set (rl_forwarders r)"
  shows "\<exists>gw \<in> set (rl_forwarders r). fw_socket gw = fw_socket x \<and> fw_client gw = fw_client x"
  using assms by (cases ok) (auto simp: on_reply_def)

lemma relay_inv_step: "relay_step now r t r' \<Longrightarrow> relay_inv now r \<Longrightarrow> relay_inv t r'"
proof (induction rule: relay_step.induct)
  case (datagram now t bound r answer ok peer)
  then show ?case by (simp add: relay_inv_datagram)
next
  case (recv_error now t r)
  show ?case by (rule relay_inv_same_table [OF recv_error(2,1)]) (auto simp: on_recv_error_def)
next
  case (sweep now t r)
  then show ?case by (simp add: relay_inv_sweep)
next
  case (reply now t fw r ok)
  have "rl_clients (on_reply ok fw t r) = rl_clients r" by (simp add: on_reply_def)
  from relay_inv_same_table [OF reply(3,1) this] reply_forwarders [OF _ reply(2)] show ?case by blast
next
  case (timeout now t fw r)
  show ?case by (rule relay_inv_same_table [OF timeout(4,1)]) (auto simp: on_forwarder_timeout_def)
qed

lemma relay_run_inv: "relay_run now r \<Longrightarrow> relay_inv now r"
proof (induction rule: relay_run.induct)
  case start
  show ?case by (simp add: relay_inv_def relay_start_def owns_def)
next
  case (step now r t r')
  then show ?case using relay_inv_step by blast
qed

section \<open>Correctness\<close>

text \<open>
  C27: In every reachable state the relay serves at most sixteen clients, and replies stay
  demultiplexed: two clients never share an outbound socket, and whatever arrives on the socket of a
  client is forwarded to that client and to no other.
\<close>

theorem relay_demultiplexes:
  assumes "relay_run now r" and "map_of (rl_clients r) p = Some e"
  shows "length (rl_clients r) \<le> 16 \<and>
    (\<forall>q f. map_of (rl_clients r) q = Some f \<longrightarrow> ce_outbound f = ce_outbound e \<longrightarrow> q = p) \<and>
    (\<forall>fw \<in> set (rl_forwarders r). fw_socket fw = ce_outbound e \<longrightarrow>
       rl_delivered (on_reply True fw t r) = rl_delivered r @ [(ce_outbound e, p)])"
proof -
  have inv: "relay_inv now r" by (rule relay_run_inv [OF assms(1)])
  have own: "q = p" if "owns r (ce_outbound e) q" for q
    using inv that assms(2) unfolding relay_inv_def owns_def by blast
  have "q = p" if "map_of (rl_clients r) q = Some f" "ce_outbound f = ce_outbound e" for q f
    using own that unfolding owns_def by blast
  moreover have "fw_client fw = p" if "fw \<in> set (rl_forwarders r)" "fw_socket fw = ce_outbound e" for fw
    using own that unfolding owns_def by blast
  ultimately show ?thesis using inv by (simp add: relay_inv_def MAX_CLIENTS_def on_reply_def)
qed


text \<open>A client that has sent datagrams and whose forwarder has ended.\<close>

definition orphan :: "'a relay \<Rightarrow> string \<Rightarrow> nat \<Rightarrow> bool" where
  "orphan r p s \<longleftrightarrow> (\<exists>e. map_of (rl_clients r) p = Some e \<and> ce_outbound e = s) \<and>
     (\<forall>fw \<in> set (rl_forwarders r). fw_socket fw \<noteq> s)"

definition silent_ms :: "'a relay \<Rightarrow> string \<Rightarrow> nat \<Rightarrow> nat" where
  "silent_ms r p t = (case map_of (rl_clients r) p of None \<Rightarrow> 0 | Some e \<Rightarrow> t - ce_last_seen e)"

lemma orphan_datagram:
  assumes "orphan r p s" and fresh: "\<forall>x. bound = Some x \<longrightarrow> x \<notin> sockets_in_use r"
  shows "orphan (on_datagram bound answer ok peer t r) p s"
proof -
  from assms(1) obtain e where e: "map_of (rl_clients r) p = Some e" "ce_outbound e = s"
    and none: "\<forall>fw \<in> set (rl_forwarders r). fw_socket fw \<noteq> s"
    by (auto simp: orphan_def)
  have use_s: "s \<in> sockets_in_use r" by (rule owns_in_use [of r s p]) (use e in \<open>auto simp: owns_def\<close>)
  show ?thesis
  proof (cases rule: outbound_cases [where cs = "rl_clients r" and peer = peer and bound = bound and now = t])
    case (known f)
    then show ?thesis using e none by (auto simp: orphan_def on_datagram_parts update_conv')
  next
    case dropped
    then show ?thesis using e none by (auto simp: orphan_def on_datagram_parts)
  next
    case (opened x)
    then have "x \<noteq> s" "peer \<noteq> p" using fresh use_s e by auto
    then show ?thesis using opened e none by (auto simp: orphan_def on_datagram_parts update_conv')
  qed
qed

lemma orphan_step:
  assumes "relay_step now r t r'" and "relay_inv now r" and "orphan r p s" and "silent_ms r p t < CLIENT_IDLE_MS"
  shows "orphan r' p s \<and> filter (\<lambda>(x, _). x = s) (rl_delivered r') = filter (\<lambda>(x, _). x = s) (rl_delivered r)"
  using assms
proof (induction rule: relay_step.induct)
  case (datagram now t bound r answer ok peer)
  then show ?case using orphan_datagram by (simp add: on_datagram_parts)
next
  case (recv_error now t r)
  then show ?case by (simp add: orphan_def on_recv_error_def)
next
  case (sweep now t r)
  from sweep(3) obtain e where e: "map_of (rl_clients r) p = Some e" "ce_outbound e = s"
    by (auto simp: orphan_def)
  have "map_of (rl_clients (on_sweep t r)) p = Some e"
    using sweep(4) e sessions.lookup_retain [OF inv_table [OF sweep(2)]]
    by (simp add: on_sweep_def sweep_clients_def silent_ms_def)
  then show ?case using sweep(3) e by (auto simp: orphan_def on_sweep_def)
next
  case (reply now t fw r ok)
  have "fw_socket fw \<noteq> s" using reply(2,4) by (auto simp: orphan_def)
  moreover have "fw_socket x \<noteq> s" if "x \<in> set (rl_forwarders (on_reply ok fw t r))" for x
    using reply_forwarders [OF that reply(2)] reply(4) by (auto simp: orphan_def)
  ultimately show ?case using reply(4) by (cases ok) (auto simp: orphan_def on_reply_def)
next
  case (timeout now t fw r)
  then show ?case by (simp add: orphan_def on_forwarder_timeout_def)
qed

text \<open>Runs in which the peer is never silent for the five minutes after which it would be evicted.\<close>

inductive busy_run :: "string \<Rightarrow> nat \<Rightarrow> 'a relay \<Rightarrow> nat \<Rightarrow> 'a relay \<Rightarrow> bool" for p where
  here: "relay_run now r \<Longrightarrow> busy_run p now r now r"
| more: "busy_run p now r t r' \<Longrightarrow> relay_step t r' u r'' \<Longrightarrow> silent_ms r' p u < CLIENT_IDLE_MS \<Longrightarrow>
    busy_run p now r u r''"

text \<open>
  C26: A forwarder ends after five minutes without a reply, while the entry of its client lives on as
  long as the client keeps sending, and only a new client gets a forwarder. So once the server has been
  silent that long, an active client is never answered again: however long it goes on and whatever the
  server sends, nothing is delivered on its socket and no forwarder is started for it.
\<close>

theorem orphaned_client_never_answered:
  assumes "busy_run p now r t r'" and "orphan r p s"
  shows "orphan r' p s \<and> filter (\<lambda>(x, _). x = s) (rl_delivered r') = filter (\<lambda>(x, _). x = s) (rl_delivered r)"
proof -
  have "relay_run t r' \<and> orphan r' p s \<and>
      filter (\<lambda>(x, _). x = s) (rl_delivered r') = filter (\<lambda>(x, _). x = s) (rl_delivered r)"
    using assms
  proof (induction rule: busy_run.induct)
    case (more now r t r' u r'')
    then have ih: "relay_run t r'" "orphan r' p s"
      "filter (\<lambda>(x, _). x = s) (rl_delivered r') = filter (\<lambda>(x, _). x = s) (rl_delivered r)" by blast+
    from orphan_step [OF more(2) relay_run_inv [OF ih(1)] ih(2) more(3)] ih(3) relay_run.step [OF ih(1) more(2)]
    show ?case by simp
  qed simp
  then show ?thesis by blast
qed

text \<open>A client that sends at 0 s and 200 s to a server that never replies; its forwarder ends at 300 s.\<close>

definition orphan_before :: "unit relay" where
  "orphan_before = on_datagram None (Inr ()) True ''a'' 200000 (on_datagram (Some 1) (Inr ()) True ''a'' 0 relay_start)"

definition orphan_after :: "unit relay" where
  "orphan_after = on_forwarder_timeout \<lparr>fw_socket = 1, fw_client = ''a'', fw_heard = 0\<rparr> orphan_before"

lemma orphan_parts:
  "rl_clients orphan_before = [(''a'', \<lparr>ce_outbound = 1, ce_last_seen = 200000\<rparr>)]"
  "rl_forwarders orphan_before = [\<lparr>fw_socket = 1, fw_client = ''a'', fw_heard = 0\<rparr>]"
  "rl_clients orphan_after = [(''a'', \<lparr>ce_outbound = 1, ce_last_seen = 200000\<rparr>)]"
  "rl_forwarders orphan_after = []"
  by (simp_all add: orphan_after_def orphan_before_def on_forwarder_timeout_def on_datagram_parts
      outbound_for_def relay_start_def MAX_CLIENTS_def)

lemma orphan_runs: "relay_run 200000 orphan_before" "relay_run 300000 orphan_after"
proof -
  have "relay_run 0 (on_datagram (Some 1) (Inr ()) True ''a'' 0 relay_start :: unit relay)"
    by (rule relay_run.step [OF relay_run.start], rule relay_step.datagram)
      (simp_all add: sockets_in_use_def relay_start_def)
  then show b: "relay_run 200000 orphan_before"
    unfolding orphan_before_def by (rule relay_run.step) (rule relay_step.datagram, simp_all)
  show "relay_run 300000 orphan_after"
    unfolding orphan_after_def
    by (rule relay_run.step [OF b], rule relay_step.timeout) (simp_all add: orphan_parts FORWARDER_IDLE_MS_def)
qed

lemma relay_demultiplexes_witness:
  "rl_delivered (on_reply True \<lparr>fw_socket = 1, fw_client = ''a'', fw_heard = 0\<rparr> 1 orphan_before) =
     rl_delivered orphan_before @ [(1, ''a'')]"
  using relay_demultiplexes [OF orphan_runs(1), of "''a''" "\<lparr>ce_outbound = 1, ce_last_seen = 200000\<rparr>" 1]
  by (simp add: orphan_parts)


lemma orphaned_client_never_answered_witness:
  "orphan (on_datagram None (Inr ()) True ''a'' 400000 orphan_after) ''a'' 1"
proof -
  have "busy_run ''a'' 300000 orphan_after 400000 (on_datagram None (Inr ()) True ''a'' 400000 orphan_after)"
    by (rule busy_run.more [OF busy_run.here [OF orphan_runs(2)]], rule relay_step.datagram)
      (simp_all add: silent_ms_def orphan_parts CLIENT_IDLE_MS_def)
  moreover have "orphan orphan_after ''a'' 1" by (simp add: orphan_def orphan_parts)
  ultimately show ?thesis using orphaned_client_never_answered by blast
qed

text \<open>
  A TCP proxy follows a cutover at once: after the active color has been recorded, the next
  connection on the fixed port goes to a host port that the container of that color publishes for the
  same container port on the same interface.
\<close>

theorem tcp_proxy_follows_cutover:
  assumes "t \<in> set (collect_proxy_targets defs)" and "write_active (px_service t) c f = (Inr (), g)"
  shows "\<exists>def \<in> set defs. sd_service def = px_service t \<and>
    (\<exists>spec \<in> set (port_binding_specs def c). bs_container spec = px_container_port t \<and>
       bs_bind spec = px_bind t \<and> connection_target t ip g = Inr (ip, bs_host spec))"
proof -
  obtain def p where def: "def \<in> set defs" "p \<in> set (sd_ports def)" "np_protocol p \<noteq> ProtoUdp"
      "px_service t = sd_service def" "px_container_port t = np_container_port p"
      "px_scheme t = sd_port_scheme def" "px_bind t = np_bind p"
    using assms(1) by (auto simp: collect_proxy_targets_def split: option.splits)
  let ?spec = "\<lparr>bs_host = host_port (sd_port_scheme def) c (np_container_port p),
       bs_container = np_container_port p, bs_bind = np_bind p\<rparr>"
  have "?spec \<in> set (port_binding_specs def c)"
    using def(2,3) by (force simp: port_binding_specs_def)
  moreover have "connection_target t ip g = Inr (ip, bs_host ?spec)"
    using write_active_read [OF assms(2)] def by (simp add: connection_target_def)
  ultimately show ?thesis using def by force
qed

definition ssh_def :: service_def where
  "ssh_def = paseo_def\<lparr>sd_ports := [\<lparr>np_name = ''ssh'', np_container_port = 22, np_subdomain = None,
     np_fixed_port = Some 2222, np_protocol = ProtoTcp, np_bind = BindTailnet, np_auth = None\<rparr>]\<rparr>"

lemma tcp_proxy_follows_cutover_witness:
  "\<exists>t \<in> set (collect_proxy_targets [ssh_def]). \<exists>port.
     connection_target t ''100.64.0.1'' (snd (write_active ''paseo'' Green empty_fs)) = Inr (''100.64.0.1'', port)"
proof -
  let ?t = "\<lparr>px_service = ''paseo'', px_fixed_port = 2222, px_container_port = 22,
    px_scheme = sd_port_scheme ssh_def, px_bind = BindTailnet\<rparr>"
  have t: "?t \<in> set (collect_proxy_targets [ssh_def])"
    by (simp add: collect_proxy_targets_def ssh_def_def paseo_def_def)
  have "fst (write_active ''paseo'' Green empty_fs) = Inr ()" by code_simp
  then have "write_active (px_service ?t) Green empty_fs = (Inr (), snd (write_active ''paseo'' Green empty_fs))"
    by (simp add: prod_eq_iff)
  from tcp_proxy_follows_cutover [OF t this, of "''100.64.0.1''"] t show ?thesis by blast
qed

text \<open>
  The relay forwards a datagram to an address that was resolved for the active container at most
  two seconds ago, or to the last one that ever was when the resolution fails now; it drops the datagram
  only when none was.
\<close>

theorem relay_address_is_recent:
  assumes "server_addr answer now cached err = (dest, cached', err')"
  shows "case dest of
      None \<Rightarrow> cached = None \<and> (\<exists>e. answer = Inl e)
    | Some a \<Rightarrow> (\<exists>r. cached' = Some r \<and> rs_addr r = a) \<and>
        (answer = Inr a \<or> (\<exists>r. cached = Some r \<and> rs_addr r = a \<and> (now \<le> rs_at r + 2000 \<or> (\<exists>e. answer = Inl e))))"
  using assms
  by (auto simp: server_addr_def stale_def RESOLVE_TTL_MS_def split: option.splits sum.splits if_splits)

lemma relay_address_is_recent_witness:
  "\<exists>r. (Some \<lparr>rs_addr = ''172.18.0.3'', rs_at = 9000 :: nat\<rparr>) = Some r \<and> rs_addr r = ''172.18.0.3''"
  using relay_address_is_recent [of "Inr ''172.18.0.3''" 9000 "Some \<lparr>rs_addr = ''172.18.0.2'', rs_at = 1000\<rparr>" None
      "Some ''172.18.0.3''" "Some \<lparr>rs_addr = ''172.18.0.3'', rs_at = 9000\<rparr>" None]
  by (simp add: server_addr_def stale_def RESOLVE_TTL_MS_def)

end
