(* ===== verification/Servers.thy ===== *)
theory Servers
  imports Proxies
begin

text \<open>
  The start and the life of the daemon: \<^verbatim>\<open>daemon.rs\<close>, the \<^verbatim>\<open>serve\<close> functions of \<^verbatim>\<open>mcp.rs\<close>, \<^verbatim>\<open>ui.rs\<close>,
  \<^verbatim>\<open>tcp_proxy.rs\<close> and \<^verbatim>\<open>udp_proxy.rs\<close>. The four servers run side by side in one process; each is one or
  more tasks that bind an address and then serve it. The first task that ends ends its server, and the
  first server that ends ends the daemon. The order in which tasks run is left open.
\<close>

section \<open>Addresses\<close>

type_synonym endpoint = "port_protocol \<times> string \<times> u16"

text \<open>
  Two sockets of one protocol cannot be bound to the same port, unless they are bound to two different
  specific addresses of the host.
\<close>

fun clash :: "endpoint \<Rightarrow> endpoint \<Rightarrow> bool" where
  "clash (p, i, m) (q, j, n) \<longleftrightarrow>
     p = q \<and> m = n \<and> (i = j \<or> i = ''0.0.0.0'' \<or> j = ''0.0.0.0'')"

section \<open>Servers and their tasks\<close>

datatype server = McpServer | UiServer | TcpProxy | UdpRelay

datatype task =
    Starting "endpoint res"
  | Listening endpoint
  | Ended error

type_synonym tasks = "(server \<times> task) list"

definition mcp_serve :: "u16 \<Rightarrow> tasks" where
  "mcp_serve port = [(McpServer, Starting (Inr (ProtoTcp, ''0.0.0.0'', port)))]"

definition ui_serve :: "u16 \<Rightarrow> tasks" where
  "ui_serve port = [(UiServer, Starting (Inr (ProtoTcp, ''127.0.0.1'', port)))]"

text \<open>A proxy without targets has no task: it waits for ever.\<close>

definition tcp_proxy_serve :: "yaml_parser \<Rightarrow> fs \<Rightarrow> tasks" where
  "tcp_proxy_serve yaml f =
     (case load_all_defs yaml f of
        Inl e \<Rightarrow> [(TcpProxy, Ended e)]
      | Inr defs \<Rightarrow>
          map (\<lambda>t. (TcpProxy, Starting (map_sum id (Pair ProtoTcp) (run_listener t f))))
            (collect_proxy_targets defs))"

definition run_relay_bind :: "udp_target \<Rightarrow> fs \<Rightarrow> (string \<times> u16) res" where
  "run_relay_bind t = listener_address (ut_bind t) (ut_fixed_port t)"

text \<open>\<open>docker\<close> is the outcome of opening the socket of the engine.\<close>

definition udp_proxy_serve :: "yaml_parser \<Rightarrow> unit res \<Rightarrow> fs \<Rightarrow> tasks" where
  "udp_proxy_serve yaml docker f =
     (case load_all_defs yaml f of
        Inl e \<Rightarrow> [(UdpRelay, Ended e)]
      | Inr defs \<Rightarrow>
          (let targets = collect_udp_targets defs
           in if targets = [] then []
              else case docker of
                     Inl e \<Rightarrow> [(UdpRelay, Ended e)]
                   | Inr _ \<Rightarrow>
                       map (\<lambda>t. (UdpRelay, Starting (map_sum id (Pair ProtoUdp) (run_relay_bind t f))))
                         targets))"

section \<open>The daemon\<close>

record daemon =
  dm_tasks :: tasks
  dm_exit :: "unit res option"

definition daemon_serve :: "yaml_parser \<Rightarrow> unit res \<Rightarrow> fs \<Rightarrow> daemon" where
  "daemon_serve yaml docker f =
     \<lparr>dm_tasks = mcp_serve MCP_PORT @ ui_serve UI_PORT @ tcp_proxy_serve yaml f @
        udp_proxy_serve yaml docker f,
      dm_exit = None\<rparr>"

definition held :: "tasks \<Rightarrow> endpoint list" where
  "held ts = concat (map (\<lambda>(_, t). case t of Listening ep \<Rightarrow> [ep] | _ \<Rightarrow> []) ts)"

declare clash.simps [simp del]

text \<open>\<open>taken\<close> are the addresses other processes hold, or which the host does not have.\<close>

fun attempt :: "(endpoint \<Rightarrow> bool) \<Rightarrow> tasks \<Rightarrow> endpoint res \<Rightarrow> task" where
  "attempt taken ts (Inl e) = Ended e"
| "attempt taken ts (Inr ep) =
     (if taken ep \<or> list_ex (clash ep) (held ts) then Ended (IoError (fst (snd ep))) else Listening ep)"

text \<open>Steps of a start: a task binds, or fails to; the daemon ends with the error of a task.\<close>

inductive start_step :: "(endpoint \<Rightarrow> bool) \<Rightarrow> daemon \<Rightarrow> daemon \<Rightarrow> bool" for taken where
  bind: "dm_exit d = None \<Longrightarrow> i < length (dm_tasks d) \<Longrightarrow> dm_tasks d ! i = (s, Starting r) \<Longrightarrow>
    start_step taken d (d\<lparr>dm_tasks := (dm_tasks d)[i := (s, attempt taken (dm_tasks d) r)]\<rparr>)"
| server_ends: "dm_exit d = None \<Longrightarrow> (s, Ended e) \<in> set (dm_tasks d) \<Longrightarrow>
    start_step taken d (d\<lparr>dm_exit := Some (Inl e)\<rparr>)"

text \<open>
  Steps of a life: also a failing \<^verbatim>\<open>accept\<close> of the TCP proxy, which ends its task, and a signal. Receive
  errors of a relay are logged and its task goes on; the two HTTP servers handle theirs themselves.
\<close>

inductive daemon_step :: "(endpoint \<Rightarrow> bool) \<Rightarrow> daemon \<Rightarrow> daemon \<Rightarrow> bool" for taken where
  start: "start_step taken d d' \<Longrightarrow> daemon_step taken d d'"
| accept_error: "dm_exit d = None \<Longrightarrow> i < length (dm_tasks d) \<Longrightarrow>
    dm_tasks d ! i = (TcpProxy, Listening ep) \<Longrightarrow>
    daemon_step taken d (d\<lparr>dm_tasks := (dm_tasks d)[i := (TcpProxy, Ended e)]\<rparr>)"
| shutdown_signal: "dm_exit d = None \<Longrightarrow> daemon_step taken d (d\<lparr>dm_exit := Some (Inr ())\<rparr>)"

definition start_run :: "(endpoint \<Rightarrow> bool) \<Rightarrow> daemon \<Rightarrow> daemon \<Rightarrow> bool" where
  "start_run taken = (start_step taken)\<^sup>*\<^sup>*"

definition daemon_run :: "(endpoint \<Rightarrow> bool) \<Rightarrow> daemon \<Rightarrow> daemon \<Rightarrow> bool" where
  "daemon_run taken = (daemon_step taken)\<^sup>*\<^sup>*"

definition start_done :: "(endpoint \<Rightarrow> bool) \<Rightarrow> daemon \<Rightarrow> bool" where
  "start_done taken d \<longleftrightarrow> (\<nexists>d'. start_step taken d d')"

section \<open>When a start succeeds\<close>

fun wants :: "task \<Rightarrow> endpoint res" where
  "wants (Starting r) = r"
| "wants (Listening ep) = Inr ep"
| "wants (Ended e) = Inl e"

definition fits :: "(endpoint \<Rightarrow> bool) \<Rightarrow> endpoint res list \<Rightarrow> bool" where
  "fits taken ws \<longleftrightarrow>
     list_all (\<lambda>w. case w of Inl _ \<Rightarrow> False | Inr ep \<Rightarrow> \<not> taken ep) ws \<and>
     sorted_wrt (\<lambda>v w. \<not> clash (projr v) (projr w)) ws"

definition all_listening :: "tasks \<Rightarrow> tasks" where
  "all_listening = map (\<lambda>(s, t). (s, Listening (projr (wants t))))"

lemma clash_sym: "clash a b \<longleftrightarrow> clash b a"
  by (cases a; cases b) (auto simp: clash.simps)

lemma fits_nth:
  "fits taken ws \<longleftrightarrow>
     (\<forall>i < length ws. \<exists>ep. ws ! i = Inr ep \<and> \<not> taken ep) \<and>
     (\<forall>i < length ws. \<forall>j < length ws. i \<noteq> j \<longrightarrow> \<not> clash (projr (ws ! i)) (projr (ws ! j)))"
proof -
  have "list_all (\<lambda>w. case w of Inl _ \<Rightarrow> False | Inr ep \<Rightarrow> \<not> taken ep) ws \<longleftrightarrow>
      (\<forall>i < length ws. \<exists>ep. ws ! i = Inr ep \<and> \<not> taken ep)"
    unfolding list_all_length by (intro all_cong1 imp_cong refl) (auto split: sum.splits)
  moreover have "sorted_wrt (\<lambda>v w. \<not> clash (projr v) (projr w)) ws \<longleftrightarrow>
      (\<forall>i < length ws. \<forall>j < length ws. i \<noteq> j \<longrightarrow> \<not> clash (projr (ws ! i)) (projr (ws ! j)))"
    (is "?L \<longleftrightarrow> ?R")
  proof
    assume l: ?L
    show ?R
    proof (intro allI impI)
      fix i j assume "i < length ws" "j < length ws" "i \<noteq> j"
      then show "\<not> clash (projr (ws ! i)) (projr (ws ! j))"
        using l clash_sym unfolding sorted_wrt_iff_nth_less by (metis nat_neq_iff)
    qed
  qed (simp add: sorted_wrt_iff_nth_less)
  ultimately show ?thesis unfolding fits_def by blast
qed

lemma fits_apart:
  assumes "fits taken ws" "i < length ws" "j < length ws" "i \<noteq> j" "ws ! i = Inr a" "ws ! j = Inr b"
  shows "\<not> clash a b"
proof -
  have "\<not> clash (projr (ws ! i)) (projr (ws ! j))" using assms(1-4) unfolding fits_nth by blast
  then show ?thesis using assms(5,6) by simp
qed

lemma fits_wanted:
  assumes "fits taken ws" "i < length ws"
  obtains ep where "ws ! i = Inr ep" "\<not> taken ep"
  using assms unfolding fits_nth by blast

lemma held_iff: "ep \<in> set (held ts) \<longleftrightarrow> (\<exists>j < length ts. snd (ts ! j) = Listening ep)"
proof -
  have "set (case t of Listening ep \<Rightarrow> [ep] | _ \<Rightarrow> []) = {ep. t = Listening ep}" for t
    by (cases t) simp_all
  then have "ep \<in> set (held ts) \<longleftrightarrow> Listening ep \<in> snd ` set ts"
    unfolding held_def by (force simp: split_beta)
  then show ?thesis by (metis (mono_tags, lifting) image_iff in_set_conv_nth)
qed

text \<open>
  Where a task can be: unchanged, bound to what it wants, or failed. A task fails when the addresses do
  not fit, or when its server is one of the \<open>faulty\<close> ones, whose listening sockets can fail.
\<close>

definition bound_free :: "(endpoint \<Rightarrow> bool) \<Rightarrow> task \<Rightarrow> task \<Rightarrow> bool" where
  "bound_free taken t t' \<longleftrightarrow> (\<exists>ep. t = Starting (Inr ep) \<and> t' = Listening ep \<and> \<not> taken ep)"

definition start_inv :: "(server \<Rightarrow> bool) \<Rightarrow> (endpoint \<Rightarrow> bool) \<Rightarrow> tasks \<Rightarrow> daemon \<Rightarrow> bool" where
  "start_inv faulty taken ts d \<longleftrightarrow>
     length (dm_tasks d) = length ts \<and>
     (\<forall>i < length ts. fst (dm_tasks d ! i) = fst (ts ! i) \<and>
        (dm_tasks d ! i = ts ! i \<or> bound_free taken (snd (ts ! i)) (snd (dm_tasks d ! i)) \<or>
         (\<exists>e. snd (dm_tasks d ! i) = Ended e) \<and>
           (fits taken (map (wants \<circ> snd) ts) \<longrightarrow> faulty (fst (ts ! i))))) \<and>
     (\<forall>i < length ts. \<forall>j < length ts. \<forall>a b. i \<noteq> j \<longrightarrow> snd (dm_tasks d ! i) = Listening a \<longrightarrow>
        snd (dm_tasks d ! j) = Listening b \<longrightarrow> \<not> clash a b) \<and>
     (\<forall>e. dm_exit d = Some (Inl e) \<longrightarrow> (\<exists>s. (s, Ended e) \<in> set (dm_tasks d) \<and>
        (fits taken (map (wants \<circ> snd) ts) \<longrightarrow> faulty s)))"

definition unstarted :: "tasks \<Rightarrow> bool" where
  "unstarted ts \<longleftrightarrow> (\<forall>i < length ts. \<forall>ep. snd (ts ! i) \<noteq> Listening ep)"

lemma start_inv_boot:
  "unstarted ts \<Longrightarrow> start_inv faulty taken ts \<lparr>dm_tasks = ts, dm_exit = None\<rparr>"
  by (simp add: start_inv_def unstarted_def)

lemma start_inv_task:
  assumes "start_inv faulty taken ts d" and "i < length ts"
  obtains (same) "dm_tasks d ! i = ts ! i"
  | (bound) s ep where "ts ! i = (s, Starting (Inr ep))" "dm_tasks d ! i = (s, Listening ep)" "\<not> taken ep"
  | (failed) s e where "dm_tasks d ! i = (s, Ended e)"
      "fits taken (map (wants \<circ> snd) ts) \<longrightarrow> faulty s"
proof -
  have "dm_tasks d ! i = ts ! i \<or> bound_free taken (snd (ts ! i)) (snd (dm_tasks d ! i)) \<or>
      (\<exists>e. snd (dm_tasks d ! i) = Ended e) \<and>
        (fits taken (map (wants \<circ> snd) ts) \<longrightarrow> faulty (fst (ts ! i)))"
    and "fst (dm_tasks d ! i) = fst (ts ! i)"
    using assms unfolding start_inv_def by blast+
  then show thesis
    using that unfolding bound_free_def by (metis prod.collapse)
qed

lemma start_inv_length: "start_inv faulty taken ts d \<Longrightarrow> length (dm_tasks d) = length ts"
  by (simp add: start_inv_def)

lemma start_inv_starting:
  assumes "start_inv faulty taken ts d" and "i < length ts" and "dm_tasks d ! i = (s, Starting r)"
  shows "ts ! i = (s, Starting r)"
  using assms(3) by (cases rule: start_inv_task [OF assms(1,2)]) simp_all

lemma start_inv_wants:
  assumes "start_inv faulty taken ts d" and "i < length ts" and "snd (dm_tasks d ! i) = Listening ep"
  shows "wants (snd (ts ! i)) = Inr ep"
  using assms(3) by (cases rule: start_inv_task [OF assms(1,2)]) simp_all

text \<open>A task that does not get its address is the proof that the addresses do not fit.\<close>

lemma failed_attempt_unfit:
  assumes inv: "start_inv faulty taken ts d" and "unstarted ts"
    and i: "i < length ts" "dm_tasks d ! i = (s, Starting r)"
    and fail: "attempt taken (dm_tasks d) r = Ended e"
  shows "\<not> fits taken (map (wants \<circ> snd) ts)"
proof
  assume fit: "fits taken (map (wants \<circ> snd) ts)"
  note len = start_inv_length [OF inv] and same = start_inv_starting [OF inv i]
  have wi: "map (wants \<circ> snd) ts ! i = r" using i same by simp
  obtain ep where ep: "r = Inr ep" "\<not> taken ep"
    by (rule fits_wanted [OF fit, of i]) (use i(1) wi in simp_all)
  then obtain x where x: "x \<in> set (held (dm_tasks d))" "clash ep x"
    using fail by (auto simp: list_ex_iff split: if_splits)
  then obtain j where j: "j < length ts" "snd (dm_tasks d ! j) = Listening x"
    using len by (auto simp: held_iff)
  have wj: "map (wants \<circ> snd) ts ! j = Inr x"
    using j start_inv_wants [OF inv j] by simp
  have "i \<noteq> j" using i j by auto
  then have "\<not> clash ep x"
    using fits_apart [OF fit, of i j ep x] i(1) j(1) wi wj ep(1) by simp
  then show False using x by simp
qed

lemma start_inv_step:
  assumes inv: "start_inv faulty taken ts d" and un: "unstarted ts" and "start_step taken d d'"
  shows "start_inv faulty taken ts d'"
  using assms(3)
proof cases
  case (bind i s r)
  let ?t = "attempt taken (dm_tasks d) r"
  note len = start_inv_length [OF inv]
  have i: "i < length ts" using bind len by simp
  note same = start_inv_starting [OF inv i bind(4)]
  have new: "bound_free taken (Starting r) ?t \<or>
      (\<exists>e. ?t = Ended e) \<and> (fits taken (map (wants \<circ> snd) ts) \<longrightarrow> faulty s)"
    using failed_attempt_unfit [OF inv un i bind(4)]
    by (cases r) (simp_all add: bound_free_def)
  have apart: "\<not> clash a b" if t: "?t = Listening a" and j: "j < length ts" "snd (dm_tasks d ! j) = Listening b" for a b j
  proof -
    have b: "b \<in> set (held (dm_tasks d))" using j len by (auto simp: held_iff)
    obtain ep where "r = Inr ep" using t by (cases r) auto
    then show ?thesis using t b by (auto simp: list_ex_iff split: if_splits)
  qed
  have apart': "\<not> clash b a" if "?t = Listening a" "j < length ts" "snd (dm_tasks d ! j) = Listening b" for a b j
    using apart [OF that] clash_sym by blast
  show ?thesis
    using inv new bind len same apart apart'
    unfolding start_inv_def by (simp add: nth_list_update)
next
  case (server_ends s e)
  obtain i where i: "i < length ts" "dm_tasks d ! i = (s, Ended e)"
    using server_ends(3) start_inv_length [OF inv] by (metis in_set_conv_nth)
  have "fits taken (map (wants \<circ> snd) ts) \<longrightarrow> faulty s"
    using inv i(1)
  proof (cases rule: start_inv_task)
    case same
    then have "map (wants \<circ> snd) ts ! i = Inl e" using i by (simp flip: same)
    then show ?thesis using i(1) fits_wanted [of taken _ i] by (metis length_map sum.distinct(1))
  qed (use i in simp_all)
  then show ?thesis using inv server_ends by (auto simp: start_inv_def)
qed

lemma daemon_step_inv:
  assumes inv: "start_inv faulty taken ts d" and un: "unstarted ts" and "daemon_step taken d d'"
    and f: "faulty TcpProxy"
  shows "start_inv faulty taken ts d'"
  using assms(3)
proof cases
  case start
  then show ?thesis by (rule start_inv_step [OF inv un])
next
  case (accept_error i ep e)
  then have "fst (ts ! i) = TcpProxy" using inv unfolding start_inv_def by (metis fst_conv)
  then show ?thesis using inv accept_error f unfolding start_inv_def by (simp add: nth_list_update)
next
  case shutdown_signal
  then show ?thesis using inv by (simp add: start_inv_def)
qed

lemma start_run_exit: "start_run taken d d' \<Longrightarrow> dm_exit d = None \<Longrightarrow> dm_exit d' \<noteq> Some (Inr ())"
  unfolding start_run_def by (induction rule: rtranclp_induct) (auto elim: start_step.cases)

lemma start_run_inv:
  assumes "start_run taken \<lparr>dm_tasks = ts, dm_exit = None\<rparr> d" and "unstarted ts"
  shows "start_inv faulty taken ts d"
  using assms(1) unfolding start_run_def
  by (induction rule: rtranclp_induct) (auto intro: start_inv_boot start_inv_step assms(2))

lemma start_done_cases:
  assumes "start_done taken d" and "dm_exit d = None" and "i < length (dm_tasks d)"
  obtains s ep where "dm_tasks d ! i = (s, Listening ep)"
proof -
  obtain s t where st: "dm_tasks d ! i = (s, t)" by fastforce
  have "\<not> (\<exists>r. t = Starting r)"
    using assms st start_step.bind unfolding start_done_def by blast
  moreover have "\<not> (\<exists>e. t = Ended e)"
    using assms st start_step.server_ends unfolding start_done_def by (metis nth_mem)
  ultimately show thesis using that st by (cases t) auto
qed

text \<open>Whether a completed start is up does not depend on the order in which the tasks ran.\<close>

lemma start_outcome:
  assumes run: "start_run taken \<lparr>dm_tasks = ts, dm_exit = None\<rparr> d" and un: "unstarted ts"
    and fin: "start_done taken d"
  shows "if fits taken (map (wants \<circ> snd) ts) then dm_exit d = None \<and> dm_tasks d = all_listening ts
    else \<exists>e. dm_exit d = Some (Inl e)"
proof (cases "dm_exit d")
  case (Some x)
  then obtain e where "x = Inl e" using start_run_exit [OF run] by (cases x) auto
  then show ?thesis using start_run_inv [OF run un, of "\<lambda>_. False"] Some by (auto simp: start_inv_def)
next
  case None
  note inv = start_run_inv [OF run un, of "\<lambda>_. False"]
  have listening: "\<exists>ep. dm_tasks d ! i = (fst (ts ! i), Listening ep) \<and> wants (snd (ts ! i)) = Inr ep \<and> \<not> taken ep"
    if i: "i < length ts" for i
  proof -
    obtain s ep where l: "dm_tasks d ! i = (s, Listening ep)"
      using start_done_cases [OF fin None, of i thesis] i start_inv_length [OF inv] by metis
    have "snd (ts ! i) \<noteq> Listening ep" using un i unfolding unstarted_def by blast
    then show ?thesis using l by (cases rule: start_inv_task [OF inv i]) auto
  qed
  have "\<exists>ep. wants (snd (ts ! i)) = Inr ep \<and> \<not> taken ep" if "i < length ts" for i
    using listening [OF that] by blast
  moreover have "\<not> clash (projr (wants (snd (ts ! i)))) (projr (wants (snd (ts ! j))))"
    if ij: "i < length ts" "j < length ts" "i \<noteq> j" for i j
  proof -
    obtain a b where "snd (dm_tasks d ! i) = Listening a" "snd (dm_tasks d ! j) = Listening b"
        "wants (snd (ts ! i)) = Inr a" "wants (snd (ts ! j)) = Inr b"
      using listening [OF ij(1)] listening [OF ij(2)] by auto
    then show ?thesis using ij inv unfolding start_inv_def by (metis sum.sel(2))
  qed
  ultimately have "fits taken (map (wants \<circ> snd) ts)" by (simp add: fits_nth)
  moreover have "dm_tasks d = all_listening ts"
    using listening start_inv_length [OF inv]
    by (intro nth_equalityI) (fastforce simp: all_listening_def split_beta)+
  ultimately show ?thesis using None by simp
qed

text \<open>A start ends: each step starts a task or ends the daemon.\<close>

definition pending :: "daemon \<Rightarrow> nat" where
  "pending d = length (filter (\<lambda>(_, t). case t of Starting _ \<Rightarrow> True | _ \<Rightarrow> False) (dm_tasks d)) +
     (if dm_exit d = None then 1 else 0)"

lemma pending_tasks: "pending d \<le> Suc (length (dm_tasks d))"
  unfolding pending_def
  by (rule order_trans [OF add_mono [OF length_filter_le]]) auto

lemma count_update_less:
  "i < length xs \<Longrightarrow> P (xs ! i) \<Longrightarrow> \<not> P y \<Longrightarrow>
   Suc (length (filter P (xs[i := y]))) = length (filter P xs)"
proof (induction xs arbitrary: i)
  case (Cons x xs)
  then show ?case by (cases i) auto
qed simp

lemma start_step_pending: "start_step taken d d' \<Longrightarrow> pending d' < pending d"
proof (induction rule: start_step.induct)
  case (bind d i s r)
  have "\<not> (case attempt taken (dm_tasks d) r of Starting _ \<Rightarrow> True | _ \<Rightarrow> False)"
    by (cases r) simp_all
  then show ?case
    using bind count_update_less [of i "dm_tasks d"
        "\<lambda>(_, t). case t of Starting _ \<Rightarrow> True | _ \<Rightarrow> False" "(s, attempt taken (dm_tasks d) r)"]
    by (simp add: pending_def)
qed (simp add: pending_def)

lemma start_completes: "\<exists>d'. start_run taken d d' \<and> start_done taken d'"
proof (induction d rule: measure_induct_rule [of pending])
  case (less d)
  show ?case
  proof (cases "start_done taken d")
    case False
    then obtain d1 where "start_step taken d d1" unfolding start_done_def by blast
    then show ?thesis
      using less [OF start_step_pending] unfolding start_run_def
      by (meson converse_rtranclp_into_rtranclp)
  qed (auto simp: start_run_def)
qed

lemma start_step_bound: "(start_step taken ^^ n) d d' \<Longrightarrow> n + pending d' \<le> pending d"
proof (induction n arbitrary: d')
  case (Suc n)
  then obtain d1 where "(start_step taken ^^ n) d d1" "start_step taken d1 d'" by auto
  then show ?case using Suc.IH start_step_pending by fastforce
qed simp

section \<open>The daemon of the code\<close>

lemma unstarted_boot: "unstarted (dm_tasks (daemon_serve yaml docker f))"
proof -
  have "\<forall>t \<in> snd ` set (dm_tasks (daemon_serve yaml docker f)). \<forall>ep. t \<noteq> Listening ep"
    by (auto simp: daemon_serve_def mcp_serve_def ui_serve_def tcp_proxy_serve_def
        udp_proxy_serve_def Let_def split: sum.splits if_splits)
  then show ?thesis unfolding unstarted_def by simp
qed

lemma boot_eta: "\<lparr>dm_tasks = dm_tasks (daemon_serve yaml docker f), dm_exit = None\<rparr> = daemon_serve yaml docker f"
  by (simp add: daemon_serve_def)

lemma boot_run:
  "start_run taken (daemon_serve yaml docker f) d \<Longrightarrow>
   start_run taken \<lparr>dm_tasks = dm_tasks (daemon_serve yaml docker f), dm_exit = None\<rparr> d"
  by (simp add: boot_eta)

lemma boot_inv: "start_inv faulty taken (dm_tasks (daemon_serve yaml docker f)) (daemon_serve yaml docker f)"
  using start_inv_boot [OF unstarted_boot] by (simp add: boot_eta)

lemma held_sorted:
  assumes "\<And>i j a b. i < j \<Longrightarrow> j < length ts \<Longrightarrow> snd (ts ! i) = Listening a \<Longrightarrow>
    snd (ts ! j) = Listening b \<Longrightarrow> \<not> clash a b"
  shows "sorted_wrt (\<lambda>a b. \<not> clash a b) (held ts)"
  using assms
proof (induction ts)
  case (Cons x ts)
  have "\<not> clash a b" if "i < j" "j < length ts" "snd (ts ! i) = Listening a" "snd (ts ! j) = Listening b"
    for i j a b
    by (rule Cons.prems [of "Suc i" "Suc j"]) (use that in simp_all)
  then have rest: "sorted_wrt (\<lambda>a b. \<not> clash a b) (held ts)" by (rule Cons.IH)
  have "\<not> clash a b" if x: "snd x = Listening a" and b: "b \<in> set (held ts)" for a b
  proof -
    obtain j where "j < length ts" "snd (ts ! j) = Listening b" using b by (auto simp: held_iff)
    then show ?thesis using x by (intro Cons.prems [of 0 "Suc j"]) simp_all
  qed
  moreover have "held (x # ts) = (case snd x of Listening ep \<Rightarrow> [ep] | _ \<Rightarrow> []) @ held ts"
    by (simp add: held_def split_beta)
  ultimately show ?case using rest by (cases "snd x") simp_all
qed (simp add: held_def)

lemma held_apart:
  assumes "start_inv faulty taken ts d"
  shows "sorted_wrt (\<lambda>a b. \<not> clash a b) (held (dm_tasks d))"
proof (rule held_sorted)
  fix i j a b
  assume ij: "i < j" "j < length (dm_tasks d)"
    and "snd (dm_tasks d ! i) = Listening a" "snd (dm_tasks d ! j) = Listening b"
  moreover have "i < length ts" "j < length ts" "i \<noteq> j" using ij start_inv_length [OF assms] by simp_all
  ultimately show "\<not> clash a b" using assms unfolding start_inv_def by blast
qed

definition wanted_addresses :: "yaml_parser \<Rightarrow> unit res \<Rightarrow> fs \<Rightarrow> endpoint res list" where
  "wanted_addresses yaml docker f = map (wants \<circ> snd) (dm_tasks (daemon_serve yaml docker f))"

text \<open>The addresses of a start begin with those of the two HTTP servers and go on with the proxy's.\<close>

lemma proxy_address:
  assumes "load_all_defs yaml f = Inr defs" and "i < length (collect_proxy_targets defs)"
    and "fits taken (wanted_addresses yaml docker f)"
  shows "\<exists>ip. wanted_addresses yaml docker f ! (i + 2) =
      Inr (ProtoTcp, ip, px_fixed_port (collect_proxy_targets defs ! i)) \<and>
    resolve_bind (px_bind (collect_proxy_targets defs ! i)) f = Inr ip \<and>
    i + 2 < length (wanted_addresses yaml docker f)"
proof -
  let ?t = "collect_proxy_targets defs ! i"
  have w: "wanted_addresses yaml docker f ! (i + 2) = map_sum id (Pair ProtoTcp) (run_listener ?t f)"
    and len: "i + 2 < length (wanted_addresses yaml docker f)"
    using assms(1,2)
    by (simp_all add: wanted_addresses_def daemon_serve_def mcp_serve_def ui_serve_def
        tcp_proxy_serve_def nth_append)
  obtain ep where "wanted_addresses yaml docker f ! (i + 2) = Inr ep"
    by (rule fits_wanted [OF assms(3) len])
  then show ?thesis using w len
    by (auto simp: run_listener_def listener_address_def split: if_splits sum.splits)
      (cases "resolve_bind (px_bind ?t) f"; simp)+
qed




section \<open>Witnesses\<close>

text \<open>A host without declarations, and one where two services declare the port 2222.\<close>

definition two_ssh_fs :: fs where
  "two_ssh_fs = \<lparr>files = [(SERVICES_DIR @ ''/apps.yml'', ''a''), (SERVICES_DIR @ ''/paseo.yml'', ''p'')],
     dirs = [SERVICES_DIR], denied = (\<lambda>_. False), full = (\<lambda>_. False)\<rparr>"

definition two_ssh_yaml :: yaml_parser where
  "two_ssh_yaml text =
     (if text = ''a'' then Some (apps_def\<lparr>sd_ports := sd_ports ssh_def\<rparr>) else Some ssh_def)"

lemma boot_empty:
  "daemon_serve (\<lambda>_. None) docker empty_fs =
     \<lparr>dm_tasks = [(McpServer, Starting (Inr (ProtoTcp, ''0.0.0.0'', MCP_PORT))),
        (UiServer, Starting (Inr (ProtoTcp, ''127.0.0.1'', UI_PORT)))], dm_exit = None\<rparr>"
  by (simp add: daemon_serve_def mcp_serve_def ui_serve_def tcp_proxy_serve_def udp_proxy_serve_def
      load_all_defs_def SERVICES_DIR_def collect_proxy_targets_def collect_udp_targets_def)

definition mcp_only :: daemon where
  "mcp_only = \<lparr>dm_tasks = [(McpServer, Listening (ProtoTcp, ''0.0.0.0'', MCP_PORT)),
     (UiServer, Starting (Inr (ProtoTcp, ''127.0.0.1'', UI_PORT)))], dm_exit = None\<rparr>"

definition both_up :: daemon where
  "both_up = \<lparr>dm_tasks = [(McpServer, Listening (ProtoTcp, ''0.0.0.0'', MCP_PORT)),
     (UiServer, Listening (ProtoTcp, ''127.0.0.1'', UI_PORT))], dm_exit = None\<rparr>"

lemma bind_to:
  "dm_exit d = None \<Longrightarrow> i < length (dm_tasks d) \<Longrightarrow> dm_tasks d ! i = (s, Starting r) \<Longrightarrow>
   d' = d\<lparr>dm_tasks := (dm_tasks d)[i := (s, attempt taken (dm_tasks d) r)]\<rparr> \<Longrightarrow> start_step taken d d'"
  using start_step.bind by blast

lemma first_bind: "start_step (\<lambda>_. False) (daemon_serve (\<lambda>_. None) docker empty_fs) mcp_only"
  by (rule bind_to [of _ 0 McpServer "Inr (ProtoTcp, ''0.0.0.0'', MCP_PORT)"]) (simp_all add: boot_empty mcp_only_def held_def)

lemma second_bind: "start_step (\<lambda>_. False) mcp_only both_up"
  by (rule bind_to [of _ 1 UiServer "Inr (ProtoTcp, ''127.0.0.1'', UI_PORT)"])
    (simp_all add: mcp_only_def both_up_def held_def clash.simps MCP_PORT_def UI_PORT_def)

lemma both_up_done: "start_done (\<lambda>_. False) both_up"
  unfolding start_done_def
  by (auto elim!: start_step.cases simp: both_up_def less_Suc_eq)


lemma two_ssh_load:
  "load_all_defs two_ssh_yaml two_ssh_fs = Inr [apps_def\<lparr>sd_ports := sd_ports ssh_def\<rparr>, ssh_def]"
  by code_simp



end
