(* ===== verification/Availability.thy ===== *)
theory Availability
  imports Fleet Servers
begin

text \<open>
  What the clients of the host see while operations run: the proxies of the daemon, which look the
  recorded color up for themselves, and the locked operations of \<open>Fleet\<close>, which change it.
\<close>

section \<open>Lookups\<close>

lemma connection_target_port:
  assumes "t \<in> set (collect_proxy_targets defs)" and "connection_target t ip f = Inr (host, port)"
  shows "host = ip \<and> (\<exists>def \<in> set defs. sd_service def = px_service t \<and>
    (\<exists>spec \<in> set (port_binding_specs def (color_of (px_service t) f)).
       bs_host spec = port \<and> bs_container spec = px_container_port t \<and> bs_bind spec = px_bind t))"
proof -
  obtain def p where def: "def \<in> set defs" "p \<in> set (sd_ports def)" "np_protocol p \<noteq> ProtoUdp"
      "px_service t = sd_service def" "px_container_port t = np_container_port p"
      "px_scheme t = sd_port_scheme def" "px_bind t = np_bind p"
    using assms(1) by (auto simp: collect_proxy_targets_def split: option.splits)
  obtain c where c: "read_active (px_service t) f = Inr c"
      "host = ip" "port = host_port (px_scheme t) c (px_container_port t)"
    using assms(2) by (auto simp: connection_target_def split: sum.splits)
  have "color_of (px_service t) f = c" using c(1) by (simp add: color_of_def)
  moreover have "\<lparr>bs_host = port, bs_container = px_container_port t, bs_bind = px_bind t\<rparr>
      \<in> set (port_binding_specs def c)"
    using def c(3) by (force simp: port_binding_specs_def)
  ultimately show ?thesis using def c(2) by force
qed

lemma resolve_server_asks:
  assumes "resolve_server K parse_ip t w = (Inr (ip, port), w')"
  obtains info where "fst (pf_inspect K (container_name (ut_service t) (color_of (ut_service t) (w_fs w))) (w_ext w)) = Inr info"
    "Option.bind (container_ip (ut_network t) info) parse_ip = Some ip" "port = ut_container_port t"
proof -
  show thesis
    using assms that
    by (auto simp: resolve_server_def io_bind_def read_fs_def dk_ask_def dk_call_def io_lift_def io_fail_def io_return_def Let_def
        color_of_def split: sum.splits prod.splits option.splits)
qed

section \<open>Clients during operations\<close>



end
