(* ===== verification/Cli.thy ===== *)
theory Cli
  imports Host Mcp_Apps Mcp_Exec
begin

text \<open>
  The command line of \<^verbatim>\<open>main.rs\<close>: the argument parsers, the dispatch, and the body of every command
  that ends by itself, under the deploy lock where the code takes one. The servers that a command can
  start are a parameter. Printed text is not modelled; \<open>ProcessExit\<close> carries an exit code.
\<close>

section \<open>Arguments\<close>

datatype command =
    Help
  | Version
  | Preflight
  | DeployCmd string string
  | ValidateCmd string string
  | ReloadRoutes
  | SetAppSource string string
  | DiagnoseCmd
  | Serve u16
  | ServeUi u16
  | ServeTcpProxy
  | Daemon
  | BuildCmd string string string string    \<comment> \<open>service, tag, dockerfile, context\<close>
  | DeployPreview string string "string option"
  | CutoverCmd string "string option"
  | CancelPreview string
  | RecreateCmd string
  | McpExecCmd string
  | Unrecognized string

fun flag_value :: "string list \<Rightarrow> string \<Rightarrow> string option" where
  "flag_value (a # b # rest) flag = (if a = flag then Some b else flag_value (b # rest) flag)"
| "flag_value [a] flag = None"
| "flag_value [] flag = None"

definition flag_port :: "string list \<Rightarrow> u16 \<Rightarrow> u16" where
  "flag_port args default_port =
     (case Option.bind (flag_value args ''--port'') parse_u16 of Some p \<Rightarrow> p | None \<Rightarrow> default_port)"

definition default_dockerfile :: "string \<Rightarrow> string option" where
  "default_dockerfile service =
     (if service = ''paseo'' then Some ''containers/paseo/Dockerfile''
      else if service = ''opendesign'' then Some ''containers/opendesign/Dockerfile''
      else if service = ''apps'' then Some ''containers/apps/Dockerfile'' else None)"

definition nth_arg :: "string list \<Rightarrow> nat \<Rightarrow> string \<Rightarrow> string res" where
  "nth_arg args n what = (if n < length args then Inr (args ! n) else Inl (MissingArgument what))"

definition with_args2 :: "string list \<Rightarrow> string \<Rightarrow> (string \<Rightarrow> string \<Rightarrow> command) \<Rightarrow> command res" where
  "with_args2 args what f =
     (case nth_arg args 2 ''service'' of
        Inl e \<Rightarrow> Inl e
      | Inr a \<Rightarrow> map_sum id (f a) (nth_arg args 3 what))"

definition build_command :: "string list \<Rightarrow> string \<Rightarrow> string \<Rightarrow> command" where
  "build_command args service tag =
     BuildCmd service tag
       (case flag_value args ''--dockerfile'' of
          Some d \<Rightarrow> d
        | None \<Rightarrow> (case default_dockerfile service of
                   Some d \<Rightarrow> d | None \<Rightarrow> ''containers/'' @ service @ ''/Dockerfile''))
       (case flag_value args ''--context'' of Some c \<Rightarrow> c | None \<Rightarrow> ''.'')"

text \<open>The arguments include the program name, as \<^verbatim>\<open>std::env::args\<close> does.\<close>

definition parse_cli :: "string list \<Rightarrow> command res" where
  "parse_cli args =
     (if 3 \<le> length args \<and> (args ! 2 = ''--help'' \<or> args ! 2 = ''-h'') then Inr Help
      else if length args < 2 then Inr Help
      else let cmd = args ! 1 in
        if cmd = ''--version'' \<or> cmd = ''-V'' then Inr Version
        else if cmd = ''preflight'' then Inr Preflight
        else if cmd = ''deploy'' then with_args2 args ''sha'' DeployCmd
        else if cmd = ''validate'' then with_args2 args ''sha'' ValidateCmd
        else if cmd = ''reload-routes'' then Inr ReloadRoutes
        else if cmd = ''set-app-source''
        then Inr (SetAppSource (if 2 < length args then args ! 2 else [])
                    (if 3 < length args then args ! 3 else []))
        else if cmd = ''diagnose'' then Inr DiagnoseCmd
        else if cmd = ''serve'' then Inr (Serve (flag_port args MCP_PORT))
        else if cmd = ''serve-ui'' then Inr (ServeUi (flag_port args UI_PORT))
        else if cmd = ''serve-tcp-proxy'' then Inr ServeTcpProxy
        else if cmd = ''daemon'' then Inr Daemon
        else if cmd = ''build'' then with_args2 args ''tag'' (build_command args)
        else if cmd = ''deploy-preview''
        then with_args2 args ''sha'' (\<lambda>s t. DeployPreview s t (flag_value args ''--port''))
        else if cmd = ''cutover''
        then map_sum id (\<lambda>s. CutoverCmd s (flag_value args ''--sha'')) (nth_arg args 2 ''service'')
        else if cmd = ''cancel-preview'' then map_sum id CancelPreview (nth_arg args 2 ''service'')
        else if cmd = ''recreate'' then map_sum id RecreateCmd (nth_arg args 2 ''service'')
        else if cmd = ''mcp-exec'' then map_sum id McpExecCmd (nth_arg args 2 ''subcommand'')
        else Inr (Unrecognized cmd))"

section \<open>Commands\<close>

definition resolve_preview_port :: "service_def \<Rightarrow> u16 res" where
  "resolve_preview_port def =
     (case find (\<lambda>p. np_subdomain p \<noteq> None) (sd_ports def) of
        Some p \<Rightarrow> Inr (np_container_port p)
      | None \<Rightarrow>
          (case sd_port_range def of
             Some r \<Rightarrow> if pr_start r \<le> 8080 \<and> 8080 \<le> pr_end r then Inr 8080
                       else Inl (NoPreviewPort (sd_service def))
           | None \<Rightarrow> Inl (NoPreviewPort (sd_service def))))"

definition preview_port :: "service_def \<Rightarrow> string option \<Rightarrow> u16 res" where
  "preview_port def flag =
     (case flag of
        Some p \<Rightarrow> (case parse_u16 p of Some n \<Rightarrow> Inr n | None \<Rightarrow> Inl (ParseError ''--port must be a number''))
      | None \<Rightarrow> resolve_preview_port def)"

text \<open>Both proxies, regenerated from the current declarations, apps and previews.\<close>

definition reload_proxies :: "'e platform \<Rightarrow> ('e world, unit) io" where
  "reload_proxies K = io_then (apply_all K) (generate_and_reload K)"

definition cli_validate :: "'e platform \<Rightarrow> string \<Rightarrow> string \<Rightarrow> ('e world, unit) io" where
  "cli_validate K service sha =
     io_bind (load_service K service) (\<lambda>def.
     io_then (docker_connect K)
    (io_bind (read_fs (read_active service)) (\<lambda>active. check_deploy K def sha (flip active))))"

definition cli_reload_routes :: "'e platform \<Rightarrow> ('e world, unit) io" where
  "cli_reload_routes K = io_then db_open (io_then (sync_bundles K) (reload_proxies K))"

definition cli_set_app_source :: "'e platform \<Rightarrow> string \<Rightarrow> string \<Rightarrow> ('e world, unit) io" where
  "cli_set_app_source K name source =
     (if name = [] \<or> \<not> (source = ''build'' \<or> source = ''runtime'') then io_fail (ProcessExit 2)
      else io_then db_open
        (io_bind (on_db (set_app_source name source)) (\<lambda>found.
           if found then sync_bundles K else io_fail (ProcessExit 1))))"

definition cli_diagnose :: "'e platform \<Rightarrow> ('e world, unit) io" where
  "cli_diagnose K =
     io_bind (diagnose_run K) (\<lambda>report.
       if dr_all_healthy report then io_return () else io_fail (ProcessExit 1))"

definition cli_build :: "'e platform \<Rightarrow> string \<Rightarrow> string \<Rightarrow> string \<Rightarrow> string \<Rightarrow> ('e world, unit) io" where
  "cli_build K service tag dockerfile ctxt =
     io_bind (io_read (\<lambda>w. path_exists (w_fs w) dockerfile)) (\<lambda>there.
       if \<not> there then io_fail (IoError dockerfile)
       else io_bind (spawn K [''docker'', ''build'', ''-t'', image_ref service tag, ''-f'', dockerfile, ctxt] [])
         (\<lambda>out. case out of
            None \<Rightarrow> io_fail (SpawnError ''failed to spawn docker build'')
          | Some r \<Rightarrow> if so_success r then io_return () else io_fail (CommandFailed ''docker build failed'')))"

definition cli_deploy_preview ::
  "'e platform \<Rightarrow> string \<Rightarrow> string \<Rightarrow> string option \<Rightarrow> ('e world, unit) io" where
  "cli_deploy_preview K service sha port =
     io_bind (load_service K service) (\<lambda>def.
     io_bind (io_lift (preview_port def port)) (\<lambda>container_port.
     io_bind (run_start_inactive K service sha) (\<lambda>inactive.
     io_then db_open
    (io_then (on_db (upsert_preview
         \<lparr>pv_service = service, pv_subdomain = preview_subdomain service,
          pv_host_port = host_port (sd_port_scheme def) inactive container_port, pv_sha = sha,
          pv_color = color_str inactive, pv_created_at = []\<rparr>))
     (reload_proxies K)))))"

definition drop_preview :: "'e platform \<Rightarrow> string \<Rightarrow> ('e world, unit) io" where
  "drop_preview K service =
     io_bind (on_db (delete_preview service)) (\<lambda>was_there. io_when was_there (reload_proxies K))"

definition cli_cutover :: "'e platform \<Rightarrow> string \<Rightarrow> string option \<Rightarrow> ('e world, unit) io" where
  "cli_cutover K service sha_opt =
     io_then db_open
    (io_bind (read_db (\<lambda>d. find_preview d service)) (\<lambda>preview.
     io_then (run_cutover K service sha_opt (map_option pv_sha preview)) (drop_preview K service)))"

definition cli_cancel_preview :: "'e platform \<Rightarrow> string \<Rightarrow> ('e world, unit) io" where
  "cli_cancel_preview K service =
     io_then (run_cancel_inactive K service) (io_then db_open (drop_preview K service))"

definition cli_mcp_exec :: "string \<Rightarrow> ('e world, unit) io" where
  "cli_mcp_exec sub =
     (if sub = ''enable'' then on_fs (set_toggle_at MCP_EXEC_TOGGLE True)
      else if sub = ''disable'' then on_fs (set_toggle_at MCP_EXEC_TOGGLE False)
      else if sub = ''status'' then io_return ()
      else io_fail (MissingArgument sub))"

text \<open>The firewall rule that \<^verbatim>\<open>serve\<close> wants: added unless a check finds it; failures are ignored.\<close>

definition bridge_rule :: "string list \<Rightarrow> u16 \<Rightarrow> string list" where
  "bridge_rule act port =
     ''iptables'' # act @ [''-p'', ''tcp'', ''--dport'', show_u16 port, ''-s'', ''172.16.0.0/12'', ''-j'', ''ACCEPT'']"

definition open_port_for_docker_bridges :: "'e platform \<Rightarrow> u16 \<Rightarrow> ('e world, unit) io" where
  "open_port_for_docker_bridges K port =
     io_bind (spawn K (bridge_rule [''-C'', ''INPUT''] port) []) (\<lambda>out.
       if (case out of Some r \<Rightarrow> so_success r | None \<Rightarrow> False) then io_return ()
       else io_then (spawn K (bridge_rule [''-I'', ''INPUT'', ''1''] port) []) (io_return ()))"

section \<open>Dispatch\<close>

text \<open>A command under the deploy lock of its service; a lock that cannot be taken ends the process.\<close>

definition locked :: "string \<Rightarrow> ('e world, unit) io \<Rightarrow> ('e host, unit) io" where
  "locked service m =
     io_bind (io_try (acquire service)) (\<lambda>lock.
       case lock of
         Inl _ \<Rightarrow> io_fail (ProcessExit 1)
       | Inr path \<Rightarrow> holding path (on_host m))"

fun run_command ::
  "'e platform \<Rightarrow> (command \<Rightarrow> ('e host, unit) io) \<Rightarrow> command \<Rightarrow> ('e host, unit) io" where
  "run_command K srv Help = io_return ()"
| "run_command K srv Version = io_return ()"
| "run_command K srv Preflight = on_host (preflight_run K)"
| "run_command K srv (DeployCmd service sha) = locked service (deploy_run K service sha)"
| "run_command K srv (ValidateCmd service sha) = on_host (cli_validate K service sha)"
| "run_command K srv ReloadRoutes = on_host (cli_reload_routes K)"
| "run_command K srv (SetAppSource name source) = on_host (cli_set_app_source K name source)"
| "run_command K srv DiagnoseCmd = on_host (cli_diagnose K)"
| "run_command K srv (Serve port) =
     io_then (on_host (open_port_for_docker_bridges K port)) (srv (Serve port))"
| "run_command K srv (ServeUi port) = srv (ServeUi port)"
| "run_command K srv ServeTcpProxy = srv ServeTcpProxy"
| "run_command K srv Daemon = srv Daemon"
| "run_command K srv (BuildCmd service tag dockerfile ctxt) = on_host (cli_build K service tag dockerfile ctxt)"
| "run_command K srv (DeployPreview service sha port) = locked service (cli_deploy_preview K service sha port)"
| "run_command K srv (CutoverCmd service sha_opt) = locked service (cli_cutover K service sha_opt)"
| "run_command K srv (CancelPreview service) = locked service (cli_cancel_preview K service)"
| "run_command K srv (RecreateCmd service) =
     io_then (on_host (recreate_active_container K service)) (io_return ())"
| "run_command K srv (McpExecCmd sub) = on_host (cli_mcp_exec sub)"
| "run_command K srv (Unrecognized cmd) = io_fail (ProcessExit 1)"

definition cli_main ::
  "'e platform \<Rightarrow> (command \<Rightarrow> ('e host, unit) io) \<Rightarrow> string list \<Rightarrow> ('e host, unit) io" where
  "cli_main K srv args =
     (case parse_cli args of Inl e \<Rightarrow> io_fail e | Inr cmd \<Rightarrow> run_command K srv cmd)"

lemma no_rollback_command: "run_command K srv cmd h = (r, g) \<Longrightarrow> parse_cli [prog, ''rollback'', service] = Inr cmd \<Longrightarrow>
    service \<noteq> ''--help'' \<Longrightarrow> service \<noteq> ''-h'' \<Longrightarrow> r = Inl (ProcessExit 1) \<and> g = h"
  by (auto simp: parse_cli_def io_fail_def)

end
