(* ===== verification/Cli_Frame.thy ===== *)
theory Cli_Frame
  imports Cli Host_Frames
begin

text \<open>
  The commands that replace no container, against any property of the host that survives operations
  sparing a service: one locale with the property as its parameter, used for the absence of outages
  and for the release record.
\<close>

text \<open>The declarations of the host name their services without slashes.\<close>

definition yaml_names_ok :: "'e platform \<Rightarrow> bool" where
  "yaml_names_ok K \<longleftrightarrow> (\<forall>text d. pf_yaml_service K text = Some d \<longrightarrow> service_ok (sd_service d))"

lemma load_names_ok: "yaml_names_ok K \<Longrightarrow> load_def (pf_yaml_service K) f s = Inr d \<Longrightarrow> service_ok (sd_service d)"
  by (auto simp: load_def_def load_def_at_def yaml_names_ok_def split: sum.splits option.splits)

lemma load_service_keeps:
  assumes "yaml_names_ok K" and "\<And>def. service_ok (sd_service def) \<Longrightarrow> io_keeps P (f def)"
  shows "io_keeps P (io_bind (load_service K service) f)"
  unfolding io_keeps_def
proof (intro allI impI)
  fix w assume w: "P w"
  show "P (snd (io_bind (load_service K service) f w))"
  proof (cases "load_def (pf_yaml_service K) (w_fs w) service")
    case (Inl e)
    with w show ?thesis by (simp add: io_bind_def load_service_def read_fs_def)
  next
    case (Inr d)
    from assms(2) [OF load_names_ok [OF assms(1) Inr]] w have "P (snd (f d w))" by (simp add: io_keeps_def)
    with Inr show ?thesis by (simp add: io_bind_def load_service_def read_fs_def)
  qed
qed

lemma db_names:
  "io_keeps app_names_ok (set_app_source name source)" "io_keeps app_names_ok (upsert_preview p)"
  "io_keeps app_names_ok (delete_preview service)"
  by (auto simp: io_keeps_def set_app_source_def upsert_preview_def delete_preview_def db_guard_def
      app_names_ok_def Let_def)

lemma still_diagnose:
  assumes "docker_laws K up" and "service_ok t"
  shows "still up t (diagnose_run K)"
proof -
  have route: "still up t (\<lambda>w. (build_route_map y r (w_fs w) (w_db w), w))" for y r
    by (simp add: still_def io_keeps_def)
  have insp: "still up t (inspect_container K n)" for n
    unfolding inspect_container_def
    by (intro still_rules still_ext laws_neutral assms(1))
  have svc: "still up t (diagnose_service K previews def)" for previews def
    unfolding diagnose_service_def Let_def by (intro still_rules insp)
  have ss: "still up t (shell_ss K)"
    unfolding shell_ss_def by (intro still_rules still_harmless assms(1)) simp
  show ?thesis
    unfolding diagnose_run_def
    by (intro still_rules still_db_open route svc ss assms(2))
qed

lemma toggle_spared:
  assumes "service_ok t"
  shows "spares_service up t (on_fs (set_toggle_at MCP_EXEC_TOGGLE b))"
proof (rule spared_on_fs)
  fix v
  have p: "MCP_EXEC_TOGGLE \<noteq> state_path t" "MCP_EXEC_TOGGLE \<noteq> sha_path t"
    using arg_cong [of _ _ last] by (auto simp: MCP_EXEC_TOGGLE_def service_ok_paths [OF assms] dest!: arg_cong [of _ _ last])
  have d: "length (parent_dir MCP_EXEC_TOGGLE) \<le> 19" by code_simp
  have w: "io_keeps (\<lambda>f. state_view t f = v) (io_then (create_dir_all (parent_dir MCP_EXEC_TOGGLE))
      (write_text MCP_EXEC_TOGGLE c))" for c
    using mkdir_state_view [OF assms d] write_state_view [OF p]
    by (intro io_keeps_then) (simp_all add: io_keeps_def)
  have r: "io_keeps (\<lambda>f. state_view t f = v) (remove_file MCP_EXEC_TOGGLE)"
    using p by (auto simp: io_keeps_def state_view_def remove_file_def path_exists_def file_at_def delete_conv')
  show "io_keeps (\<lambda>f. state_view t f = v) (set_toggle_at MCP_EXEC_TOGGLE b)"
    using w r unfolding set_toggle_at_def by (simp add: io_keeps_def)
qed

section \<open>The locale\<close>

locale framed_service =
  fixes P :: "'e world \<Rightarrow> bool" and up :: "'e \<Rightarrow> string \<Rightarrow> bool" and t :: string
  assumes frame: "P w \<Longrightarrow> frame_step up t w v \<Longrightarrow> P v"
begin

lemma spared_keeps: "spares_service up t m \<Longrightarrow> io_keeps P m"
  unfolding io_keeps_def using frame [OF _ spares_frame] by blast

lemma still_keeps: "still up t m \<Longrightarrow> io_keeps P m"
  by (intro spared_keeps spared_still)

lemma on_db_keeps: "io_keeps app_names_ok m \<Longrightarrow> io_keeps P (on_db m)"
  by (intro spared_keeps spared_on_db)

lemma reload_proxies_keeps: "docker_laws K up \<Longrightarrow> service_ok t \<Longrightarrow> io_keeps P (reload_proxies K)"
  unfolding reload_proxies_def by (intro io_keeps_then still_keeps still_apply_all still_generate)

lemma db_open_keeps: "service_ok t \<Longrightarrow> io_keeps P db_open"
  by (intro still_keeps still_db_open)

lemma drop_preview_keeps: "docker_laws K up \<Longrightarrow> service_ok t \<Longrightarrow> io_keeps P (drop_preview K service)"
  unfolding drop_preview_def
  by (intro io_keeps_bind io_keeps_when on_db_keeps db_names reload_proxies_keeps)

lemma own_or_other:
  assumes "t = s \<Longrightarrow> io_keeps P m" and "t \<noteq> s \<Longrightarrow> spares_service up t m"
  shows "io_keeps P m"
  using assms spared_keeps by blast

lemma reads_keep:
  assumes "docker_laws K up" and "yaml_names_ok K" and "service_ok t"
  shows "io_keeps P (preflight_run K)"
    "io_keeps P (cli_validate K service sha)"
    "io_keeps P (cli_diagnose K)"
    "io_keeps P (cli_build K service tag dockerfile ctxt)"
    "io_keeps P (cli_mcp_exec sub)"
proof -
  show "io_keeps P (preflight_run K)" by (rule still_keeps [OF still_preflight [OF assms(1)]])
  show "io_keeps P (cli_validate K service sha)"
    unfolding cli_validate_def
    by (intro load_service_keeps [OF assms(2)] io_keeps_bind io_keeps_then world_reads
        still_keeps [OF still_validate [OF assms(1)]])
  show "io_keeps P (cli_diagnose K)"
    unfolding cli_diagnose_def
    by (intro io_keeps_bind io_keeps_if io_keeps_basic still_keeps [OF still_diagnose [OF assms(1,3)]])
  have b: "still up t (cli_build K service tag dockerfile ctxt)"
    unfolding cli_build_def
    by (intro still_rules still_harmless assms(1)) (auto intro: still_rules split: option.split)
  show "io_keeps P (cli_build K service tag dockerfile ctxt)" by (rule still_keeps [OF b])
  show "io_keeps P (cli_mcp_exec sub)"
    unfolding cli_mcp_exec_def by (intro io_keeps_if io_keeps_basic spared_keeps toggle_spared assms(3))
qed

text \<open>The bodies that run under a lock, given that their deployment step keeps the property.\<close>

lemma locked_bodies_keep:
  assumes "docker_laws K up" and "yaml_names_ok K" and "service_ok t"
  shows "io_keeps P (run_start_inactive K service sha) \<Longrightarrow> io_keeps P (cli_deploy_preview K service sha port)"
    "(\<And>preview. io_keeps P (run_cutover K service sha_opt preview)) \<Longrightarrow> io_keeps P (cli_cutover K service sha_opt)"
    "io_keeps P (run_cancel_inactive K service) \<Longrightarrow> io_keeps P (cli_cancel_preview K service)"
  unfolding cli_deploy_preview_def cli_cutover_def cli_cancel_preview_def
  by (intro load_service_keeps [OF assms(2)] io_keeps_bind io_keeps_then io_keeps_basic world_reads
      on_db_keeps db_names db_open_keeps drop_preview_keeps reload_proxies_keeps assms; assumption?)+

end

text \<open>The bundle generator needs the names of the registered apps to be free of slashes.\<close>

locale framed_apps = framed_service +
  assumes names: "P w \<Longrightarrow> app_names_ok (w_db w)"
begin

lemma sync_bundles_keeps:
  assumes "service_ok t"
  shows "io_keeps P (sync_bundles K)"
  unfolding io_keeps_def
proof (intro allI impI)
  fix w assume w: "P w"
  have "io_keeps P (on_fs (sync_s6 (pf_json_env K) (w_db w)))"
    by (intro spared_keeps spared_on_fs sync_s6_state assms names [OF w])
  with w show "P (snd (sync_bundles K w))" by (simp add: io_keeps_def sync_bundles_def)
qed

lemma plain_bodies_keep:
  assumes "docker_laws K up" and "service_ok t"
  shows "io_keeps P (cli_reload_routes K)" "io_keeps P (cli_set_app_source K name source)"
proof -
  show "io_keeps P (cli_reload_routes K)"
    unfolding cli_reload_routes_def
    by (intro io_keeps_then db_open_keeps sync_bundles_keeps reload_proxies_keeps assms)
  show "io_keeps P (cli_set_app_source K name source)"
    unfolding cli_set_app_source_def
    by (intro io_keeps_if io_keeps_then io_keeps_bind io_keeps_basic db_open_keeps sync_bundles_keeps
        on_db_keeps db_names assms)
qed

end

text \<open>An operation that spares every other service keeps the names in the database.\<close>

lemma others_spared_names:
  assumes "\<And>t. service_ok t \<Longrightarrow> t \<noteq> s \<Longrightarrow> spares_service up t m" and "service_ok s"
  shows "io_keeps (\<lambda>w. app_names_ok (w_db w)) m"
proof -
  have "service_ok (CHR ''x'' # s)" "CHR ''x'' # s \<noteq> s" using assms(2) by (simp_all add: service_ok_def)
  with assms(1) show ?thesis unfolding spares_service_def by blast
qed

section \<open>Locked commands\<close>

lemma locked_run:
  assumes "locked service m h = (r, g)"
  obtains (refused) "r = Inl (ProcessExit 1)" "same_host h g" "ho_held g = ho_held h"
    | (ran) h' w where "same_host h h'" "deploy_lock_path service \<notin> set (ho_held h)"
        "ho_held h' = deploy_lock_path service # ho_held h" "m (ho_world h') = (r, w)" "ho_world g = w"
        "r \<noteq> Inl DoesNotReturn \<longrightarrow> ho_held g = ho_held h"
    | (stuck) "r = Inl DoesNotReturn" "same_host h g" "ho_held g = ho_held h"
proof -
  obtain q h' where a: "acquire service h = (q, h')" by force
  from a show thesis
  proof (cases rule: acquire_cases)
    case taken
    have "holding (deploy_lock_path service) (on_host m) h' = (r, g)"
      using assms a taken(1) by (simp add: locked_def io_bind_def io_try_def)
    then obtain g' where g': "on_host m h' = (r, g')" "ho_world g = ho_world g'"
        "r \<noteq> Inl DoesNotReturn \<longrightarrow> ho_held g = remove1 (deploy_lock_path service) (ho_held g')"
      by (rule holding_run)
    from g'(1) obtain w where w: "m (ho_world h') = (r, w)" "g' = h'\<lparr>ho_world := w\<rparr>"
      by (auto simp: on_host_run)
    show ?thesis
      by (rule ran [OF taken(3,5,4) w(1)]) (use g' w taken(4) in simp_all)
  next
    case (refused e)
    then have "(e = DoesNotReturn \<and> r = Inl e \<or> r = Inl (ProcessExit 1)) \<and> g = h'"
      using assms a by (auto simp: locked_def io_bind_def io_try_def io_fail_def split: if_splits)
    with refused that(1,3) show ?thesis by blast
  qed
qed

end
