(* ===== verification/Cli_Session.thy ===== *)
theory Cli_Session
  imports Cli_Frame
begin

text \<open>
  Sequences of commands: no command that promises zero downtime interrupts any service of the host,
  and no command keeps a deploy lock or works on a service whose lock somebody else holds.
\<close>

section \<open>What every command keeps\<close>

definition undisturbed :: "('e \<Rightarrow> string \<Rightarrow> bool) \<Rightarrow> string \<Rightarrow> 'e world \<Rightarrow> bool" where
  "undisturbed up t w \<longleftrightarrow> real_serving up t w \<and> app_names_ok (w_db w)"

interpretation outage: framed_apps "undisturbed up t" up t for up t
proof unfold_locales
  fix w v assume "undisturbed up t w" "frame_step up t w v"
  then show "undisturbed up t v"
    using state_view_color [of t "w_fs v" "w_fs w"] by (simp add: undisturbed_def frame_step_def real_serving_def)
qed (simp add: undisturbed_def)

lemma serving_own_or_other:
  assumes "io_keeps (real_serving up s) m"
    and "\<And>t. service_ok t \<Longrightarrow> t \<noteq> s \<Longrightarrow> spares_service up t m"
    and "service_ok s" and "service_ok t"
  shows "io_keeps (undisturbed up t) m"
proof (rule outage.own_or_other [of t s])
  assume t: "t = s"
  show "io_keeps (undisturbed up t) m"
    unfolding undisturbed_def t by (intro io_keeps_conj assms(1) others_spared_names [OF assms(2,3)])
qed (use assms in blast)

section \<open>Deploys\<close>

lemma serving_live:
  assumes "docker_laws K up" and "service_ok s" and "real_serving up s w"
  shows "real_live up s True (color_of s (w_fs w)) w"
  using assms(3) by (simp add: real_live_def [OF assms(1,2)] real_serving_def)

lemma triple_serving:
  assumes "docker_laws K up" and "service_ok s"
    and "\<And>a. io_triple (real_live up s True a) m (\<lambda>_ w. True \<longrightarrow> real_serving up s w)
      (\<lambda>w. True \<longrightarrow> real_serving up s w)"
  shows "io_keeps (real_serving up s) m"
  unfolding io_keeps_def
proof (intro allI impI)
  fix w assume w: "real_serving up s w"
  obtain r t where m: "m w = (r, t)" by force
  show "real_serving up s (snd (m w))"
    using io_tripleD [OF assms(3) serving_live [OF assms(1,2) w]] m by (cases r) auto
qed

lemma live_triple_serving:
  assumes "docker_laws K up" and "service_ok s"
    and "\<And>a. io_triple (real_live up s True a) m (\<lambda>_. real_live up s True a) (real_live up s True a)"
  shows "io_keeps (real_serving up s) m"
proof (rule triple_serving [OF assms(1,2)])
  fix a
  show "io_triple (real_live up s True a) m (\<lambda>_ w. True \<longrightarrow> real_serving up s w)
      (\<lambda>w. True \<longrightarrow> real_serving up s w)"
    by (rule io_triple_weaken [OF assms(3) [of a]]) (use real_live_serving [OF assms(1,2), of True a] in auto)
qed

lemma deploy_service_serving:
  assumes "docker_laws K up" and "service_ok (sd_service def)"
  shows "io_keeps (real_serving up (sd_service def)) (deploy_service (real_deps K) def sha)"
  unfolding io_keeps_def
  using deploy_host.no_outage [OF real_deps_host [OF assms] refl]
  unfolding real_serving_def' [OF assms] by (metis prod.collapse)

lemma deploy_run_keeps:
  assumes "docker_laws K up" and "yaml_names_ok K" and "service_ok t"
  shows "io_keeps (undisturbed up t) (deploy_run K service sha)"
  unfolding deploy_run_def
  by (intro load_service_keeps [OF assms(2)] io_keeps_then world_reads
      serving_own_or_other [OF deploy_service_serving [OF assms(1)]] deploy_service_spared [OF assms(1)] assms(3)) simp_all

lemma run_cutover_keeps:
  assumes "docker_laws K up" and "yaml_names_ok K" and "service_ok t"
  shows "io_keeps (undisturbed up t) (run_cutover K service sha_opt preview)"
  unfolding run_cutover_alt
  by (intro load_service_keeps [OF assms(2)] io_keeps_then world_reads
      serving_own_or_other [OF triple_serving [OF assms(1) _ cutover_steps_triple [OF assms(1)]]]
      steps_spared [OF assms(1)] assms(3)) simp_all

lemma run_cancel_keeps:
  assumes "docker_laws K up" and "yaml_names_ok K" and "service_ok t"
  shows "io_keeps (undisturbed up t) (run_cancel_inactive K service)"
proof -
  have "run_cancel_inactive K service =
      io_bind (load_service K service) (\<lambda>def. io_then (docker_connect K) (cancel_steps K def))"
    unfolding run_cancel_inactive_def cancel_steps_def ..
  then show ?thesis
    by (simp only:, intro load_service_keeps [OF assms(2)] io_keeps_then world_reads
        serving_own_or_other [OF live_triple_serving [OF assms(1) _ cancel_steps_triple [OF assms(1)]]]
        steps_spared [OF assms(1)] assms(3)) simp_all
qed

lemma run_start_inactive_keeps:
  assumes "docker_laws K up" and "yaml_names_ok K" and "service_ok t"
  shows "io_keeps (undisturbed up t) (run_start_inactive K service sha)"
proof -
  have "run_start_inactive K service sha =
      io_bind (load_service K service) (\<lambda>def. io_then (docker_connect K) (preview_steps K sha def))"
    unfolding run_start_inactive_def preview_steps_def ..
  then show ?thesis
    by (simp only:, intro load_service_keeps [OF assms(2)] io_keeps_then world_reads
        serving_own_or_other [OF live_triple_serving [OF assms(1) _ preview_steps_triple [OF assms(1)]]]
        steps_spared [OF assms(1)] assms(3)) simp_all
qed

section \<open>Sessions\<close>

text \<open>
  The commands that end by themselves and promise to interrupt nothing: all but \<^verbatim>\<open>recreate\<close>, which
  replaces a container in place, and the servers.
\<close>

definition zero_downtime :: "string list \<Rightarrow> bool" where
  "zero_downtime args \<longleftrightarrow>
     (case parse_cli args of
        Inl _ \<Rightarrow> True
      | Inr cmd \<Rightarrow> (case cmd of RecreateCmd _ \<Rightarrow> False | Serve _ \<Rightarrow> False | ServeUi _ \<Rightarrow> False
                     | ServeTcpProxy \<Rightarrow> False | Daemon \<Rightarrow> False | _ \<Rightarrow> True))"

fun cli_session ::
  "'e platform \<Rightarrow> (command \<Rightarrow> ('e host, unit) io) \<Rightarrow> string list list \<Rightarrow> 'e host \<Rightarrow> 'e host" where
  "cli_session K srv [] h = h"
| "cli_session K srv (args # rest) h = cli_session K srv rest (snd (cli_main K srv args h))"

lemma same_host_undisturbed:
  assumes "same_host u v" and "service_ok t" and "undisturbed up t (ho_world u)"
  shows "undisturbed up t (ho_world v)"
proof -
  have "w_db (ho_world v) = w_db (ho_world u)" using assms(1) by (simp add: same_host_def)
  with same_host_serving [OF assms(1,2)] assms(3) show ?thesis by (simp add: undisturbed_def)
qed

lemma locked_keeps:
  fixes m :: "('e world, unit) io"
  assumes "io_keeps (undisturbed up t) m" and "service_ok t"
  shows "io_keeps (\<lambda>h. undisturbed up t (ho_world h)) (locked service m)"
  unfolding io_keeps_def
proof (intro allI impI)
  fix h :: "'e host" assume h: "undisturbed up t (ho_world h)"
  obtain r g where run: "locked service m h = (r, g)" by force
  from run have "undisturbed up t (ho_world g)"
  proof (cases rule: locked_run)
    case (ran h' w)
    from io_keepsD [OF assms(1) same_host_undisturbed [OF ran(1) assms(2) h] ran(4)] ran(5)
    show ?thesis by simp
  qed (use same_host_undisturbed [OF _ assms(2) h] in blast)+
  with run show "undisturbed up t (ho_world (snd (locked service m h)))" by simp
qed

lemma cli_main_keeps:
  assumes "docker_laws K up" and "yaml_names_ok K" and "service_ok t" and "zero_downtime args"
  shows "io_keeps (\<lambda>h. undisturbed up t (ho_world h)) (cli_main K srv args)"
proof (cases "parse_cli args")
  case (Inl e)
  then show ?thesis by (simp add: cli_main_def io_keeps_basic)
next
  case (Inr cmd)
  note keep = outage.reads_keep [OF assms(1-3), THEN on_host_keeps]
      outage.plain_bodies_keep [OF assms(1,3), THEN on_host_keeps]
    and lock = outage.locked_bodies_keep(1) [OF assms(1-3) run_start_inactive_keeps [OF assms(1-3)], THEN locked_keeps]
      outage.locked_bodies_keep(2) [OF assms(1-3) run_cutover_keeps [OF assms(1-3)], THEN locked_keeps]
      outage.locked_bodies_keep(3) [OF assms(1-3) run_cancel_keeps [OF assms(1-3)], THEN locked_keeps]
  have "io_keeps (\<lambda>h. undisturbed up t (ho_world h)) (run_command K srv cmd)"
    using assms(4) keep lock locked_keeps [OF deploy_run_keeps [OF assms(1-3)]] assms(3)
    by (cases cmd) (simp_all add: zero_downtime_def Inr io_keeps_basic)
  with Inr show ?thesis by (simp add: cli_main_def)
qed

section \<open>Correctness\<close>

text \<open>
  C2: No sequence of commands interrupts a service. Whatever is deployed, previewed, cut over,
  cancelled, validated, built or reloaded, in whatever order, with whatever arguments and failures:
  every service whose recorded color was running at the start has its recorded color running at the
  end, the deployed ones and all others. Only \<^verbatim>\<open>recreate\<close> and the servers are left out.
\<close>

theorem cli_session_no_outage:
  assumes "docker_laws K up" and "yaml_names_ok K" and "app_names_ok (w_db (ho_world h))"
    and "\<forall>args \<in> set session. zero_downtime args" and "service_ok t" and "real_serving up t (ho_world h)"
  shows "real_serving up t (ho_world (cli_session K srv session h))"
proof -
  have "undisturbed up t (ho_world (cli_session K srv session h))"
    if "undisturbed up t (ho_world h)" "\<forall>args \<in> set session. zero_downtime args" for h
    using that
  proof (induction session arbitrary: h)
    case (Cons args rest)
    have "undisturbed up t (ho_world (snd (cli_main K srv args h)))"
      using cli_main_keeps [OF assms(1,2,5), of args srv] Cons.prems by (simp add: io_keeps_def)
    with Cons show ?case by simp
  qed simp
  with assms(3,4,6) show ?thesis by (simp add: undisturbed_def)
qed

text \<open>
  C10: The commands that change what a service runs obey the deploy lock: while another process holds
  the lock of the service they exit with code 1 and change neither containers, nor database, nor any
  recorded state; and when they return, whatever the outcome, no lock is held that was not held before.
\<close>

theorem cli_lock_discipline:
  assumes "parse_cli args = Inr cmd"
    and "cmd \<in> {DeployCmd service sha, DeployPreview service sha port, CutoverCmd service sha_opt,
      CancelPreview service}"
    and "cli_main K srv args h = (r, g)" and "r \<noteq> Inl DoesNotReturn"
  shows "ho_held g = ho_held h \<and>
    (deploy_lock_path service \<in> set (ho_held h) \<longrightarrow>
       r = Inl (ProcessExit 1) \<and> w_ext (ho_world g) = w_ext (ho_world h) \<and>
       w_db (ho_world g) = w_db (ho_world h) \<and>
       (\<forall>t. service_ok t \<longrightarrow> read_active_sha t (w_fs (ho_world g)) = read_active_sha t (w_fs (ho_world h)) \<and>
          color_of t (w_fs (ho_world g)) = color_of t (w_fs (ho_world h))))"
proof -
  obtain m where "locked service m h = (r, g)"
    using assms(1-3) by (auto simp: cli_main_def)
  then show ?thesis
  proof (cases rule: locked_run)
    case refused
    then have "\<And>t. service_ok t \<Longrightarrow> state_view t (w_fs (ho_world g)) = state_view t (w_fs (ho_world h))"
      by (simp add: same_host_def)
    with refused state_view_color state_view_sha show ?thesis unfolding same_host_def by blast
  qed (use assms(4) in auto)
qed

text \<open>A host with one declared service and its blue container, and a session of several commands.\<close>

definition en_host :: "engine host" where
  "en_host = \<lparr>ho_world = en_world, ho_held = [], ho_nolock = False\<rparr>"

definition no_server :: "command \<Rightarrow> ('e host, unit) io" where
  "no_server cmd = io_fail DoesNotReturn"

definition sample_session :: "string list list" where
  "sample_session =
     [[''codery-ci'', ''deploy-preview'', ''paseo'', ''new''], [''codery-ci'', ''cutover'', ''paseo''],
      [''codery-ci'', ''deploy'', ''paseo'', ''old''], [''codery-ci'', ''reload-routes'']]"

lemma en_names: "yaml_names_ok en_platform" "app_names_ok (w_db en_world)"
proof -
  have "service_ok (sd_service apps_def)" by code_simp
  with paseo_ok(1) show "yaml_names_ok en_platform" by (auto simp: yaml_names_ok_def en_platform_def)
  show "app_names_ok (w_db en_world)" unfolding app_names_ok_def by code_simp
qed

lemma cli_session_no_outage_witness:
  "real_serving en_up ''paseo'' (ho_world (cli_session en_platform no_server sample_session en_host))"
proof -
  have z: "\<forall>args \<in> set sample_session. zero_downtime args" by code_simp
  have s: "real_serving en_up ''paseo'' (ho_world en_host)" by code_simp
  have n: "app_names_ok (w_db (ho_world en_host))" using en_names(2) by (simp add: en_host_def)
  show ?thesis
    using cli_session_no_outage [OF en_docker_laws en_names(1) n z _ s] paseo_ok by simp
qed

lemma cli_lock_discipline_witness:
  "\<exists>r g. cli_main en_platform no_server [''codery-ci'', ''deploy'', ''paseo'', ''new'']
      (en_host\<lparr>ho_held := [deploy_lock_path ''paseo'']\<rparr>) = (r, g) \<and>
     r = Inl (ProcessExit 1) \<and> ho_held g = [deploy_lock_path ''paseo''] \<and> w_ext (ho_world g) = w_ext en_world"
proof -
  let ?h = "en_host\<lparr>ho_held := [deploy_lock_path ''paseo'']\<rparr>"
    and ?args = "[''codery-ci'', ''deploy'', ''paseo'', ''new'']"
  obtain r g where run: "cli_main en_platform no_server ?args ?h = (r, g)" by force
  have "fst (cli_main en_platform no_server ?args ?h) = Inl (ProcessExit 1)" by code_simp
  then have r: "r \<noteq> Inl DoesNotReturn" using run by auto
  have p: "parse_cli ?args = Inr (DeployCmd ''paseo'' ''new'')" by code_simp
  from cli_lock_discipline [OF p _ run r] show ?thesis using run by (auto simp: en_host_def)
qed

end
