(* ===== verification/Cli_Preview.thy ===== *)
theory Cli_Preview
  imports Cli_Session
begin

text \<open>The life of a preview on the command line: what \<^verbatim>\<open>deploy-preview\<close> registers and what ends it.\<close>

section \<open>Successful steps\<close>

lemma still_db: "still up t m \<Longrightarrow> m w = (r, v) \<Longrightarrow> w_db v = w_db w"
  using stillD(3) [of up t m w] by simp

lemma reload_proxies_db:
  assumes "docker_laws K up" and "reload_proxies K w = (r, v)"
  shows "w_db v = w_db w"
proof -
  have ok: "service_ok []" by (simp add: service_ok_def)
  have "still up [] (reload_proxies K)"
    unfolding reload_proxies_def by (intro still_then still_apply_all still_generate assms(1) ok)
  from still_db [OF this assms(2)] show ?thesis .
qed

lemma db_open_rows: "db_open w = (r, v) \<Longrightarrow> w_db v = w_db w"
  by (auto simp: db_open_def io_then_split on_fs_def split: prod.splits if_splits)

lemma check_deploy_udp: "check_deploy K def sha c w = (Inr u, t) \<Longrightarrow> check_udp def = []"
  by (auto simp: check_deploy_def io_Inr_iffs Let_def split: if_splits)

lemma on_db_Inr: "on_db m w = (Inr a, t) \<longleftrightarrow> (\<exists>d. m (w_db w) = (Inr a, d) \<and> t = w\<lparr>w_db := d\<rparr>)"
  by (auto simp: on_db_def split: prod.splits)

lemma upsert_preview_found:
  assumes "upsert_preview p d = (Inr (), d')"
  shows "\<exists>q. find (\<lambda>r. pv_service r = pv_service p) (db_previews d') = Some q \<and> \<not> db_down d' \<and>
    q = p\<lparr>pv_created_at := pv_created_at q\<rparr>"
proof -
  let ?s = "pv_service p"
  have put: "\<exists>q. find (\<lambda>r. pv_service r = ?s)
      (map (\<lambda>q. if pv_service q = ?s then p\<lparr>pv_created_at := pv_created_at q\<rparr> else q) ps) = Some q \<and>
      q = p\<lparr>pv_created_at := pv_created_at q\<rparr>"
    if "\<exists>q \<in> set ps. pv_service q = ?s" for ps
    using that by (induction ps) auto
  have add: "find (\<lambda>r. pv_service r = ?s) (ps @ [x]) = Some x"
    if "\<not> (\<exists>q \<in> set ps. pv_service q = ?s)" "pv_service x = ?s" for ps x
    using that by (induction ps) auto
  show ?thesis
  proof (cases "\<exists>q \<in> set (db_previews d). pv_service q = ?s")
    case True
    with assms put [OF True] show ?thesis
      by (auto simp: upsert_preview_def db_guard_def split: if_splits)
  next
    case False
    with assms add [OF False] show ?thesis
      by (auto simp: upsert_preview_def db_guard_def split: if_splits)
  qed
qed

lemma find_filter: "find P xs = (case filter P xs of [] \<Rightarrow> None | x # _ \<Rightarrow> Some x)"
  by (induction xs) auto

lemma find_preview_alt:
  "find_preview d s = (if db_down d then Inl (IoError ''list previews'')
     else Inr (find (\<lambda>p. pv_service p = s) (db_previews d)))"
  by (simp add: find_preview_def list_previews_def find_filter sort_key_stable)

lemma resolved_port_published:
  assumes "resolve_preview_port def = Inr port" and "check_udp def = []"
  shows "(host_port (sd_port_scheme def) c port, port) \<in> set (port_mappings def c)"
proof -
  consider (named) q where "find (\<lambda>p. np_subdomain p \<noteq> None) (sd_ports def) = Some q" "port = np_container_port q"
    | (range) r where "sd_port_range def = Some r" "pr_start r \<le> 8080" "8080 \<le> pr_end r" "port = 8080"
    using assms(1) by (auto simp: resolve_preview_port_def split: option.splits if_splits)
  then show ?thesis
  proof cases
    case named
    then have q: "q \<in> set (sd_ports def)" "np_subdomain q \<noteq> None"
      by (auto simp: find_Some_iff)
    have "check_udp_port q = []" using assms(2) q(1) by (simp add: check_udp_def)
    then have "np_protocol q \<noteq> ProtoUdp"
      using q(2) by (auto simp: check_udp_port_def split: if_splits)
    with q(1) have "\<lparr>bs_host = host_port (sd_port_scheme def) c (np_container_port q),
        bs_container = np_container_port q, bs_bind = np_bind q\<rparr> \<in> set (port_binding_specs def c)"
      by (auto simp: port_binding_specs_def)
    then show ?thesis unfolding port_mappings_def set_map by (rule rev_image_eqI) (simp add: named(2))
  next
    case range
    have "unat (8080 :: u16) = 8080" by simp
    then have "8080 \<in> {unat (pr_start r)..<Suc (unat (pr_end r))}"
      using range(2,3) by (simp add: word_le_nat_alt)
    then have "\<lparr>bs_host = host_port (sd_port_scheme def) c (of_nat 8080), bs_container = of_nat 8080,
        bs_bind = pr_bind r\<rparr> \<in> set (port_binding_specs def c)"
      unfolding port_binding_specs_def set_append range(1) option.case set_map set_upt
      by (intro UnI2) (erule rev_image_eqI, rule refl)
    then show ?thesis unfolding port_mappings_def set_map by (rule rev_image_eqI) (simp add: range(4))
  qed
qed

lemma preview_steps_staged:
  assumes "docker_laws K up" and "service_ok (sd_service def)" and "preview_steps K sha def w = (Inr c, t)"
  shows "color_of (sd_service def) (w_fs t) = color_of (sd_service def) (w_fs w)"
    "c = flip (color_of (sd_service def) (w_fs w))" "check_udp def = []"
proof -
  let ?s = "sd_service def" and ?a = "color_of (sd_service def) (w_fs w)"
  have live: "real_live up ?s False ?a w" by (simp add: real_live_def [OF assms(1,2)])
  show "color_of ?s (w_fs t) = ?a"
    using io_tripleD(1) [OF preview_steps_triple [OF assms(1,2)] live assms(3)]
    by (simp add: real_live_def [OF assms(1,2)])
  obtain v1 v2 v3 a where "preflight_run K w = (Inr (), v1)" "ensure_network K (sd_network def) v1 = (Inr (), v2)"
      "read_fs (read_active ?s) v2 = (Inr a, v3)" "c = flip a"
    using assms(3) by (auto simp: preview_steps_def io_Inr_iffs real_ops)
  then show "c = flip ?a"
    using stillD(2) [OF still_preflight [OF assms(1)], of ?s w]
      stillD(2) [OF still_ensure_network [OF assms(1)], of ?s "sd_network def" v1]
      state_view_color [of ?s] color_of_Inr by (metis read_fs_run snd_conv)
  show "check_udp def = []"
    using assms(3) by (auto simp: preview_steps_def start_inactive_def io_Inr_iffs real_ops dest: check_deploy_udp)
qed

lemma publishing_keeps_color:
  assumes "docker_laws K up" and "service_ok s" and "db_open w = (q, v)" and "reload_proxies K (v\<lparr>w_db := d\<rparr>) = (r, t)"
  shows "color_of s (w_fs t) = color_of s (w_fs w)"
proof (rule state_view_color)
  have "still up s (reload_proxies K)"
    unfolding reload_proxies_def by (intro still_then still_apply_all still_generate assms(1,2))
  from stillD(2) [OF this, of "v\<lparr>w_db := d\<rparr>"] assms(4) have "state_view s (w_fs t) = state_view s (w_fs v)" by simp
  also have "\<dots> = state_view s (w_fs w)" using stillD(2) [OF still_db_open [OF assms(2)], where w = w] assms(3) by simp
  finally show "state_view s (w_fs t) = state_view s (w_fs w)" .
qed

section \<open>Correctness\<close>


text \<open>
  A successful cutover, and a successful cancel-preview, leave no preview of the service registered.
\<close>

theorem preview_ends:
  assumes "docker_laws K up"
    and "cli_cutover K service sha_opt w = (Inr (), t) \<or> cli_cancel_preview K service w = (Inr (), t)"
  shows "find_preview (w_db t) service = Inr None \<and>
    (\<forall>p \<in> set (db_previews (w_db t)). pv_service p \<noteq> service)"
proof -
  obtain v where d: "drop_preview K service v = (Inr (), t)"
    using assms(2) by (auto simp: cli_cutover_def cli_cancel_preview_def io_Inr_iffs)
  then obtain b e where e: "delete_preview service (w_db v) = (Inr b, e)"
    and r: "io_when b (reload_proxies K) (v\<lparr>w_db := e\<rparr>) = (Inr (), t)"
    by (auto simp: drop_preview_def io_Inr_iffs on_db_Inr)
  have "w_db t = e"
    using r reload_proxies_db [OF assms(1)] by (cases b) (force simp: io_when_def io_return_def)+
  moreover have "\<not> db_down e" "\<forall>p \<in> set (db_previews e). pv_service p \<noteq> service"
    using e by (auto simp: delete_preview_def db_guard_def split: if_splits)
  ultimately show ?thesis by (auto simp: find_preview_alt find_None_iff)
qed


lemma preview_ends_witness:
  "\<exists>t. cli_cancel_preview en_platform ''paseo''
      (snd (cli_deploy_preview en_platform ''paseo'' ''new'' None en_world)) = (Inr (), t) \<and>
    find_preview (w_db t) ''paseo'' = Inr None"
proof -
  let ?w = "snd (cli_deploy_preview en_platform ''paseo'' ''new'' None en_world)"
  obtain r t where run: "cli_cancel_preview en_platform ''paseo'' ?w = (r, t)" by force
  have "fst (cli_cancel_preview en_platform ''paseo'' ?w) = Inr ()" by code_simp
  with run have "cli_cancel_preview en_platform ''paseo'' ?w = (Inr (), t)" by simp
  with preview_ends [OF en_docker_laws, where service = "''paseo''" and w = ?w and t = t] show ?thesis by blast
qed

end
