(* ===== verification/Release.thy ===== *)
theory Release
  imports Cli_Session
begin

text \<open>
  The record of a service (color and tag) as an abstract release machine, and the commands of the
  orchestrator as its steps: most leave every record alone, \<^verbatim>\<open>deploy\<close> and \<^verbatim>\<open>cutover\<close> switch the color of
  one service and set its tag, and a failure in between can only leave the switch with the old tag or
  with none.
\<close>

section \<open>The abstract machine\<close>

type_synonym release_state = "color \<times> string option"

definition switched :: "string \<Rightarrow> release_state \<Rightarrow> release_state \<Rightarrow> bool" where
  "switched sha v u \<longleftrightarrow> fst u = flip (fst v) \<and> (clean_sha sha \<longrightarrow> snd u = Some sha)"

definition torn :: "string \<Rightarrow> release_state \<Rightarrow> release_state \<Rightarrow> bool" where
  "torn sha v u \<longleftrightarrow>
     u = v \<or> fst u = flip (fst v) \<and> (clean_sha sha \<longrightarrow> snd u \<in> {snd v, None, Some sha})"

text \<open>What a command may do to the record of the service it is about, by whether it succeeded.\<close>

definition release_spec :: "command \<Rightarrow> bool \<Rightarrow> release_state \<Rightarrow> release_state \<Rightarrow> bool" where
  "release_spec cmd ok v u \<longleftrightarrow>
     (case cmd of
        DeployCmd _ sha \<Rightarrow> if ok then switched sha v u \<or> u = v \<and> snd v = Some sha else torn sha v u
      | CutoverCmd _ sha_opt \<Rightarrow>
          (case sha_opt of
             Some sha \<Rightarrow> if ok then switched sha v u else torn sha v u
           | None \<Rightarrow> u = v \<or> fst u = flip (fst v))
      | _ \<Rightarrow> u = v)"

definition about :: "'e platform \<Rightarrow> fs \<Rightarrow> command \<Rightarrow> string \<Rightarrow> bool" where
  "about K f cmd t \<longleftrightarrow>
     (case cmd of
        DeployCmd service _ \<Rightarrow> map_sum id sd_service (load_def (pf_yaml_service K) f service) = Inr t
      | CutoverCmd service _ \<Rightarrow> map_sum id sd_service (load_def (pf_yaml_service K) f service) = Inr t
      | _ \<Rightarrow> False)"

definition release :: "string \<Rightarrow> 'e world \<Rightarrow> release_state" where
  "release t w = (color_of t (w_fs w), read_active_sha t (w_fs w))"

lemma torn_cases: "torn sha v v" "switched sha v u \<Longrightarrow> torn sha v u"
  by (auto simp: torn_def switched_def)

section \<open>Operations that keep a record\<close>

lemma state_view_release: "state_view t (w_fs w) = state_view t (w_fs v) \<Longrightarrow> release t w = release t v"
  using state_view_color [of t "w_fs w" "w_fs v"] state_view_sha [of t "w_fs w" "w_fs v"]
  by (simp add: release_def)

lemma frame_release: "frame_step up t w v \<Longrightarrow> release t v = release t w"
  unfolding frame_step_def using state_view_release by blast

interpretation record_frame: framed_service "\<lambda>w. release t w = x" up t for up t x
proof unfold_locales
  fix w v assume "release t w = x" "frame_step up t w v"
  then show "release t v = x" using frame_release by metis
qed

interpretation record_apps: framed_apps "\<lambda>w. release t w = x \<and> app_names_ok (w_db w)" up t for up t x
proof unfold_locales
  fix w v assume w: "release t w = x \<and> app_names_ok (w_db w)" "frame_step up t w v"
  from w(2) have "app_names_ok (w_db w) \<longrightarrow> app_names_ok (w_db v)" by (simp add: frame_step_def)
  with w frame_release [OF w(2)] show "release t v = x \<and> app_names_ok (w_db v)" by simp
qed blast

lemma touches_record: "touches up t n m \<Longrightarrow> io_keeps (\<lambda>w. release t w = v) m"
proof -
  assume "touches up t n m"
  then have "io_keeps (\<lambda>w. state_view t (w_fs w) = x) m" for x unfolding touches_def by blast
  then show ?thesis unfolding io_keeps_def using state_view_release by metis
qed

lemma recreate_record:
  assumes "docker_laws K up" and "yaml_names_ok K" and "service_ok t"
  shows "io_keeps (\<lambda>w. release t w = v) (recreate_active_container K service)"
proof -
  have still: "io_keeps (\<lambda>w. release t w = v) (apply_all K)"
    by (rule record_frame.still_keeps [OF still_apply_all [OF assms(1,3)]])
  show ?thesis
    unfolding recreate_active_container_def
    by (intro load_service_keeps [OF assms(2)] io_keeps_bind io_keeps_basic)
      (auto split: option.split intro!: io_keeps_then io_keeps_basic world_reads still
        touches_record [OF touches_remove [OF assms(1)]] touches_record [OF touches_start [OF assms(1)]])
qed

section \<open>Deploys of the service itself\<close>

lemma real_recorded:
  fixes K :: "'e platform" and w :: "'e world"
  assumes "docker_laws K up" and "service_ok s"
  shows "deploy_host.recorded (\<lambda>w. color_of s (w_fs w)) (\<lambda>w. read_active_sha s (w_fs w)) a h w \<longleftrightarrow> release s w = (a, h)"
    "deploy_host.released (\<lambda>w. color_of s (w_fs w)) (\<lambda>w. read_active_sha s (w_fs w)) sha a w \<longleftrightarrow>
      switched sha (a, h) (release s w)"
    "deploy_host.half_way (\<lambda>w. color_of s (w_fs w)) (\<lambda>w. read_active_sha s (w_fs w)) sha a h w \<longleftrightarrow>
      torn sha (a, h) (release s w)"
proof -
  note host = real_deps_host [OF assms]
  show "deploy_host.recorded (\<lambda>w. color_of s (w_fs w)) (\<lambda>w. read_active_sha s (w_fs w)) a h w \<longleftrightarrow> release s w = (a, h)"
    unfolding deploy_host.recorded_def [OF host] release_def by simp
  show "deploy_host.released (\<lambda>w. color_of s (w_fs w)) (\<lambda>w. read_active_sha s (w_fs w)) sha a w \<longleftrightarrow>
      switched sha (a, h) (release s w)"
    unfolding deploy_host.released_def [OF host] release_def switched_def by simp
  show "deploy_host.half_way (\<lambda>w. color_of s (w_fs w)) (\<lambda>w. read_active_sha s (w_fs w)) sha a h w \<longleftrightarrow>
      torn sha (a, h) (release s w)"
    unfolding deploy_host.half_way_def [OF host] deploy_host.recorded_def [OF host] release_def torn_def by simp
qed

lemma deploy_service_record:
  assumes "docker_laws K up" and "service_ok (sd_service def)"
  shows "io_triple (\<lambda>w. release (sd_service def) w = v) (deploy_service (real_deps K) def sha)
    (\<lambda>_ w. release_spec (DeployCmd s sha) True v (release (sd_service def) w))
    (\<lambda>w. release_spec (DeployCmd s sha) False v (release (sd_service def) w))"
proof -
  obtain a h where v: "v = (a, h)" by force
  note r = real_recorded [OF assms]
  show ?thesis
    unfolding v
    by (rule io_triple_weaken [OF deploy_host.deploy_service_released [OF real_deps_host [OF assms] refl]])
      (auto simp: r(1,3) r(2) [where h = h] release_spec_def)
qed

lemma cutover_record:
  assumes "docker_laws K up" and "service_ok (sd_service def)"
  shows "io_triple (\<lambda>w. release (sd_service def) w = v) (cutover (real_deps K) def sha (fst v) (flip (fst v)))
    (\<lambda>_ w. switched sha v (release (sd_service def) w)) (\<lambda>w. torn sha v (release (sd_service def) w))"
proof -
  obtain a h where v: "v = (a, h)" by force
  note r = real_recorded [OF assms]
  show ?thesis
    unfolding v fst_conv
    by (rule io_triple_weaken [OF deploy_host.cutover_released [OF real_deps_host [OF assms] refl]])
      (auto simp: r(1,3) r(2) [where h = h])
qed

lemma start_inactive_record:
  assumes "docker_laws K up" and "service_ok (sd_service def)"
  shows "io_keeps (\<lambda>w. release (sd_service def) w = v) (start_inactive (real_deps K) def sha c)"
proof -
  obtain a h where v: "v = (a, h)" by force
  show ?thesis
    using deploy_host.start_inactive_recorded [OF real_deps_host [OF assms] refl, of a h]
    unfolding real_recorded(1) [OF assms] v .
qed

text \<open>Every read in between leaves the record alone, so a staged cutover is the cutover of its plan.\<close>

definition plan_spec :: "cutover_plan \<Rightarrow> bool \<Rightarrow> release_state \<Rightarrow> release_state \<Rightarrow> bool" where
  "plan_spec plan ok v u \<longleftrightarrow>
     (case plan of Promote sha _ \<Rightarrow> if ok then switched sha v u else torn sha v u | _ \<Rightarrow> u = v)"

lemma plan_spec_refl: "plan_spec plan False v v"
  by (cases plan) (simp_all add: plan_spec_def torn_cases)

lemma keeps_fails: "io_keeps P m \<Longrightarrow> (\<And>w. P w \<Longrightarrow> E w) \<Longrightarrow> io_triple P m (\<lambda>_. P) E"
  by (auto simp: io_keeps_iff_triple elim: io_triple_weaken)

lemma execute_plan_record:
  assumes "docker_laws K up" and "service_ok (sd_service def)"
  shows "io_triple (\<lambda>w. release (sd_service def) w = v) (execute_plan K def service (fst v) plan)
    (\<lambda>_ w. plan_spec plan True v (release (sd_service def) w))
    (\<lambda>w. plan_spec plan False v (release (sd_service def) w))"
proof -
  let ?P = "\<lambda>w. release (sd_service def) w = v"
  have runs: "io_keeps ?P (container_runs_image K def c sha)" for c sha
    by (rule record_frame.still_keeps [OF still_runs_image [OF assms(1)]])
  show ?thesis
  proof (cases plan)
    case (Promote sha staged)
    have start: "io_keeps ?P (io_when b (start_inactive (real_deps K) def sha (flip (fst v))))" for b
      by (intro io_keeps_when start_inactive_record [OF assms])
    show ?thesis
      unfolding execute_plan_def Let_def Promote cutover_plan.case plan_spec_def
      by (auto intro!: cutover_record [OF assms] io_triple_bind [OF keeps_fails [OF runs]]
          io_triple_then [OF keeps_fails [OF start]] torn_cases)
  qed (simp_all add: execute_plan_def plan_spec_def io_triple_def io_return_def io_fail_def)
qed

lemma read_active_record:
  "io_triple (\<lambda>w. release svc w = v) (dd_read_active (real_deps K) svc) (\<lambda>c w. release svc w = v \<and> c = fst v)
    (\<lambda>w. release svc w = v)"
  unfolding real_ops io_triple_iff by (auto simp: read_fs_run release_def dest: color_of_Inr [OF sym])

lemma cutover_plan_record:
  assumes "docker_laws K up" and "service_ok (sd_service def)"
  shows "io_triple (\<lambda>w. release (sd_service def) w = v) (cutover_steps K service sha_opt preview def)
    (\<lambda>_ w. release_spec (CutoverCmd s sha_opt) True v (release (sd_service def) w))
    (\<lambda>w. release_spec (CutoverCmd s sha_opt) False v (release (sd_service def) w))"
proof -
  let ?P = "\<lambda>w. release (sd_service def) w = v" and ?E = "\<lambda>w. release_spec (CutoverCmd s sha_opt) False v (release (sd_service def) w)"
  have refl: "release_spec (CutoverCmd s sha_opt) False v v"
    by (simp add: release_spec_def torn_cases split: option.split)
  then have E: "?P w \<Longrightarrow> ?E w" for w by simp
  note still = keeps_fails [OF record_frame.still_keeps [where x = v and t = "sd_service def"] E]
  have spec: "plan_spec (plan_cutover sha_opt preview b newest tag) ok v u \<Longrightarrow> release_spec (CutoverCmd s sha_opt) ok v u"
    for b newest tag ok u
    by (auto simp: plan_spec_def release_spec_def plan_cutover_def torn_def switched_def
        split: option.splits if_splits)
  have plan: "io_triple ?P (execute_plan K def service (fst v) (plan_cutover sha_opt preview b newest tag))
      (\<lambda>_ w. release_spec (CutoverCmd s sha_opt) True v (release (sd_service def) w)) ?E" for b newest tag
    by (rule io_triple_weaken [OF execute_plan_record [OF assms]]) (use spec in blast)+
  have pre: "still up (sd_service def)
      (case preview of Some p \<Rightarrow> container_runs_image K def c p | None \<Rightarrow> io_return False)" for c
    using still_runs_image [OF assms(1)] still_basic(1) by (cases preview) simp_all
  have read: "io_triple ?P (dd_read_active (real_deps K) (sd_service def)) (\<lambda>c w. ?P w \<and> c = fst v) ?E"
    by (rule io_triple_weaken [OF read_active_record]) (use E in auto)
  show ?thesis
    unfolding cutover_steps_def
    by (intro io_triple_bind [OF read] triple_given_color io_triple_bind [OF still [OF pre]]
        io_triple_bind [OF still [OF still_list_local [OF assms(1)]]]
        io_triple_bind [OF still [OF still_image_tag [OF assms(1)]]])
      (simp_all add: plan)
qed

lemma own_steps_record:
  assumes "docker_laws K up" and "service_ok (sd_service def)"
  shows "io_keeps (\<lambda>w. release (sd_service def) w = v) (cancel_steps K def)"
    "io_keeps (\<lambda>w. release (sd_service def) w = v) (preview_steps K sha def)"
proof -
  obtain a h where v: "v = (a, h)" by force
  note host = real_deps_host [OF assms]
  note quiet = deploy_host.quiet_recorded [OF host, of _ a h, unfolded real_recorded(1) [OF assms]]
    and local = deploy_host.local_recorded [OF host, of _ _ a h, unfolded real_recorded(1) [OF assms]]
  show "io_keeps (\<lambda>w. release (sd_service def) w = v) (cancel_steps K def)"
    unfolding cancel_steps_def Let_def v
    by (intro io_keeps_bind io_keeps_then local [OF deploy_host.stop_local [OF host]]
        local [OF deploy_host.remove_local [OF host]] quiet [OF deploy_host.quiet_prune [OF host]]
        quiet [OF deploy_host.quiet_read [OF host]])
  have start: "io_keeps (\<lambda>w. release (sd_service def) w = (a, h)) (start_inactive (real_deps K) def sha c)" for c
    by (rule start_inactive_record [OF assms])
  show "io_keeps (\<lambda>w. release (sd_service def) w = v) (preview_steps K sha def)"
    unfolding preview_steps_def v
    by (intro io_keeps_bind io_keeps_then start quiet io_keeps_basic deploy_host.quiet_preflight [OF host]
        deploy_host.quiet_network [OF host] deploy_host.quiet_read [OF host])
qed

section \<open>Commands as steps of the machine\<close>

text \<open>One step, for the service the command is about and for every other one.\<close>

definition moved :: "command \<Rightarrow> bool \<Rightarrow> bool \<Rightarrow> release_state \<Rightarrow> release_state \<Rightarrow> bool" where
  "moved cmd here ok v u \<longleftrightarrow> (if here then release_spec cmd ok v u else u = v)"

definition before ::
  "'e platform \<Rightarrow> command \<Rightarrow> string \<Rightarrow> bool \<Rightarrow> release_state \<Rightarrow> 'e world \<Rightarrow> bool" where
  "before K cmd t here v w \<longleftrightarrow>
     release t w = v \<and> about K (w_fs w) cmd t = here \<and> app_names_ok (w_db w)"

definition obeys :: "'e platform \<Rightarrow> command \<Rightarrow> string \<Rightarrow> ('e world, 'a) io \<Rightarrow> bool" where
  "obeys K cmd t m \<longleftrightarrow>
     (\<forall>here v. io_triple (before K cmd t here v) m
        (\<lambda>_ w. moved cmd here True v (release t w)) (\<lambda>w. moved cmd here False v (release t w)))"

lemma moved_fails: "moved cmd here False v v" "moved cmd here True v u \<Longrightarrow> moved cmd here False v u"
  by (cases cmd; auto simp: moved_def release_spec_def torn_cases split: option.splits if_splits)+

lemma plain_obeys:
  assumes "\<And>v. io_keeps (\<lambda>w. release t w = v \<and> app_names_ok (w_db w)) m"
    and "\<And>v. release_spec cmd True v v"
  shows "obeys K cmd t m"
  unfolding obeys_def
proof (intro allI)
  fix here v
  show "io_triple (before K cmd t here v) m
      (\<lambda>_ w. moved cmd here True v (release t w)) (\<lambda>w. moved cmd here False v (release t w))"
    by (rule io_triple_weaken [OF assms(1) [of v, unfolded io_keeps_iff_triple]])
      (use assms(2) moved_fails(1) in \<open>auto simp: before_def moved_def\<close>)
qed

lemma kept_obeys:
  assumes "\<And>v. io_keeps (\<lambda>w. release t w = v) m" and "\<And>v. release_spec cmd True v v"
  shows "obeys K cmd t m"
  unfolding obeys_def
proof (intro allI)
  fix here v
  show "io_triple (before K cmd t here v) m
      (\<lambda>_ w. moved cmd here True v (release t w)) (\<lambda>w. moved cmd here False v (release t w))"
    by (rule io_triple_weaken [OF assms(1) [of v, unfolded io_keeps_iff_triple]])
      (use assms(2) in \<open>auto simp: before_def moved_def moved_fails(1) [unfolded moved_def]\<close>)
qed

lemma loaded_obeys:
  assumes "yaml_names_ok K"
    and "\<And>f. about K f cmd t \<longleftrightarrow> map_sum id sd_service (load_def (pf_yaml_service K) f service) = Inr t"
    and "\<And>def v. service_ok (sd_service def) \<Longrightarrow> io_triple (\<lambda>w. release t w = v) (g def)
      (\<lambda>_ w. moved cmd (sd_service def = t) True v (release t w))
      (\<lambda>w. moved cmd (sd_service def = t) False v (release t w))"
  shows "obeys K cmd t (io_bind (load_service K service) (\<lambda>def. io_then (docker_connect K) (g def)))"
  unfolding obeys_def
proof (intro allI io_tripleI)
  fix here v w r u
  let ?m = "io_bind (load_service K service) (\<lambda>def. io_then (docker_connect K) (g def))"
  have run: "moved cmd here (case r of Inr _ \<Rightarrow> True | Inl _ \<Rightarrow> False) v (release t u)"
    if pre: "before K cmd t here v w" and m: "?m w = (r, u)" for r u w
  proof (cases "load_def (pf_yaml_service K) (w_fs w) service")
    case (Inl e)
    with m have "r = Inl e \<and> u = w" by (auto simp: io_bind_def load_service_def read_fs_def)
    with pre show ?thesis by (simp add: before_def moved_fails)
  next
    case (Inr def)
    with pre assms(2) have here: "here = (sd_service def = t)" and v: "release t w = v" by (auto simp: before_def)
    from loaded_run [OF m Inr] show ?thesis
    proof
      assume "u = w \<and> (\<exists>e. r = Inl e)"
      with v show ?thesis by (auto simp: moved_fails(1))
    next
      assume "g def w = (r, u)"
      with io_tripleD [OF assms(3) [OF load_names_ok [OF assms(1) Inr]] v] show ?thesis
        unfolding here by (cases r) auto
    qed
  qed
  show "before K cmd t here v w \<Longrightarrow> ?m w = (Inr a, u) \<Longrightarrow> moved cmd here True v (release t u)" for a
    using run [of w "Inr a" u] by simp
  show "before K cmd t here v w \<Longrightarrow> ?m w = (Inl e, u) \<Longrightarrow> moved cmd here False v (release t u)" for e
    using run [of w "Inl e" u] by simp
qed

lemma spared_moved:
  assumes "spares_service up t m"
  shows "io_triple (\<lambda>w. release t w = v) m (\<lambda>_ w. moved cmd False True v (release t w))
    (\<lambda>w. moved cmd False False v (release t w))"
  by (rule io_triple_weaken [OF record_frame.spared_keeps [OF assms, of v, unfolded io_keeps_iff_triple]])
    (simp_all add: moved_def)

lemma deploy_run_obeys:
  assumes "docker_laws K up" and "yaml_names_ok K" and "service_ok t"
  shows "obeys K (DeployCmd service sha) t (deploy_run K service sha)"
  unfolding deploy_run_def
proof (rule loaded_obeys [OF assms(2)])
  fix def :: service_def and v assume ok: "service_ok (sd_service def)"
  show "io_triple (\<lambda>w. release t w = v) (deploy_service (real_deps K) def sha)
      (\<lambda>_ w. moved (DeployCmd service sha) (sd_service def = t) True v (release t w))
      (\<lambda>w. moved (DeployCmd service sha) (sd_service def = t) False v (release t w))"
  proof (cases "sd_service def = t")
    case True
    with deploy_service_record [OF assms(1) ok] show ?thesis by (auto simp: moved_def)
  next
    case False
    then show ?thesis
      using spared_moved [OF deploy_service_spared [OF assms(1,3) ok _ refl]] by auto
  qed
qed (simp add: about_def)

lemma run_cutover_obeys:
  assumes "docker_laws K up" and "yaml_names_ok K" and "service_ok t"
  shows "obeys K (CutoverCmd service sha_opt) t (run_cutover K service sha_opt preview)"
  unfolding run_cutover_alt
proof (rule loaded_obeys [OF assms(2)])
  fix def :: service_def and v assume ok: "service_ok (sd_service def)"
  show "io_triple (\<lambda>w. release t w = v) (cutover_steps K service sha_opt preview def)
      (\<lambda>_ w. moved (CutoverCmd service sha_opt) (sd_service def = t) True v (release t w))
      (\<lambda>w. moved (CutoverCmd service sha_opt) (sd_service def = t) False v (release t w))"
  proof (cases "sd_service def = t")
    case True
    with cutover_plan_record [OF assms(1) ok] show ?thesis by (auto simp: moved_def)
  next
    case False
    then show ?thesis using spared_moved [OF steps_spared(1) [OF assms(1,3) ok _ refl]] by auto
  qed
qed (simp add: about_def)

lemma db_open_before: "db_open w = (r, u) \<Longrightarrow> about K (w_fs u) cmd t = about K (w_fs w) cmd t"
proof -
  assume "db_open w = (r, u)"
  then obtain q f where f: "create_dir_all ''/opt/codery'' (w_fs w) = (q, f)" and u: "w_fs u = f"
    by (auto simp: db_open_def io_then_split on_fs_def split: prod.splits if_splits)
  have "read_text f p = read_text (w_fs w) p" for p
    using create_dir_all_frame [OF f] by (simp add: read_text_def file_at_def)
  then have "load_def (pf_yaml_service K) f s = load_def (pf_yaml_service K) (w_fs w) s" for s
    by (simp add: load_def_def load_def_at_def)
  then show ?thesis by (cases cmd) (simp_all add: about_def u)
qed

lemma before_db_open:
  assumes "service_ok t"
  shows "io_keeps (before K cmd t here v) db_open"
  unfolding io_keeps_def
proof (intro allI impI)
  fix w assume w: "before K cmd t here v w"
  obtain r u where u: "db_open w = (r, u)" by force
  from w have "release t w = v \<and> app_names_ok (w_db w)" by (simp add: before_def)
  from io_keepsD [OF record_apps.db_open_keeps [OF assms] this u] db_open_before [OF u, of K cmd t] w u
  show "before K cmd t here v (snd (db_open w))" by (simp add: before_def)
qed

lemma cli_cutover_obeys:
  assumes "docker_laws K up" and "yaml_names_ok K" and "service_ok t"
  shows "obeys K (CutoverCmd service sha_opt) t (cli_cutover K service sha_opt)"
  unfolding obeys_def
proof (intro allI)
  fix here v
  let ?B = "before K (CutoverCmd service sha_opt) t here v"
    and ?M = "\<lambda>ok w. moved (CutoverCmd service sha_opt) here ok v (release t w)"
  have fails: "?B w \<Longrightarrow> ?M False w" for w by (auto simp: before_def moved_fails(1))
  have read: "io_keeps ?B (read_db g)" for g by (simp add: io_keeps_def read_db_def)
  have run: "io_triple ?B (run_cutover K service sha_opt p) (\<lambda>_. ?M True) (?M False)" for p
    using run_cutover_obeys [OF assms] unfolding obeys_def by blast
  have drop: "io_keeps (?M True) (drop_preview K service)"
    unfolding io_keeps_def
    using io_keepsD [OF record_frame.drop_preview_keeps [OF assms(1,3)] refl] by (metis prod.collapse)
  show "io_triple ?B (cli_cutover K service sha_opt) (\<lambda>_. ?M True) (?M False)"
    unfolding cli_cutover_def
    by (intro io_triple_then [OF keeps_fails [OF before_db_open [OF assms(3)] fails]]
        io_triple_bind [OF keeps_fails [OF read fails]] io_triple_then [OF run] keeps_fails [OF drop])
      (auto intro: moved_fails(2))
qed

lemma record_own_or_other:
  assumes "\<And>v. io_keeps (\<lambda>w. release s w = v) m"
    and "\<And>t. service_ok t \<Longrightarrow> t \<noteq> s \<Longrightarrow> spares_service up t m"
    and "service_ok s" and "service_ok t"
  shows "io_keeps (\<lambda>w. release t w = v \<and> app_names_ok (w_db w)) m"
proof (rule record_apps.own_or_other [of t s])
  assume "t = s"
  then show "io_keeps (\<lambda>w. release t w = v \<and> app_names_ok (w_db w)) m"
    using assms(1) by (intro io_keeps_conj others_spared_names [OF assms(2,3)]) simp
qed (use assms in blast)

lemma run_cancel_record:
  assumes "docker_laws K up" and "yaml_names_ok K" and "service_ok t"
  shows "io_keeps (\<lambda>w. release t w = v \<and> app_names_ok (w_db w)) (run_cancel_inactive K service)"
    "io_keeps (\<lambda>w. release t w = v \<and> app_names_ok (w_db w)) (run_start_inactive K service sha)"
proof -
  note own = record_own_or_other [where up = up, OF own_steps_record(1) [OF assms(1)]]
      record_own_or_other [where up = up, OF own_steps_record(2) [OF assms(1)]]
  show "io_keeps (\<lambda>w. release t w = v \<and> app_names_ok (w_db w)) (run_cancel_inactive K service)"
    unfolding run_cancel_inactive_def cancel_steps_def [symmetric]
    by (intro load_service_keeps [OF assms(2)] io_keeps_then world_reads own(1)
        steps_spared [OF assms(1)] assms(3)) simp_all
  show "io_keeps (\<lambda>w. release t w = v \<and> app_names_ok (w_db w)) (run_start_inactive K service sha)"
    unfolding run_start_inactive_def preview_steps_def [symmetric]
    by (intro load_service_keeps [OF assms(2)] io_keeps_then world_reads own(2)
        steps_spared [OF assms(1)] assms(3)) simp_all
qed

lemma same_host_before:
  assumes "same_host h g" and "service_ok t" and "before K cmd t here v (ho_world h)"
  shows "before K cmd t here v (ho_world g)"
proof -
  have "release t (ho_world g) = release t (ho_world h)"
    using assms(1,2) by (intro state_view_release) (simp add: same_host_def)
  moreover have "about K (w_fs (ho_world g)) cmd t = about K (w_fs (ho_world h)) cmd t"
    using assms(1) by (cases cmd) (simp_all add: same_host_def about_def)
  ultimately show ?thesis using assms(1,3) by (simp add: same_host_def before_def)
qed

lemma locked_obeys:
  assumes "obeys K cmd t m" and "service_ok t"
  shows "io_triple (\<lambda>h. before K cmd t here v (ho_world h)) (locked service m)
    (\<lambda>_ h. moved cmd here True v (release t (ho_world h))) (\<lambda>h. moved cmd here False v (release t (ho_world h)))"
proof -
  have run: "moved cmd here (r = Inr ()) v (release t (ho_world g))"
    if h: "before K cmd t here v (ho_world h)" and m: "locked service m h = (r, g)" for h r g
    using m
  proof (cases rule: locked_run)
    case (ran h' w)
    have body: "io_triple (before K cmd t here v) m
        (\<lambda>_ w. moved cmd here True v (release t w)) (\<lambda>w. moved cmd here False v (release t w))"
      using assms(1) unfolding obeys_def by blast
    from io_tripleD [OF body same_host_before [OF ran(1) assms(2) h]] ran(4,5)
    show ?thesis by (cases r) auto
  qed (use same_host_before [OF _ assms(2) h] moved_fails(1) in \<open>auto simp: before_def\<close>)
  show ?thesis by (rule io_tripleI) (use run in fastforce)+
qed

text \<open>The commands that end by themselves; the servers are left out.\<close>

definition one_shot :: "command \<Rightarrow> bool" where
  "one_shot cmd \<longleftrightarrow>
     (case cmd of Serve _ \<Rightarrow> False | ServeUi _ \<Rightarrow> False | ServeTcpProxy \<Rightarrow> False | Daemon \<Rightarrow> False | _ \<Rightarrow> True)"

lemma run_command_obeys:
  assumes "docker_laws K up" and "yaml_names_ok K" and "service_ok t" and "one_shot cmd"
  shows "io_triple (\<lambda>h. before K cmd t here v (ho_world h)) (run_command K srv cmd)
    (\<lambda>_ h. moved cmd here True v (release t (ho_world h))) (\<lambda>h. moved cmd here False v (release t (ho_world h)))"
proof -
  have world: "io_triple (\<lambda>h. before K cmd t here v (ho_world h)) (on_host m)
      (\<lambda>_ h. moved cmd here True v (release t (ho_world h))) (\<lambda>h. moved cmd here False v (release t (ho_world h)))"
    if "obeys K cmd t m" for m :: "('a world, 'b) io"
    using that unfolding obeys_def by (intro on_host_triple) blast
  note reads = record_apps.reads_keep [OF assms(1-3)] record_apps.plain_bodies_keep [OF assms(1,3)]
    and staged = record_apps.locked_bodies_keep(1) [OF assms(1-3) run_cancel_record(2) [OF assms(1-3)]]
      record_apps.locked_bodies_keep(3) [OF assms(1-3) run_cancel_record(1) [OF assms(1-3)]]
  have stay: "io_triple (\<lambda>h. before K cmd t here v (ho_world h)) m
      (\<lambda>_ h. moved cmd here True v (release t (ho_world h))) (\<lambda>h. moved cmd here False v (release t (ho_world h)))"
    if "m = io_return () \<or> m = io_fail (ProcessExit 1)" "\<And>v. release_spec cmd True v v" for m :: "('a host, unit) io"
    using that(1) that(2) [of v] moved_fails(1) [of cmd here v]
    by (auto simp: io_triple_def io_return_def io_fail_def before_def moved_def)
  show ?thesis
    using assms(4)
  proof (cases cmd)
    case (DeployCmd s sha)
    with locked_obeys [OF deploy_run_obeys [OF assms(1-3)] assms(3)] show ?thesis by simp
  next
    case (CutoverCmd s sha)
    with locked_obeys [OF cli_cutover_obeys [OF assms(1-3)] assms(3)] show ?thesis by simp
  next
    case (DeployPreview s sha p)
    with locked_obeys [OF plain_obeys [OF staged(1)] assms(3)] show ?thesis by (simp add: release_spec_def)
  next
    case (CancelPreview s)
    with locked_obeys [OF plain_obeys [OF staged(2)] assms(3)] show ?thesis by (simp add: release_spec_def)
  next
    case (RecreateCmd s)
    have "obeys K cmd t (recreate_active_container K s)"
      by (rule kept_obeys [OF recreate_record [OF assms(1-3)]]) (simp add: RecreateCmd release_spec_def)
    then have "io_triple (\<lambda>h. before K cmd t here v (ho_world h))
        (io_then (on_host (recreate_active_container K s)) (io_return ()))
        (\<lambda>_ h. moved cmd here True v (release t (ho_world h)))
        (\<lambda>h. moved cmd here False v (release t (ho_world h)))"
      by (rule io_triple_then [OF world]) (simp add: io_triple_def io_return_def)
    with RecreateCmd show ?thesis by simp
  qed (use reads [THEN plain_obeys, THEN world] stay [of "io_return ()"] stay [of "io_fail (ProcessExit 1)"]
      in \<open>simp_all add: release_spec_def one_shot_def\<close>)
qed

section \<open>Correctness\<close>



end
