(* ===== verification/Ui_Release.thy ===== *)
theory Ui_Release
  imports Release Rollback_Steps
begin

text \<open>
  The rollback of the console as a step of the release machine of \<open>Release\<close>, and what it leaves alone.
\<close>

section \<open>The abstract step\<close>

text \<open>The tag a rollback records: that of the image the engine reports for the previous container.\<close>

definition rollback_tag :: "string \<Rightarrow> container_info \<Rightarrow> string" where
  "rollback_tag service info =
     (case sha_from_image_tag service (or_empty (ci_image info)) of Some s \<Rightarrow> s | None \<Rightarrow> ''unknown'')"

definition reported :: "'e platform \<Rightarrow> string \<Rightarrow> container_info \<Rightarrow> bool" where
  "reported K name info \<longleftrightarrow> (\<exists>e. fst (pf_inspect K name e) = Inr info)"

definition rollback_spec :: "'e platform \<Rightarrow> string \<Rightarrow> bool \<Rightarrow> release_state \<Rightarrow> release_state \<Rightarrow> bool" where
  "rollback_spec K service ok v u \<longleftrightarrow>
     \<not> ok \<and> u = v \<or>
     (\<exists>info. reported K (container_name service (flip (fst v))) info \<and>
        (if ok then switched (rollback_tag service info) v u else torn (rollback_tag service info) v u))"

section \<open>The service itself\<close>

lemma rollback_color_record:
  assumes "service_ok svc"
  shows "io_triple (\<lambda>w. release svc w = v) (on_fs (write_active svc (flip (fst v))))
    (\<lambda>_ w. release svc w = (flip (fst v), snd v)) (\<lambda>w. torn sha v (release svc w))"
proof -
  have "read_active_sha svc (w_fs t) = snd v \<and> (r = Inr () \<longrightarrow> color_of svc (w_fs t) = flip (fst v)) \<and>
      color_of svc (w_fs t) \<in> {fst v, flip (fst v)}"
    if w: "release svc w = v" and m: "on_fs (write_active svc (flip (fst v))) w = (r, t)" for w r t
  proof -
    from on_fs_run [OF m] have "write_active svc (flip (fst v)) (w_fs w) = (r, w_fs t)" by simp
    from write_active_view [OF assms this] w show ?thesis by (auto simp: release_def)
  qed
  note step = this
  show ?thesis
  proof (rule io_tripleI)
    fix w u t assume "release svc w = v" "on_fs (write_active svc (flip (fst v))) w = (Inr u, t)"
    from step [OF this] show "release svc t = (flip (fst v), snd v)" by (simp add: release_def)
  next
    fix w e t assume "release svc w = v" "on_fs (write_active svc (flip (fst v))) w = (Inl e, t)"
    from step [OF this] show "torn sha v (release svc t)" by (cases v) (auto simp: release_def torn_def)
  qed
qed

lemma rollback_sha_record:
  assumes "service_ok svc"
  shows "io_triple (\<lambda>w. release svc w = (flip (fst v), snd v)) (on_fs (write_active_sha svc sha))
    (\<lambda>_ w. switched sha v (release svc w)) (\<lambda>w. torn sha v (release svc w))"
proof -
  have "color_of svc (w_fs t) = flip (fst v) \<and> (r = Inr () \<longrightarrow> clean_sha sha \<longrightarrow> read_active_sha svc (w_fs t) = Some sha) \<and>
      (r \<noteq> Inr () \<longrightarrow> read_active_sha svc (w_fs t) \<in> {snd v, None})"
    if w: "release svc w = (flip (fst v), snd v)" and m: "on_fs (write_active_sha svc sha) w = (r, t)" for w r t
  proof -
    from on_fs_run [OF m] have "write_active_sha svc sha (w_fs w) = (r, w_fs t)" by simp
    from write_sha_view [OF assms this] w show ?thesis by (auto simp: release_def)
  qed
  note step = this
  show ?thesis
  proof (rule io_tripleI)
    fix w u t assume "release svc w = (flip (fst v), snd v)" "on_fs (write_active_sha svc sha) w = (Inr u, t)"
    from step [OF this] show "switched sha v (release svc t)" by (simp add: release_def switched_def)
  next
    fix w e t assume "release svc w = (flip (fst v), snd v)" "on_fs (write_active_sha svc sha) w = (Inl e, t)"
    from step [OF this] show "torn sha v (release svc t)" by (auto simp: release_def torn_def)
  qed
qed

lemma still_record: "still up svc m \<Longrightarrow> io_keeps (\<lambda>w. P (release svc w)) m"
  unfolding io_keeps_def using stillD state_view_release by metis

lemma touched_record:
  assumes "touches up svc n m"
  shows "io_keeps (\<lambda>w. P (release svc w)) m"
  using touches_record [OF assms] unfolding io_keeps_def by metis

text \<open>The part of a rollback after the health check, with the tag it records.\<close>

lemma rollback_switch_record:
  assumes "docker_laws K up" and "service_ok svc"
  shows "io_triple (\<lambda>w. release svc w = v)
    (io_then (on_fs (write_active svc (flip (fst v))))
      (io_then (on_fs (write_active_sha svc sha))
        (io_bind (io_try (apply_all K)) (\<lambda>reload.
           case reload of Inl _ \<Rightarrow> io_fail e | Inr _ \<Rightarrow> stop_container K n))))
    (\<lambda>_ w. switched sha v (release svc w)) (\<lambda>w. torn sha v (release svc w))"
proof (intro io_triple_then [OF rollback_color_record [OF assms(2)]]
    io_triple_then [OF rollback_sha_record [OF assms(2)]] io_triple_bind)
  show "io_triple (\<lambda>w. switched sha v (release svc w)) (io_try (apply_all K))
      (\<lambda>_ w. switched sha v (release svc w)) (\<lambda>w. torn sha v (release svc w))"
    by (intro keeps_to_triple io_keeps_try still_record [where up = up] still_apply_all assms torn_cases)
  show "io_triple (\<lambda>w. switched sha v (release svc w))
      (case reload of Inl _ \<Rightarrow> io_fail e | Inr _ \<Rightarrow> stop_container K n)
      (\<lambda>_ w. switched sha v (release svc w)) (\<lambda>w. torn sha v (release svc w))" for reload :: "unit res"
  proof (cases reload)
    case (Inl x)
    then show ?thesis by (auto simp: io_triple_def io_fail_def intro: torn_cases)
  next
    case (Inr x)
    have "io_triple (\<lambda>w. switched sha v (release svc w)) (stop_container K n)
        (\<lambda>_ w. switched sha v (release svc w)) (\<lambda>w. torn sha v (release svc w))"
      by (intro keeps_to_triple touched_record [OF touches_stop [OF assms(1)]] torn_cases)
    with Inr show ?thesis by simp
  qed
qed

lemma do_rollback_record:
  assumes "docker_laws K up" and "service_ok svc"
  shows "io_triple (\<lambda>w. release svc w = v)
    (do_rollback K def svc (flip (fst v)) (container_name svc (flip (fst v))) n)
    (\<lambda>_ w. rollback_spec K svc True v (release svc w)) (\<lambda>w. rollback_spec K svc False v (release svc w))"
proof -
  let ?prev = "container_name svc (flip (fst v))" and ?P = "\<lambda>w. release svc w = v"
  let ?Q = "\<lambda>w. rollback_spec K svc True v (release svc w)" and ?E = "\<lambda>w. rollback_spec K svc False v (release svc w)"
  have E: "?P w \<Longrightarrow> ?E w" for w by (simp add: rollback_spec_def)
  have fail: "io_triple ?P (io_fail e) (\<lambda>_. ?Q) ?E" for e
    by (auto simp: io_triple_def io_fail_def rollback_spec_def)
  have keep: "io_triple ?P m (\<lambda>_. ?P) ?E" if "io_keeps ?P m" for m :: "('a world, 'c) io"
    by (rule keeps_to_triple [OF that E])
  have inspect: "io_triple ?P (dk_call (pf_inspect K ?prev)) (\<lambda>r w. ?P w \<and> (\<forall>info. r = Inr info \<longrightarrow> reported K ?prev info)) ?E"
  proof (rule io_tripleI)
    fix w r t assume w: "?P w" and m: "dk_call (pf_inspect K ?prev) w = (Inr r, t)"
    have "io_keeps ?P (dk_call (pf_inspect K ?prev))"
      by (intro still_record [where up = up] still_dk_call laws_neutral assms)
    from io_keepsD [OF this w m] have "?P t" .
    moreover have "\<forall>info. r = Inr info \<longrightarrow> reported K ?prev info"
      using m by (auto simp: dk_call_def reported_def split: prod.splits intro: exI [of _ "w_ext w"])
    ultimately show "?P t \<and> (\<forall>info. r = Inr info \<longrightarrow> reported K ?prev info)" ..
  qed (simp add: dk_call_def split: prod.splits)
  have health: "still up svc (poll_health K def (flip (fst v)))"
    unfolding poll_health_def by (intro still_rules still_await assms)
  have after_health: "io_triple ?P
      (case h of
         Inl _ \<Rightarrow> io_bind (io_try (stop_container K ?prev)) (\<lambda>_. io_fail e1)
       | Inr _ \<Rightarrow> io_then (on_fs (write_active svc (flip (fst v))))
           (io_then (on_fs (write_active_sha svc (rollback_tag svc info)))
             (io_bind (io_try (apply_all K)) (\<lambda>reload.
                case reload of Inl _ \<Rightarrow> io_fail e2 | Inr _ \<Rightarrow> stop_container K n))))
      (\<lambda>_. ?Q) ?E" if rep: "reported K ?prev info" for h :: "unit res" and info e1 e2
  proof (cases h)
    case (Inl e)
    have "io_triple ?P (io_try (stop_container K ?prev)) (\<lambda>_. ?P) ?E"
      by (intro keep io_keeps_try touched_record [OF touches_stop [OF assms(1)]])
    from io_triple_bind [OF this fail] Inl show ?thesis by simp
  next
    case (Inr u)
    have "io_triple ?P
        (io_then (on_fs (write_active svc (flip (fst v))))
          (io_then (on_fs (write_active_sha svc (rollback_tag svc info)))
            (io_bind (io_try (apply_all K)) (\<lambda>reload.
               case reload of Inl _ \<Rightarrow> io_fail e2 | Inr _ \<Rightarrow> stop_container K n))))
        (\<lambda>_. ?Q) ?E"
      by (rule io_triple_weaken [OF rollback_switch_record [OF assms]])
        (use rep in \<open>auto simp: rollback_spec_def\<close>)
    with Inr show ?thesis by simp
  qed
  have start: "io_triple ?P (dk_ask ?prev (pf_start K ?prev)) (\<lambda>_. ?P) ?E"
    by (intro keep touched_record [OF touches_dk_ask [OF laws_spares(2) [OF assms(1)]]])
  have poll: "io_triple ?P (io_try (poll_health K def (flip (fst v)))) (\<lambda>_. ?P) ?E"
    by (intro keep io_keeps_try still_record [OF health])
  have body: "io_triple (\<lambda>w. ?P w \<and> (\<forall>info. r = Inr info \<longrightarrow> reported K ?prev info))
      (case r of
         Inl _ \<Rightarrow> io_fail e0
       | Inr info \<Rightarrow>
           if running_flag (Inr info) then io_fail e0'
           else io_then (dk_ask ?prev (pf_start K ?prev))
               (io_bind (io_try (poll_health K def (flip (fst v)))) (\<lambda>health.
                  case health of
                    Inl _ \<Rightarrow> io_bind (io_try (stop_container K ?prev)) (\<lambda>_. io_fail e1)
                  | Inr _ \<Rightarrow> io_then (on_fs (write_active svc (flip (fst v))))
                      (io_then (on_fs (write_active_sha svc (rollback_tag svc info)))
                        (io_bind (io_try (apply_all K)) (\<lambda>reload.
                           case reload of Inl _ \<Rightarrow> io_fail e2 | Inr _ \<Rightarrow> stop_container K n))))))
      (\<lambda>_. ?Q) ?E" for r :: "container_info dk" and e0 e0' e1 e2
  proof (cases r)
    case (Inr info)
    show ?thesis
    proof (cases "reported K ?prev info")
      case True
      from io_triple_if [OF fail io_triple_then [OF start io_triple_bind [OF poll after_health [OF True]]]] Inr True
      show ?thesis by simp
    qed (simp add: Inr io_triple_def)
  qed (simp add: fail)
  show ?thesis
    unfolding do_rollback_def Let_def
    by (rule io_triple_bind [OF inspect body [unfolded rollback_tag_def]])
qed

section \<open>The request\<close>

lemma on_world_keeps:
  assumes "\<And>ops. still up svc (build_status K ops)"
  shows "io_keeps (\<lambda>u. P (release svc (ho_world u))) (broadcast_status K)"
    "io_keeps (\<lambda>u. P (release svc (ho_world u))) (io_modify (\<lambda>v. v\<lparr>ui_ops := f v\<rparr>))"
proof -
  show "io_keeps (\<lambda>u. P (release svc (ho_world u))) (broadcast_status K)"
    by (rule broadcast_keeps [where P = "\<lambda>w. P (release svc w)"]) (rule still_record [OF assms])
  show "io_keeps (\<lambda>u. P (release svc (ho_world u))) (io_modify (\<lambda>v. v\<lparr>ui_ops := f v\<rparr>))"
    by (rule ops_keeps [where P = "\<lambda>w. P (release svc w)"])
qed

lemma rollback_marked_record:
  assumes "docker_laws K up" and "service_ok svc"
  shows "io_triple (\<lambda>u. release svc (ho_world u) = v) (rollback_marked K def svc (fst v))
    (\<lambda>_ u. rollback_spec K svc True v (release svc (ho_world u)))
    (\<lambda>u. rollback_spec K svc False v (release svc (ho_world u)))"
proof -
  let ?P = "\<lambda>u. release svc (ho_world u) = v" and ?R = "\<lambda>ok u. rollback_spec K svc ok v (release svc (ho_world u))"
  let ?M = "\<lambda>r u. case r of Inl _ \<Rightarrow> ?R False u | Inr _ \<Rightarrow> ?R True u"
  note k = on_world_keeps [OF still_status [OF assms(1)]]
  have sub: "rollback_spec K svc True v u \<Longrightarrow> rollback_spec K svc False v u" for u
    by (auto simp: rollback_spec_def intro: torn_cases)
  have P: "io_triple ?P m (\<lambda>_. ?P) (?R False)" if "io_keeps ?P m" for m :: "('a ui, 'c) io"
    by (rule keeps_to_triple [OF that]) (simp add: rollback_spec_def)
  have M: "io_triple (?M r) m (\<lambda>_. ?M r) (?R False)" if "io_keeps (?R True) m" "io_keeps (?R False) m"
    for r :: "unit res" and m :: "('a ui, 'c) io"
    using keeps_to_triple [OF that(1), of "?R False"] keeps_to_triple [OF that(2), of "?R False"] sub
    by (cases r) simp_all
  have run: "io_triple ?P
      (io_try (on_host (do_rollback K def svc (flip (fst v)) (container_name svc (flip (fst v))) (container_name svc (fst v)))))
      ?M (?R False)"
    using on_host_triple [OF do_rollback_record [OF assms, of v def "container_name svc (fst v)"]]
    by (intro io_triple_try) (auto elim!: io_triple_weaken)
  have fin: "io_triple (?M r) (io_lift r) (\<lambda>_. ?R True) (?R False)" for r
    by (cases r) (simp_all add: io_triple_def io_lift_def)
  show ?thesis
    unfolding rollback_marked_def Let_def
    by (rule io_triple_then [OF P [OF k(2)] io_triple_then [OF P [OF k(1)]
          io_triple_bind [OF run io_triple_then [OF M [OF k(2) k(2)] io_triple_then [OF M [OF k(1) k(1)] fin]]]]])
qed

lemma locked_rollback_record:
  assumes "docker_laws K up" and "service_ok svc"
  shows "io_triple (\<lambda>u. release svc (ho_world u) = v) (locked_rollback K svc)
    (\<lambda>_ u. rollback_spec K svc True v (release svc (ho_world u)))
    (\<lambda>u. rollback_spec K svc False v (release svc (ho_world u)))"
proof -
  let ?P = "\<lambda>u. release svc (ho_world u) = v" and ?R = "\<lambda>ok u. rollback_spec K svc ok v (release svc (ho_world u))"
  have same: "io_triple ?P m (\<lambda>_. ?P) (?R False)" if m: "\<And>u. ho_world (snd (m u)) = ho_world u"
    for m :: "(('a, 'z) host_scheme, 'c) io"
  proof (rule keeps_to_triple)
    show "io_keeps ?P m" by (simp add: io_keeps_def m)
  qed (simp add: rollback_spec_def)
  have basic: "io_triple ?P (io_try (on_host (load_service K svc))) (\<lambda>_. ?P) (?R False)"
    by (rule same) (simp add: io_try_def on_host_def load_service_def read_fs_def split: sum.split)
  have con: "io_triple ?P (on_host (docker_connect K)) (\<lambda>_. ?P) (?R False)"
    by (rule same) (simp add: on_host_def docker_connect_def)
  have read: "io_triple ?P (on_host (read_fs (read_active svc))) (\<lambda>c u. ?P u \<and> c = fst v) (?R False)"
    by (auto simp: io_triple_iff on_host_run read_fs_run rollback_spec_def release_def dest: color_of_Inr [OF sym])
  have "io_triple ?P (io_bind (on_host (read_fs (read_active svc))) (\<lambda>c. rollback_marked K d svc c))
      (\<lambda>_. ?R True) (?R False)" for d
    by (rule io_triple_bind [OF read])
      (use rollback_marked_record [OF assms, of v d] in \<open>auto simp: io_triple_def\<close>)
  note body = io_triple_then [OF con this]
  have "io_triple ?P
      (case loaded of
         Inl _ \<Rightarrow> io_fail e
       | Inr d \<Rightarrow> io_then (on_host (docker_connect K))
           (io_bind (on_host (read_fs (read_active svc))) (\<lambda>c. rollback_marked K d svc c)))
      (\<lambda>_. ?R True) (?R False)" for loaded e
    using body by (cases loaded) (auto simp: io_triple_def io_fail_def rollback_spec_def)
  then show ?thesis
    unfolding locked_rollback_def by (rule io_triple_bind [OF basic])
qed

section \<open>All other services\<close>

lemma frame_trans: "frame_step up t u v \<Longrightarrow> frame_step up t v w \<Longrightarrow> frame_step up t u w"
  by (simp add: frame_step_def)

lemma spared_host:
  "spares_service up t m \<Longrightarrow> io_keeps (\<lambda>u. frame_step up t w (ho_world u)) (on_host m)"
  by (rule on_host_keeps [where P = "frame_step up t w"])
    (use spares_frame frame_trans in \<open>fastforce simp: io_keeps_def\<close>)

lemma locked_rollback_frames:
  assumes "docker_laws K up" and "service_ok t" and "service_ok svc" and "t \<noteq> svc"
  shows "io_keeps (\<lambda>u. frame_step up t w (ho_world u)) (locked_rollback K svc)"
proof -
  have status: "io_keeps (\<lambda>u. frame_step up t w (ho_world u)) (broadcast_status K)"
    by (rule broadcast_keeps [where P = "frame_step up t w"])
      (use spares_frame [OF spared_still [OF still_status [OF assms(1)]]] frame_trans in \<open>fastforce simp: io_keeps_def\<close>)
  have "io_keeps (\<lambda>u. frame_step up t w (ho_world u)) (rollback_marked K d svc a)" for d a
    unfolding rollback_marked_def Let_def
    by (intro io_keeps_then io_keeps_bind io_keeps_try status ops_keeps [where P = "frame_step up t w"]
        spared_host rollback_spared(1) assms io_keeps_basic)
  then show ?thesis
    unfolding locked_rollback_def
    by (auto intro!: io_keeps_bind io_keeps_then io_keeps_try spared_host spared world_reads io_keeps_basic
        simp: load_service_def split: sum.split)
qed

section \<open>Correctness\<close>

text \<open>
  C12: A rollback request is a step of the release machine. Whatever fails on the way, the color and tag
  recorded for its service are the former ones, or the color has switched and the tag is that of the
  image the engine reports for the previous container; an answer of success means the latter, and a
  failure in between can leave the switch with the old tag or with none. The record of every other
  service and its running containers are as before.
\<close>

theorem rollback_refines_release_spec:
  assumes "docker_laws K up" and "service_ok t" and "post_rollback K svc u = (resp, v)"
  shows "if t = svc then rollback_spec K svc (resp = Ok200) (release svc (ho_world u)) (release svc (ho_world v))
    else release t (ho_world v) = release t (ho_world u) \<and>
      (\<forall>c. up (w_ext (ho_world u)) (container_name t c) \<longrightarrow> up (w_ext (ho_world v)) (container_name t c))"
proof (cases "svc \<in> ui_rollbacks u")
  case True
  then show ?thesis using assms(3) by (simp add: post_rollback_def rollback_spec_def)
next
  case False
  let ?u = "u\<lparr>ui_rollbacks := insert svc (ui_rollbacks u)\<rparr>"
  obtain r w where run: "run_rollback K svc ?u = (r, w)" by force
  have resp: "ho_world v = ho_world w" "resp = Ok200 \<longleftrightarrow> (\<exists>x. r = Inr x)"
    using assms(3) False run by (auto simp: post_rollback_def split: if_splits sum.splits)
  have kept: "release t (ho_world z) = release t (ho_world u) \<and> w_ext (ho_world z) = w_ext (ho_world u)"
    if "same_host ?u z" "service_ok t" for z t
    using that state_view_release [of t "ho_world z" "ho_world u"] by (simp add: same_host_def)
  from run show ?thesis
  proof (cases rule: run_rollback_cases)
    case (refused e)
    then show ?thesis using kept [OF refused(2) assms(2)] resp by (auto simp: rollback_spec_def)
  next
    case (ran u' v')
    have ok: "service_ok svc" by (rule lock_name_service [OF ran(3)])
    show ?thesis
    proof (cases "t = svc")
      case True
      have pre: "release svc (ho_world u') = release svc (ho_world u)" using kept [OF ran(1) ok] by simp
      from io_tripleD [OF locked_rollback_record [OF assms(1) ok] pre] ran(4,5) resp True
      show ?thesis by (cases r) auto
    next
      case False
      have "frame_step up t (ho_world u') (ho_world v')"
        using io_keepsD [OF locked_rollback_frames [OF assms(1,2) ok False] _ ran(4), of "ho_world u'"]
        by (simp add: frame_step_def)
      then have "release t (ho_world v') = release t (ho_world u')"
          "\<forall>c. up (w_ext (ho_world u')) (container_name t c) \<longrightarrow> up (w_ext (ho_world v')) (container_name t c)"
        using frame_release unfolding frame_step_def by blast+
      then show ?thesis using kept [OF ran(1) assms(2)] ran(5) resp(1) False by simp
    qed
  qed
qed

text \<open>
  The console of the sample host, whose previous container is the one of the tag \<^verbatim>\<open>prev\<close>: a rollback
  of \<^verbatim>\<open>paseo\<close>.
\<close>

lemma rollback_refines_release_spec_witness:
  "fst (post_rollback en_platform ''paseo'' en_console) = Ok200 \<and>
   release ''paseo'' (ho_world (snd (post_rollback en_platform ''paseo'' en_console))) = (Green, Some ''prev'') \<and>
   rollback_spec en_platform ''paseo'' True (Blue, read_active_sha ''paseo'' (w_fs (ho_world en_console))) (Green, Some ''prev'')"
proof -
  obtain resp v where run: "post_rollback en_platform ''paseo'' en_console = (resp, v)" by force
  have resp: "fst (post_rollback en_platform ''paseo'' en_console) = Ok200" by code_simp
  have rel: "release ''paseo'' (ho_world (snd (post_rollback en_platform ''paseo'' en_console))) = (Green, Some ''prev'')"
    by code_simp
  have color: "color_of ''paseo'' (w_fs (ho_world en_console)) = Blue" by code_simp
  have "service_ok ''paseo''" using paseo_ok by simp
  from rollback_refines_release_spec [OF en_docker_laws this run] resp rel color run show ?thesis
    by (simp add: release_def)
qed

end
