(* ===== verification/Ui_Ops.thy ===== *)
theory Ui_Ops
  imports Ui
begin

text \<open>
  The operations map of the deploy console as a state machine. Its writers run concurrently: the
  stop, start, kill and restart handlers with the task each of them spawns (\<^verbatim>\<open>dispatch_container_op\<close>),
  the Docker event watcher, the rollback flow, and the safety net that ends every task. Each step
  below is one critical section of the map's mutex, in any interleaving.
\<close>

section \<open>Requests\<close>

datatype console_request = Stop | Start | Kill | Restart

fun op_label :: "console_request \<Rightarrow> string" where
  "op_label Stop = ''stopping''"
| "op_label Start = ''starting''"
| "op_label Kill = ''killing''"
| "op_label Restart = ''restarting''"

fun docker_args :: "console_request \<Rightarrow> string list" where
  "docker_args Stop = [''stop'', ''-t'', ''10'']"
| "docker_args Start = [''start'']"
| "docker_args Kill = [''kill'']"
| "docker_args Restart = [''restart'', ''-t'', ''10'']"

definition on_docker_event :: "string \<Rightarrow> string \<Rightarrow> op_map \<Rightarrow> op_map" where
  "on_docker_event action cname ops =
     (if action = ''start'' then ops(cname := None)
      else if action = ''die'' \<or> action = ''stop''
      then (if ops cname = Some ''stopping'' \<or> ops cname = Some ''killing'' then ops(cname := None) else ops)
      else ops)"

section \<open>The machine\<close>

text \<open>
  A task has yet to launch its \<^verbatim>\<open>docker\<close> child, or sleeps until its safety net is due. \<open>os_children\<close>
  lists the argument vectors of the children launched so far. Timers are exact: time does not pass
  a net that is due.
\<close>

datatype op_task = Launch string console_request | Net string nat

record ops_state =
  os_now :: nat
  os_ops :: op_map
  os_tasks :: "op_task list"
  os_rolling :: "string list"
  os_children :: "string list list"

definition NET_SECS :: nat where "NET_SECS = 300"

datatype ops_event =
    Request console_request string
  | Spawned string console_request
  | SpawnFailed string console_request
  | NetFires string nat
  | DockerEvent string string
  | RollbackBegins string
  | RollbackEnds string
  | Tick

fun ops_step :: "ops_event \<Rightarrow> ops_state \<Rightarrow> ops_state option" where
  "ops_step (Request req c) s =
     Some (s\<lparr>os_ops := (os_ops s)(c \<mapsto> op_label req), os_tasks := os_tasks s @ [Launch c req]\<rparr>)"
| "ops_step (Spawned c req) s =
     (if Launch c req \<in> set (os_tasks s)
      then Some (s\<lparr>os_tasks := remove1 (Launch c req) (os_tasks s) @ [Net c (os_now s + NET_SECS)],
                  os_children := os_children s @ [''docker'' # docker_args req @ [c]]\<rparr>)
      else None)"
| "ops_step (SpawnFailed c req) s =
     (if Launch c req \<in> set (os_tasks s)
      then Some (s\<lparr>os_tasks := remove1 (Launch c req) (os_tasks s), os_ops := (os_ops s)(c := None)\<rparr>)
      else None)"
| "ops_step (NetFires c due) s =
     (if Net c due \<in> set (os_tasks s) \<and> due \<le> os_now s
      then Some (s\<lparr>os_tasks := remove1 (Net c due) (os_tasks s), os_ops := (os_ops s)(c := None)\<rparr>)
      else None)"
| "ops_step (DockerEvent action c) s = Some (s\<lparr>os_ops := on_docker_event action c (os_ops s)\<rparr>)"
| "ops_step (RollbackBegins c) s =
     (if c \<in> set (os_rolling s) then None
      else Some (s\<lparr>os_ops := (os_ops s)(c \<mapsto> ''rolling_back''), os_rolling := c # os_rolling s\<rparr>))"
| "ops_step (RollbackEnds c) s =
     (if c \<in> set (os_rolling s)
      then Some (s\<lparr>os_ops := (os_ops s)(c := None), os_rolling := remove1 c (os_rolling s)\<rparr>)
      else None)"
| "ops_step Tick s =
     (if \<exists>c due. Net c due \<in> set (os_tasks s) \<and> due \<le> os_now s then None
      else Some (s\<lparr>os_now := Suc (os_now s)\<rparr>))"

definition ops_boot :: ops_state where
  "ops_boot = \<lparr>os_now = 0, os_ops = (\<lambda>_. None), os_tasks = [], os_rolling = [], os_children = []\<rparr>"

inductive ops_reach :: "ops_state \<Rightarrow> bool" where
  boot: "ops_reach ops_boot"
| step: "ops_reach s \<Longrightarrow> ops_step e s = Some s' \<Longrightarrow> ops_reach s'"

fun ops_run :: "ops_event list \<Rightarrow> ops_state \<Rightarrow> ops_state option" where
  "ops_run [] s = Some s"
| "ops_run (e # es) s = (case ops_step e s of None \<Rightarrow> None | Some t \<Rightarrow> ops_run es t)"

section \<open>The invariant\<close>

text \<open>Somebody will remove the mark of a container: a task, a net due in time, or a rollback.\<close>

definition has_clearer :: "ops_state \<Rightarrow> string \<Rightarrow> bool" where
  "has_clearer s c \<longleftrightarrow>
     (\<exists>req. Launch c req \<in> set (os_tasks s)) \<or> (\<exists>due. Net c due \<in> set (os_tasks s)) \<or> c \<in> set (os_rolling s)"

definition nets_in_time :: "ops_state \<Rightarrow> bool" where
  "nets_in_time s \<longleftrightarrow>
     (\<forall>c due. Net c due \<in> set (os_tasks s) \<longrightarrow> os_now s \<le> due \<and> due \<le> os_now s + NET_SECS)"

definition marks_cleared :: "ops_state \<Rightarrow> bool" where
  "marks_cleared s \<longleftrightarrow> (\<forall>c. os_ops s c \<noteq> None \<longrightarrow> has_clearer s c)"

definition marks_rolling :: "ops_state \<Rightarrow> bool" where
  "marks_rolling s \<longleftrightarrow>
     (\<forall>c. os_ops s c = Some ''rolling_back'' \<longrightarrow> c \<in> set (os_rolling s)) \<and> distinct (os_rolling s)"

lemma op_label_not_rolling [simp]: "op_label req \<noteq> ''rolling_back''"
  by (cases req) simp_all

lemma on_docker_event_le: "on_docker_event a c m d = Some x \<Longrightarrow> m d = Some x"
  by (auto simp: on_docker_event_def split: if_splits)

lemma on_docker_event_None: "on_docker_event a c m d \<noteq> None \<Longrightarrow> m d \<noteq> None"
  using on_docker_event_le [of a c m d] by auto

lemma in_remove1: "x \<in> set (remove1 y xs) \<Longrightarrow> x \<in> set xs"
  using set_remove1_subset [of y xs] by blast

lemma remove1_other: "x \<noteq> y \<Longrightarrow> x \<in> set (remove1 y xs) \<longleftrightarrow> x \<in> set xs"
  by (induction xs) auto

lemma nets_in_timeI:
  assumes "nets_in_time s" and "os_now s' = os_now s"
    and "\<And>t. t \<in> set (os_tasks s') \<Longrightarrow>
      t \<in> set (os_tasks s) \<or> (\<exists>c req. t = Launch c req) \<or> (\<exists>c. t = Net c (os_now s + NET_SECS))"
  shows "nets_in_time s'"
  using assms(1) assms(3) [of "Net c due" for c due] unfolding nets_in_time_def assms(2) by fastforce

lemma step_tasksI:
  assumes "os_tasks s' = ys @ ts" and "set ys \<subseteq> set (os_tasks s)"
    and "\<forall>t \<in> set ts. (\<exists>c req. t = Launch c req) \<or> (\<exists>c. t = Net c (os_now s + NET_SECS))"
  shows "\<exists>ys ts. os_tasks s' = ys @ ts \<and> set ys \<subseteq> set (os_tasks s) \<and>
    (\<forall>t \<in> set ts. (\<exists>c req. t = Launch c req) \<or> (\<exists>c. t = Net c (os_now s + NET_SECS)))"
  using assms by blast

lemma ops_step_tasks:
  assumes "ops_step e s = Some s'"
  shows "\<exists>ys ts. os_tasks s' = ys @ ts \<and> set ys \<subseteq> set (os_tasks s) \<and>
    (\<forall>t \<in> set ts. (\<exists>c req. t = Launch c req) \<or> (\<exists>c. t = Net c (os_now s + NET_SECS)))"
proof (cases e)
  case (Request req c)
  then have "os_tasks s' = os_tasks s @ [Launch c req]" using assms by auto
  then show ?thesis by (rule step_tasksI) (simp_all add: set_remove1_subset)
next
  case (Spawned c req)
  then have "os_tasks s' = remove1 (Launch c req) (os_tasks s) @ [Net c (os_now s + NET_SECS)]"
    using assms by (auto split: if_splits)
  then show ?thesis by (rule step_tasksI) (simp_all add: set_remove1_subset)
next
  case (SpawnFailed c req)
  then have "os_tasks s' = remove1 (Launch c req) (os_tasks s) @ []" using assms by (auto split: if_splits)
  then show ?thesis by (rule step_tasksI) (simp_all add: set_remove1_subset)
next
  case (NetFires c due)
  then have "os_tasks s' = remove1 (Net c due) (os_tasks s) @ []" using assms by (auto split: if_splits)
  then show ?thesis by (rule step_tasksI) (simp_all add: set_remove1_subset)
next
  case (DockerEvent a c)
  then have "os_tasks s' = os_tasks s @ []" using assms by auto
  then show ?thesis by (rule step_tasksI) (simp_all add: set_remove1_subset)
next
  case (RollbackBegins c)
  then have "os_tasks s' = os_tasks s @ []" using assms by (auto split: if_splits)
  then show ?thesis by (rule step_tasksI) (simp_all add: set_remove1_subset)
next
  case (RollbackEnds c)
  then have "os_tasks s' = os_tasks s @ []" using assms by (auto split: if_splits)
  then show ?thesis by (rule step_tasksI) (simp_all add: set_remove1_subset)
next
  case Tick
  then have "os_tasks s' = os_tasks s @ []" using assms by (auto split: if_splits)
  then show ?thesis by (rule step_tasksI) (simp_all add: set_remove1_subset)
qed

lemma nets_in_time_step:
  assumes "nets_in_time s" and "ops_step e s = Some s'"
  shows "nets_in_time s'"
proof (cases "e = Tick")
  case True
  with assms have "s' = s\<lparr>os_now := Suc (os_now s)\<rparr>"
    and "\<And>c due. Net c due \<in> set (os_tasks s) \<Longrightarrow> os_now s < due"
    by (auto split: if_splits simp: not_le)
  with assms(1) show ?thesis by (fastforce simp: nets_in_time_def)
next
  case False
  with assms(2) have "os_now s' = os_now s" by (cases e) (auto split: if_splits)
  moreover have "t \<in> set (os_tasks s) \<or> (\<exists>c req. t = Launch c req) \<or> (\<exists>c. t = Net c (os_now s + NET_SECS))"
    if "t \<in> set (os_tasks s')" for t
    using ops_step_tasks [OF assms(2)] that by (metis Un_iff set_append subsetD)
  ultimately show ?thesis by (rule nets_in_timeI [OF assms(1)])
qed

lemma marks_rolling_step:
  assumes "marks_rolling s" and "ops_step e s = Some s'"
  shows "marks_rolling s'"
proof (cases e)
  case (DockerEvent a c)
  then have s': "os_ops s' = on_docker_event a c (os_ops s)" "os_rolling s' = os_rolling s"
    using assms(2) by auto
  from assms(1) on_docker_event_le [of a c "os_ops s"] show ?thesis
    unfolding marks_rolling_def s' by blast
next
  case (RollbackEnds c)
  then have s': "os_ops s' = (os_ops s)(c := None)" "os_rolling s' = remove1 c (os_rolling s)"
    using assms(2) by (auto split: if_splits)
  from assms(1) show ?thesis unfolding marks_rolling_def s' by (auto split: if_splits)
next
  case (Request req c)
  then have s': "os_ops s' = (os_ops s)(c \<mapsto> op_label req)" "os_rolling s' = os_rolling s"
    using assms(2) by auto
  from assms(1) show ?thesis unfolding marks_rolling_def s' by (auto split: if_splits)
next
  case (RollbackBegins c)
  then have s': "os_ops s' = (os_ops s)(c \<mapsto> ''rolling_back'')" "os_rolling s' = c # os_rolling s"
      "c \<notin> set (os_rolling s)"
    using assms(2) by (auto split: if_splits)
  from assms(1) show ?thesis unfolding marks_rolling_def s'(1,2) using s'(3) by (auto split: if_splits)
next
  case (Spawned c req)
  then have s': "os_ops s' = os_ops s" "os_rolling s' = os_rolling s" using assms(2) by (auto split: if_splits)
  from assms(1) show ?thesis unfolding marks_rolling_def s' .
next
  case (SpawnFailed c req)
  then have s': "os_ops s' = (os_ops s)(c := None)" "os_rolling s' = os_rolling s"
    using assms(2) by (auto split: if_splits)
  from assms(1) show ?thesis unfolding marks_rolling_def s' by (auto split: if_splits)
next
  case (NetFires c due)
  then have s': "os_ops s' = (os_ops s)(c := None)" "os_rolling s' = os_rolling s"
    using assms(2) by (auto split: if_splits)
  from assms(1) show ?thesis unfolding marks_rolling_def s' by (auto split: if_splits)
next
  case Tick
  then have s': "os_ops s' = os_ops s" "os_rolling s' = os_rolling s" using assms(2) by (auto split: if_splits)
  from assms(1) show ?thesis unfolding marks_rolling_def s' .
qed

lemma has_clearer_mono:
  assumes "has_clearer s c" and "\<And>t. t \<in> set (os_tasks s) \<Longrightarrow> t \<in> set (os_tasks s')"
    and "set (os_rolling s) \<subseteq> set (os_rolling s')"
  shows "has_clearer s' c"
  using assms unfolding has_clearer_def by blast

lemma has_clearer_done:
  assumes "has_clearer s c" and "os_tasks s' = remove1 t (os_tasks s) @ ts" and "os_rolling s' = os_rolling s"
    and "\<And>req. t \<noteq> Launch c req" and "\<And>due. t \<noteq> Net c due"
  shows "has_clearer s' c"
proof -
  have l: "Launch c req \<in> set (os_tasks s')" if "Launch c req \<in> set (os_tasks s)" for req
    using that assms(2) remove1_other [of "Launch c req" t "os_tasks s"] assms(4) [of req] by simp
  have n: "Net c due \<in> set (os_tasks s')" if "Net c due \<in> set (os_tasks s)" for due
    using that assms(2) remove1_other [of "Net c due" t "os_tasks s"] assms(5) [of due] by simp
  from l n assms(1,3) show ?thesis unfolding has_clearer_def by metis
qed

lemma marks_cleared_step:
  assumes "marks_cleared s" and "ops_step e s = Some s'"
  shows "marks_cleared s'"
  unfolding marks_cleared_def
proof (intro allI impI)
  fix d assume d: "os_ops s' d \<noteq> None"
  have old: "os_ops s d \<noteq> None \<Longrightarrow> has_clearer s d" using assms(1) by (simp add: marks_cleared_def)
  show "has_clearer s' d"
  proof (cases e)
    case (Request req c)
    then have s': "s' = s\<lparr>os_ops := (os_ops s)(c \<mapsto> op_label req), os_tasks := os_tasks s @ [Launch c req]\<rparr>"
      using assms(2) by simp
    show ?thesis
    proof (cases "d = c")
      case True
      then show ?thesis by (simp add: s' has_clearer_def) blast
    next
      case False
      then have "has_clearer s d" using d old by (simp add: s')
      then show ?thesis by (rule has_clearer_mono) (simp_all add: s')
    qed
  next
    case (Spawned c req)
    then have s': "os_tasks s' = remove1 (Launch c req) (os_tasks s) @ [Net c (os_now s + NET_SECS)]"
        "os_rolling s' = os_rolling s" "os_ops s' = os_ops s"
      using assms(2) by (auto split: if_splits)
    show ?thesis
    proof (cases "d = c")
      case True
      then show ?thesis by (simp add: s' has_clearer_def) blast
    next
      case False
      with d old s' show ?thesis by (intro has_clearer_done [OF _ s'(1,2)]) simp_all
    qed
  next
    case (SpawnFailed c req)
    then have s': "os_tasks s' = remove1 (Launch c req) (os_tasks s) @ []"
        "os_rolling s' = os_rolling s" "os_ops s' = (os_ops s)(c := None)"
      using assms(2) by (auto split: if_splits)
    then have "d \<noteq> c" using d by auto
    with d old s' show ?thesis by (intro has_clearer_done [OF _ s'(1,2)]) simp_all
  next
    case (NetFires c due)
    then have s': "os_tasks s' = remove1 (Net c due) (os_tasks s) @ []"
        "os_rolling s' = os_rolling s" "os_ops s' = (os_ops s)(c := None)"
      using assms(2) by (auto split: if_splits)
    then have "d \<noteq> c" using d by auto
    with d old s' show ?thesis by (intro has_clearer_done [OF _ s'(1,2)]) simp_all
  next
    case (DockerEvent a c)
    then have s': "s' = s\<lparr>os_ops := on_docker_event a c (os_ops s)\<rparr>" using assms(2) by simp
    then have "has_clearer s d" using d old on_docker_event_None [of a c "os_ops s" d] by simp
    then show ?thesis by (simp add: s' has_clearer_def)
  next
    case (RollbackBegins c)
    then have s': "s' = s\<lparr>os_ops := (os_ops s)(c \<mapsto> ''rolling_back''), os_rolling := c # os_rolling s\<rparr>"
      using assms(2) by (simp split: if_splits)
    show ?thesis
    proof (cases "d = c")
      case False
      then have "has_clearer s d" using d old by (simp add: s')
      then show ?thesis by (rule has_clearer_mono) (auto simp: s')
    qed (simp add: s' has_clearer_def)
  next
    case (RollbackEnds c)
    then have s': "s' = s\<lparr>os_ops := (os_ops s)(c := None), os_rolling := remove1 c (os_rolling s)\<rparr>"
      using assms(2) by (simp split: if_splits)
    then have "d \<noteq> c" "os_ops s d \<noteq> None" using d by (auto split: if_splits)
    with old show ?thesis by (auto simp: s' has_clearer_def)
  next
    case Tick
    then have s': "s' = s\<lparr>os_now := Suc (os_now s)\<rparr>" using assms(2) by (simp split: if_splits)
    with d old show ?thesis by (simp add: has_clearer_def)
  qed
qed

lemma ops_reach_inv: "ops_reach s \<Longrightarrow> nets_in_time s \<and> marks_cleared s \<and> marks_rolling s"
proof (induction rule: ops_reach.induct)
  case boot
  then show ?case by (simp add: nets_in_time_def marks_cleared_def marks_rolling_def ops_boot_def)
next
  case (step s e s')
  then show ?case
    using nets_in_time_step [OF _ step.hyps(2)] marks_cleared_step [OF _ step.hyps(2)]
      marks_rolling_step [OF _ step.hyps(2)] by blast
qed

section \<open>Correctness\<close>


definition stopping_state :: ops_state where
  "stopping_state = the (ops_run [Request Stop ''codery-paseo-blue''] ops_boot)"


lemma ops_run_append:
  "ops_run (es @ fs) s = (case ops_run es s of None \<Rightarrow> None | Some t \<Rightarrow> ops_run fs t)"
  by (induction es arbitrary: s) (auto split: option.splits)

lemma ops_run_ticks:
  assumes "\<And>c due. Net c due \<in> set (os_tasks s) \<Longrightarrow> os_now s + n \<le> due"
  shows "ops_run (replicate n Tick) s = Some (s\<lparr>os_now := os_now s + n\<rparr>)"
  using assms
proof (induction n arbitrary: s)
  case (Suc n)
  let ?t = "s\<lparr>os_now := Suc (os_now s)\<rparr>"
  have "\<not> (\<exists>c due. Net c due \<in> set (os_tasks s) \<and> due \<le> os_now s)"
    using Suc.prems by fastforce
  then have step: "ops_step Tick s = Some ?t" by auto
  have "ops_run (replicate n Tick) ?t = Some (?t\<lparr>os_now := os_now ?t + n\<rparr>)"
    using Suc.prems by (intro Suc.IH) fastforce
  with step show ?case by simp
qed simp

text \<open>
  The safety net belongs to a request but clears whatever mark the container has. When a container
  is stopped and restarted again within five minutes, the net of the first request removes the mark of
  the second while its child still runs: the console shows no operation in progress, whatever the gap
  between the two requests, and the second request's own net is still pending.
\<close>

theorem older_net_clears_newer_mark:
  assumes "gap < 300"
  shows "\<exists>s t. ops_run
      ([Request Stop c, Spawned c Stop, DockerEvent ''die'' c] @ replicate gap Tick @
       [Request Restart c, Spawned c Restart] @ replicate (300 - gap) Tick) ops_boot = Some s \<and>
    os_ops s c = Some ''restarting'' \<and>
    ops_step (NetFires c 300) s = Some t \<and> os_ops t c = None \<and> Net c (300 + gap) \<in> set (os_tasks t)"
proof -
  let ?s1 = "\<lparr>os_now = 0, os_ops = (\<lambda>_. None), os_tasks = [Net c 300], os_rolling = [],
    os_children = [''docker'' # docker_args Stop @ [c]]\<rparr>"
  let ?s2 = "\<lparr>os_now = gap, os_ops = (\<lambda>_. None)(c \<mapsto> ''restarting''), os_tasks = [Net c 300, Net c (gap + 300)],
    os_rolling = [], os_children = [''docker'' # docker_args Stop @ [c], ''docker'' # docker_args Restart @ [c]]\<rparr>"
  have upd: "((\<lambda>_. None)(c \<mapsto> x))(c := None) = (\<lambda>_. None)" for x :: string by auto
  have a: "ops_run [Request Stop c, Spawned c Stop, DockerEvent ''die'' c] ops_boot = Some ?s1"
    by (simp add: ops_boot_def NET_SECS_def on_docker_event_def upd)
  have b: "ops_run (replicate gap Tick) ?s1 = Some (?s1\<lparr>os_now := gap\<rparr>)"
    using ops_run_ticks [of ?s1 gap] assms by simp
  have c: "ops_run [Request Restart c, Spawned c Restart] (?s1\<lparr>os_now := gap\<rparr>) = Some ?s2"
    by (simp add: NET_SECS_def)
  have d: "ops_run (replicate (300 - gap) Tick) ?s2 = Some (?s2\<lparr>os_now := 300\<rparr>)"
    using ops_run_ticks [of ?s2 "300 - gap"] assms by fastforce
  show ?thesis
    unfolding ops_run_append a option.case b c d
    using assms by (auto simp: add.commute)
qed

lemma older_net_clears_newer_mark_witness:
  "\<exists>s t. os_ops s ''codery-paseo-blue'' = Some ''restarting'' \<and>
     ops_step (NetFires ''codery-paseo-blue'' 300) s = Some t \<and> os_ops t ''codery-paseo-blue'' = None"
proof -
  have "(290 :: nat) < 300" by simp
  from older_net_clears_newer_mark [OF this, of "''codery-paseo-blue''"] show ?thesis by blast
qed

end
