(* ===== verification/Ui_Feed.thy ===== *)
theory Ui_Feed
  imports Ui_Ops Ui_Rollback
begin

text \<open>
  The live status of the deploy console: who builds status lists, in which order they reach the
  broadcast channel, and what the event stream of a client makes of it (\<^verbatim>\<open>get_events\<close>,
  \<^verbatim>\<open>broadcast_status\<close>, \<^verbatim>\<open>run_event_watcher\<close>). Requests, the tasks they spawn, Docker events, the
  outside world and clients run in any order between the steps; one list is asked for in one step.
\<close>

section \<open>Publications and streams\<close>

text \<open>
  Each writer of the operations map owes its clients a status list. It copies the map, asks the engine,
  and sends the answer. The requests send an empty list if the engine does not answer, the task the
  watcher spawns for each event sends nothing, and gives up after five seconds.
\<close>

datatype publisher = Direct | Watcher

datatype publication =
    Owed publisher
  | Copied publisher op_map
  | Built "ui_service_status list"

text \<open>The first answer of a stream is a list of its own; \<open>st_next\<close> is its place in the channel.\<close>

datatype first_answer = Unasked | Asked op_map | Ready "ui_service_status list" | Given

record stream =
  st_from :: nat
  st_next :: nat
  st_first :: first_answer
  st_seen :: "ui_service_status list list"

record 'e feed =
  fd_ops :: ops_state
  fd_world :: "'e world"
  fd_pubs :: "publication list"
  fd_log :: "ui_service_status list list"
  fd_streams :: "stream list"

definition CHANNEL_CAPACITY :: nat where "CHANNEL_CAPACITY = 64"

definition feed_boot :: "'e world \<Rightarrow> 'e feed" where
  "feed_boot w = \<lparr>fd_ops = ops_boot, fd_world = w, fd_pubs = [], fd_log = [], fd_streams = []\<rparr>"

fun publisher_of :: "ops_event \<Rightarrow> publisher option" where
  "publisher_of (Spawned c req) = None"
| "publisher_of Tick = None"
| "publisher_of (DockerEvent action c) = Some Watcher"
| "publisher_of e = Some Direct"

text \<open>The watcher copies the map before it takes the next event.\<close>

fun owed_by_watcher :: "publication \<Rightarrow> bool" where
  "owed_by_watcher (Owed p) \<longleftrightarrow> p = Watcher"
| "owed_by_watcher _ \<longleftrightarrow> False"

section \<open>Receiving\<close>

text \<open>
  A receiver that has fallen behind by more than the capacity continues with the oldest list that is
  still there; \<^verbatim>\<open>Lagged\<close> is skipped. With nothing to receive it waits.
\<close>

definition recv :: "ui_service_status list list \<Rightarrow> stream \<Rightarrow> stream option" where
  "recv log st =
     (let pos = max (st_next st) (length log - CHANNEL_CAPACITY)
      in if pos < length log then Some (st\<lparr>st_next := Suc pos, st_seen := st_seen st @ [log ! pos]\<rparr>) else None)"

definition poll_stream :: "ui_service_status list list \<Rightarrow> stream \<Rightarrow> stream option" where
  "poll_stream log st =
     (case st_first st of
        Ready json \<Rightarrow> Some (st\<lparr>st_first := Given, st_seen := st_seen st @ [json]\<rparr>)
      | Given \<Rightarrow> recv log st
      | _ \<Rightarrow> None)"

section \<open>Steps\<close>

datatype 'e feed_event =
    Writes ops_event
  | World "'e world"
  | Copy nat
  | Build nat
  | TimesOut nat
  | Send nat
  | Open
  | OpenCopy nat
  | OpenBuild nat
  | Poll nat

fun feed_step :: "'e platform \<Rightarrow> 'e feed_event \<Rightarrow> 'e feed \<Rightarrow> 'e feed option" where
  "feed_step K (Writes e) s =
     (if publisher_of e = Some Watcher \<and> list_ex owed_by_watcher (fd_pubs s) then None
      else map_option (\<lambda>t. s\<lparr>fd_ops := t,
             fd_pubs := fd_pubs s @ (case publisher_of e of None \<Rightarrow> [] | Some p \<Rightarrow> [Owed p])\<rparr>)
             (ops_step e (fd_ops s)))"
| "feed_step K (World w) s = Some (s\<lparr>fd_world := w\<rparr>)"
| "feed_step K (Copy i) s =
     (if i < length (fd_pubs s)
      then case fd_pubs s ! i of
             Owed p \<Rightarrow> Some (s\<lparr>fd_pubs := (fd_pubs s)[i := Copied p (os_ops (fd_ops s))]\<rparr>)
           | _ \<Rightarrow> None
      else None)"
| "feed_step K (Build i) s =
     (if i < length (fd_pubs s)
      then case fd_pubs s ! i of
             Copied p ops \<Rightarrow>
               (case build_status K ops (fd_world s) of
                  (Inr json, w) \<Rightarrow> Some (s\<lparr>fd_world := w, fd_pubs := (fd_pubs s)[i := Built json]\<rparr>)
                | (Inl e, w) \<Rightarrow>
                    Some (s\<lparr>fd_world := w, fd_pubs := (case p of
                        Direct \<Rightarrow> (fd_pubs s)[i := Built []]
                      | Watcher \<Rightarrow> take i (fd_pubs s) @ drop (Suc i) (fd_pubs s))\<rparr>))
           | _ \<Rightarrow> None
      else None)"
| "feed_step K (TimesOut i) s =
     (if i < length (fd_pubs s)
      then case fd_pubs s ! i of
             Copied Watcher ops \<Rightarrow> Some (s\<lparr>fd_pubs := take i (fd_pubs s) @ drop (Suc i) (fd_pubs s)\<rparr>)
           | _ \<Rightarrow> None
      else None)"
| "feed_step K (Send i) s =
     (if i < length (fd_pubs s)
      then case fd_pubs s ! i of
             Built json \<Rightarrow> Some (s\<lparr>fd_log := fd_log s @ [json],
               fd_pubs := take i (fd_pubs s) @ drop (Suc i) (fd_pubs s)\<rparr>)
           | _ \<Rightarrow> None
      else None)"
| "feed_step K Open s =
     Some (s\<lparr>fd_streams := fd_streams s @
       [\<lparr>st_from = length (fd_log s), st_next = length (fd_log s), st_first = Unasked, st_seen = []\<rparr>]\<rparr>)"
| "feed_step K (OpenCopy c) s =
     (if c < length (fd_streams s)
      then case st_first (fd_streams s ! c) of
             Unasked \<Rightarrow> Some (s\<lparr>fd_streams := (fd_streams s)[c := (fd_streams s ! c)
               \<lparr>st_first := Asked (os_ops (fd_ops s))\<rparr>]\<rparr>)
           | _ \<Rightarrow> None
      else None)"
| "feed_step K (OpenBuild c) s =
     (if c < length (fd_streams s)
      then case st_first (fd_streams s ! c) of
             Asked ops \<Rightarrow>
               (case build_status K ops (fd_world s) of
                  (r, w) \<Rightarrow> Some (s\<lparr>fd_world := w, fd_streams := (fd_streams s)[c := (fd_streams s ! c)
                    \<lparr>st_first := Ready (case r of Inr json \<Rightarrow> json | Inl _ \<Rightarrow> [])\<rparr>]\<rparr>))
           | _ \<Rightarrow> None
      else None)"
| "feed_step K (Poll c) s =
     (if c < length (fd_streams s)
      then map_option (\<lambda>st. s\<lparr>fd_streams := (fd_streams s)[c := st]\<rparr>) (poll_stream (fd_log s) (fd_streams s ! c))
      else None)"

inductive feed_reach :: "'e platform \<Rightarrow> 'e feed \<Rightarrow> bool" for K where
  boot: "feed_reach K (feed_boot w)"
| step: "feed_reach K s \<Longrightarrow> feed_step K e s = Some s' \<Longrightarrow> feed_reach K s'"

fun feed_run :: "'e platform \<Rightarrow> 'e feed_event list \<Rightarrow> 'e feed \<Rightarrow> 'e feed option" where
  "feed_run K [] s = Some s"
| "feed_run K (e # es) s = (case feed_step K e s of None \<Rightarrow> None | Some t \<Rightarrow> feed_run K es t)"

lemma feed_run_reach: "feed_reach K s \<Longrightarrow> feed_run K es s = Some t \<Longrightarrow> feed_reach K t"
  by (induction es arbitrary: s) (auto split: option.splits intro: feed_reach.step)

section \<open>What a stream delivers\<close>

text \<open>
  The places in the channel a stream has delivered, oldest first: increasing, none before its
  subscription, the last one just before its place; and all of them if it never fell behind.
\<close>

definition delivered :: "ui_service_status list list \<Rightarrow> stream \<Rightarrow> nat list \<Rightarrow> bool" where
  "delivered log st ps \<longleftrightarrow>
     st_from st \<le> st_next st \<and> st_next st \<le> length log \<and> sorted_wrt (<) ps \<and> set ps \<subseteq> {st_from st..<st_next st} \<and>
     (st_from st < st_next st \<longrightarrow> ps \<noteq> [] \<and> last ps = st_next st - 1) \<and>
     (length log \<le> st_from st + CHANNEL_CAPACITY \<longrightarrow> ps = [st_from st..<st_next st]) \<and>
     (if st_first st = Given then \<exists>json. st_seen st = json # map ((!) log) ps
      else st_seen st = [] \<and> st_next st = st_from st)"

definition stream_ok :: "ui_service_status list list \<Rightarrow> stream \<Rightarrow> bool" where
  "stream_ok log st \<longleftrightarrow> (\<exists>ps. delivered log st ps)"

lemma stream_ok_send:
  assumes "stream_ok log st"
  shows "stream_ok (log @ [json]) st"
proof -
  obtain ps where ps: "delivered log st ps" using assms by (auto simp: stream_ok_def)
  then have "map ((!) (log @ [json])) ps = map ((!) log) ps"
    by (intro map_cong refl) (auto simp: delivered_def nth_append)
  with ps show ?thesis by (auto simp: stream_ok_def delivered_def intro!: exI [of _ ps])
qed

lemma recv_ok:
  assumes "stream_ok log st" and "st_first st = Given" and "recv log st = Some st'"
  shows "stream_ok log st'"
proof -
  let ?pos = "max (st_next st) (length log - CHANNEL_CAPACITY)"
  obtain ps where ps: "delivered log st ps" using assms(1) by (auto simp: stream_ok_def)
  have pos: "?pos < length log" and st': "st' = st\<lparr>st_next := Suc ?pos, st_seen := st_seen st @ [log ! ?pos]\<rparr>"
    using assms(3) by (auto simp: recv_def Let_def split: if_splits)
  have near: "?pos = st_next st" if "length log \<le> st_from st + CHANNEL_CAPACITY"
    using ps that by (auto simp: delivered_def)
  have below: "\<forall>x \<in> set ps. x < st_next st" and above: "\<forall>x \<in> set ps. st_from st \<le> x"
    using ps by (auto simp: delivered_def)
  have "delivered log st' (ps @ [?pos])"
    unfolding delivered_def
  proof (intro conjI)
    show "sorted_wrt (<) (ps @ [?pos])"
      using ps below by (auto simp: delivered_def sorted_wrt_append less_max_iff_disj)
    show "set (ps @ [?pos]) \<subseteq> {st_from st'..<st_next st'}"
      using ps below above by (auto simp: delivered_def st' less_Suc_eq less_max_iff_disj)
    show "length log \<le> st_from st' + CHANNEL_CAPACITY \<longrightarrow> ps @ [?pos] = [st_from st'..<st_next st']"
      using near ps by (auto simp: delivered_def st')
    show "if st_first st' = Given then \<exists>json. st_seen st' = json # map ((!) log) (ps @ [?pos])
        else st_seen st' = [] \<and> st_next st' = st_from st'"
      using ps assms(2) by (auto simp: delivered_def st')
  qed (use ps pos in \<open>auto simp: delivered_def st'\<close>)
  then show ?thesis by (auto simp: stream_ok_def)
qed

lemma poll_ok:
  assumes "stream_ok log st" and "poll_stream log st = Some st'"
  shows "stream_ok log st'"
proof (cases "st_first st = Given")
  case True
  then show ?thesis using recv_ok [OF assms(1)] assms(2) by (simp add: poll_stream_def)
next
  case False
  then obtain json where "st' = st\<lparr>st_first := Given, st_seen := st_seen st @ [json]\<rparr>"
    using assms(2) by (auto simp: poll_stream_def split: first_answer.splits)
  then show ?thesis using assms(1) False by (auto simp: stream_ok_def delivered_def)
qed

lemma first_ok:
  "stream_ok log st \<Longrightarrow> st_first st \<noteq> Given \<Longrightarrow> f \<noteq> Given \<Longrightarrow> stream_ok log (st\<lparr>st_first := f\<rparr>)"
  by (auto simp: stream_ok_def delivered_def)

lemma fresh_ok:
  "stream_ok log \<lparr>st_from = length log, st_next = length log, st_first = Unasked, st_seen = []\<rparr>"
  by (auto simp: stream_ok_def delivered_def intro!: exI [of _ "[]"])

lemma streams_update:
  "\<forall>x \<in> set xs. stream_ok log x \<Longrightarrow> stream_ok log y \<Longrightarrow> \<forall>x \<in> set (xs[c := y]). stream_ok log x"
  by (auto dest!: set_update_subset_insert [THEN subsetD])

lemma streams_first:
  assumes "\<forall>x \<in> set xs. stream_ok log x" and "c < length xs" and "st_first (xs ! c) \<noteq> Given" and "f \<noteq> Given"
  shows "\<forall>x \<in> set (xs[c := (xs ! c)\<lparr>st_first := f\<rparr>]). stream_ok log x"
  using assms by (intro streams_update first_ok) (blast | simp)+

lemma feed_streams_ok: "feed_reach K s \<Longrightarrow> \<forall>st \<in> set (fd_streams s). stream_ok (fd_log s) st"
proof (induction rule: feed_reach.induct)
  case (boot w)
  show ?case by (simp add: feed_boot_def)
next
  case (step s e s')
  show ?case
  proof (cases e)
    case (Send i)
    then obtain json where "fd_log s' = fd_log s @ [json]" "fd_streams s' = fd_streams s"
      using step.hyps(2) by (auto split: if_splits publication.splits)
    then show ?thesis using step.IH stream_ok_send by simp
  next
    case Open
    then show ?thesis using step fresh_ok by auto
  next
    case (OpenCopy c)
    then obtain ops where "c < length (fd_streams s)" "st_first (fd_streams s ! c) = Unasked"
        "fd_streams s' = (fd_streams s)[c := (fd_streams s ! c)\<lparr>st_first := Asked ops\<rparr>]" "fd_log s' = fd_log s"
      using step.hyps(2) by (intro that [of "os_ops (fd_ops s)"]) (auto split: if_splits first_answer.splits)
    then show ?thesis using streams_first [OF step.IH, of c "Asked ops"] by simp
  next
    case (OpenBuild c)
    then obtain ops json where "c < length (fd_streams s)" "st_first (fd_streams s ! c) = Asked ops"
        "fd_streams s' = (fd_streams s)[c := (fd_streams s ! c)\<lparr>st_first := Ready json\<rparr>]" "fd_log s' = fd_log s"
      using step.hyps(2) by (auto split: if_splits first_answer.splits prod.splits)
    then show ?thesis using streams_first [OF step.IH, of c "Ready json"] by simp
  next
    case (Poll c)
    then obtain st where "c < length (fd_streams s)" "poll_stream (fd_log s) (fd_streams s ! c) = Some st"
        "fd_streams s' = (fd_streams s)[c := st]" "fd_log s' = fd_log s"
      using step.hyps(2) by (auto split: if_splits)
    then show ?thesis
      using streams_update [OF step.IH poll_ok] step.IH nth_mem by metis
  qed (use step in \<open>auto split: if_splits publication.splits publisher.splits prod.splits sum.splits option.splits\<close>)
qed

section \<open>Correctness\<close>

text \<open>
  C40: An event stream delivers, after a status list of its own, lists of the channel in the order they
  were sent, none twice and none from before it was opened; it misses lists only if more than sixty-four
  were sent since it was opened; and a stream that has nothing left to receive has delivered the last
  list sent. This holds in every interleaving of requests, Docker events, publications and clients.
\<close>

theorem event_stream_in_order:
  assumes "feed_reach K s" and "st \<in> set (fd_streams s)" and "st_first st = Given"
  shows "\<exists>json ps. st_seen st = json # map ((!) (fd_log s)) ps \<and> sorted_wrt (<) ps \<and>
    set ps \<subseteq> {st_from st..<length (fd_log s)} \<and>
    (length (fd_log s) \<le> st_from st + CHANNEL_CAPACITY \<longrightarrow> ps = [st_from st..<st_next st]) \<and>
    (poll_stream (fd_log s) st = None \<longrightarrow> st_from st < length (fd_log s) \<longrightarrow> last (st_seen st) = last (fd_log s))"
proof -
  obtain ps where ps: "delivered (fd_log s) st ps"
    using feed_streams_ok [OF assms(1)] assms(2) by (auto simp: stream_ok_def)
  obtain json where seen: "st_seen st = json # map ((!) (fd_log s)) ps"
    using ps assms(3) by (auto simp: delivered_def)
  have "last (st_seen st) = last (fd_log s)"
    if idle: "poll_stream (fd_log s) st = None" and new: "st_from st < length (fd_log s)"
  proof -
    have "length (fd_log s) \<le> st_next st"
      using idle assms(3) new by (auto simp: poll_stream_def recv_def Let_def CHANNEL_CAPACITY_def split: if_splits)
    then have "st_next st = length (fd_log s)" using ps by (simp add: delivered_def)
    then have "ps \<noteq> []" "last ps = length (fd_log s) - 1" using ps new by (auto simp: delivered_def)
    moreover have "fd_log s \<noteq> []" using new by auto
    ultimately show ?thesis by (simp add: seen last_map) (simp add: last_conv_nth)
  qed
  with ps seen show ?thesis
    by (intro exI [of _ json] exI [of _ ps]) (auto simp: delivered_def)
qed

text \<open>The blue container of the sample host is asked to stop and does.\<close>

abbreviation stop_blue :: string where
  "stop_blue \<equiv> ''codery-paseo-blue''"

lemma tick_code:
  "ops_step Tick s =
     (if list_ex (\<lambda>t. case t of Net c due \<Rightarrow> due \<le> os_now s | _ \<Rightarrow> False) (os_tasks s) then None
      else Some (s\<lparr>os_now := Suc (os_now s)\<rparr>))"
proof -
  have "list_ex (\<lambda>t. case t of Net c due \<Rightarrow> due \<le> os_now s | _ \<Rightarrow> False) (os_tasks s) \<longleftrightarrow>
      (\<exists>c due. Net c due \<in> set (os_tasks s) \<and> due \<le> os_now s)"
    by (auto simp: list_ex_iff split: op_task.splits) (metis op_task.distinct(1) op_task.inject(2) op_task.exhaust)+
  then show ?thesis by simp
qed

lemmas ops_step_code [code] = ops_step.simps(1-7) tick_code

definition overtaken :: "engine feed_event list" where
  "overtaken =
     [Open, OpenCopy 0, OpenBuild 0, Poll 0,
      Writes (Request Stop stop_blue), Copy 0, Build 0, Send 0, Writes (Spawned stop_blue Stop),
      Writes (DockerEvent ''kill'' stop_blue), Copy 0, Build 0,
      World (en_world\<lparr>w_ext := en_set stop_blue (''ghcr.io/coderyoss/codery:paseo-old'', False) (w_ext en_world)\<rparr>),
      Writes (DockerEvent ''die'' stop_blue), Copy 1, Build 1, Send 1, Send 0, Poll 0, Poll 0, Poll 0]"

definition shows_mark :: "string \<Rightarrow> ui_service_status list \<Rightarrow> bool" where
  "shows_mark c json \<longleftrightarrow> list_ex (\<lambda>e. ss_name e = c \<and> ss_operation e = Some ''stopping'') json"

lemma overtaken_run:
  "case feed_run en_platform overtaken (feed_boot en_world) of
     None \<Rightarrow> False
   | Some s \<Rightarrow> length (fd_pubs s) = 0 \<and> os_ops (fd_ops s) stop_blue = None \<and>
       \<not> en_up (w_ext (fd_world s)) stop_blue \<and>
       (case fd_streams s of
          [st] \<Rightarrow> (case st_first st of Given \<Rightarrow> True | _ \<Rightarrow> False) \<and> st_from st < length (fd_log s) \<and>
            Option.is_none (poll_stream (fd_log s) st) \<and> shows_mark stop_blue (last (st_seen st))
        | _ \<Rightarrow> False)"
  by code_simp

lemma overtaken_end:
  obtains s st where "feed_run en_platform overtaken (feed_boot en_world) = Some s" "fd_pubs s = []"
    "os_ops (fd_ops s) stop_blue = None" "\<not> en_up (w_ext (fd_world s)) stop_blue" "fd_streams s = [st]"
    "st_first st = Given" "st_from st < length (fd_log s)" "poll_stream (fd_log s) st = None"
    "shows_mark stop_blue (last (st_seen st))"
  using overtaken_run by (auto simp: Option.is_none_def split: option.splits list.splits first_answer.splits)

text \<open>
  A status list can be overtaken. The watcher builds the list of each Docker event in a task of its
  own and sends it when it is done, so the list of an earlier event can be sent after that of a later
  one: here a container has stopped and its mark is cleared, nothing is left to be sent, and the last list
  that the client gets shows it as still being stopped.
\<close>

theorem stale_status_last:
  "\<exists>s st. feed_run en_platform overtaken (feed_boot en_world) = Some s \<and> fd_pubs s = [] \<and>
     os_ops (fd_ops s) stop_blue = None \<and> \<not> en_up (w_ext (fd_world s)) stop_blue \<and>
     fd_streams s = [st] \<and> poll_stream (fd_log s) st = None \<and> shows_mark stop_blue (last (st_seen st))"
  by (rule overtaken_end) blast

text \<open>The stream of that client.\<close>

lemma event_stream_in_order_witness:
  "\<exists>s st. feed_run en_platform overtaken (feed_boot en_world) = Some s \<and> fd_streams s = [st] \<and>
     last (st_seen st) = last (fd_log s)"
proof (rule overtaken_end)
  fix s st
  assume s: "feed_run en_platform overtaken (feed_boot en_world) = Some s" "fd_streams s = [st]"
    "st_first st = Given" "st_from st < length (fd_log s)" "poll_stream (fd_log s) st = None"
  have "feed_reach en_platform s" by (rule feed_run_reach [OF feed_reach.boot s(1)])
  from event_stream_in_order [OF this _ s(3)] s show ?thesis by auto
qed

end
