(* ===== verification/F64.thy ===== *)
theory F64
  imports Prelude Complex_Main
begin

text \<open>
  Rust's \<^verbatim>\<open>f64\<close>: IEEE 754 binary64 values with rounding to nearest, ties to even, on exact
  rationals. The sign of zero is not kept: no code here observes it. Subnormal numbers and overflow
  to infinity are.
\<close>

datatype f64 = NaN | Infty bool | Fin rat  \<comment> \<open>infinity with its sign, true for negative\<close>

section \<open>Rounding\<close>

definition round_even :: "rat \<Rightarrow> int" where
  "round_even x =
     (let f = \<lfloor>x\<rfloor>; d = x - of_int f
      in if d < 1 / 2 then f else if 1 / 2 < d then f + 1 else if even f then f else f + 1)"

definition pow2 :: "int \<Rightarrow> rat" where
  "pow2 n = (if 0 \<le> n then 2 ^ nat n else 1 / 2 ^ nat (- n))"

fun log2_nat :: "nat \<Rightarrow> nat" where
  "log2_nat n = (if n < 2 then 0 else Suc (log2_nat (n div 2)))"

declare log2_nat.simps [simp del]

text \<open>The binary exponent of a positive rational, and that of the last place of its significand.\<close>

definition exponent :: "rat \<Rightarrow> int" where
  "exponent a =
     (case quotient_of a of (p, q) \<Rightarrow>
        (let n = int (log2_nat (nat p)) - int (log2_nat (nat q)) in if pow2 n \<le> a then n else n - 1))"

definition last_place :: "rat \<Rightarrow> int" where
  "last_place a = max (exponent a - 52) (- 1074)"

definition fround :: "rat \<Rightarrow> f64" where
  "fround x =
     (if x = 0 then Fin 0
      else let e = last_place \<bar>x\<bar>;
               v = of_int (round_even (\<bar>x\<bar> / pow2 e)) * pow2 e
           in if pow2 1024 \<le> v then Infty (x < 0) else Fin (if x < 0 then - v else v))"

section \<open>Operations\<close>

definition f64_of_nat :: "nat \<Rightarrow> f64" where
  "f64_of_nat n = fround (of_nat n)"

fun f64_sub :: "f64 \<Rightarrow> f64 \<Rightarrow> f64" where
  "f64_sub (Fin a) (Fin b) = fround (a - b)"
| "f64_sub (Infty s) (Infty t) = (if s = t then NaN else Infty s)"
| "f64_sub (Infty s) (Fin _) = Infty s"
| "f64_sub (Fin _) (Infty s) = Infty (\<not> s)"
| "f64_sub _ _ = NaN"

fun f64_mul :: "f64 \<Rightarrow> f64 \<Rightarrow> f64" where
  "f64_mul (Fin a) (Fin b) = fround (a * b)"
| "f64_mul (Infty s) (Infty t) = Infty (s \<noteq> t)"
| "f64_mul (Infty s) (Fin b) = (if b = 0 then NaN else Infty (s \<noteq> (b < 0)))"
| "f64_mul (Fin a) (Infty t) = (if a = 0 then NaN else Infty ((a < 0) \<noteq> t))"
| "f64_mul _ _ = NaN"

text \<open>Division by zero: an infinity of the dividend's sign, since no divisor here is a negative zero.\<close>

fun f64_div :: "f64 \<Rightarrow> f64 \<Rightarrow> f64" where
  "f64_div (Fin a) (Fin b) = (if b \<noteq> 0 then fround (a / b) else if a = 0 then NaN else Infty (a < 0))"
| "f64_div (Infty s) (Fin b) = Infty (s \<noteq> (b < 0))"
| "f64_div (Fin _) (Infty _) = Fin 0"
| "f64_div _ _ = NaN"

fun f64_less :: "f64 \<Rightarrow> f64 \<Rightarrow> bool" where
  "f64_less (Fin a) (Fin b) = (a < b)"
| "f64_less (Infty s) (Fin _) = s"
| "f64_less (Fin _) (Infty s) = (\<not> s)"
| "f64_less (Infty s) (Infty t) = (s \<and> \<not> t)"
| "f64_less _ _ = False"

text \<open>\<^verbatim>\<open>f64::max\<close> prefers the number when one argument is not a number.\<close>

definition f64_max :: "f64 \<Rightarrow> f64 \<Rightarrow> f64" where
  "f64_max a b = (if a = NaN then b else if f64_less a b then b else a)"

text \<open>The saturating cast \<^verbatim>\<open>as u64\<close>.\<close>

fun f64_to_u64 :: "f64 \<Rightarrow> u64" where
  "f64_to_u64 NaN = 0"
| "f64_to_u64 (Infty s) = (if s then 0 else - 1)"
| "f64_to_u64 (Fin a) = (if a \<le> 0 then 0 else if 2 ^ 64 \<le> a then - 1 else of_int \<lfloor>a\<rfloor>)"

section \<open>Parsing\<close>

definition lower_char :: "char \<Rightarrow> char" where
  "lower_char c = (if 65 \<le> (of_char c :: nat) \<and> (of_char c :: nat) \<le> 90 then char_of ((of_char c :: nat) + 32) else c)"

definition strip_sign :: "string \<Rightarrow> bool \<times> string" where
  "strip_sign s =
     (case s of [] \<Rightarrow> (False, [])
      | c # cs \<Rightarrow> if c = CHR ''-'' then (True, cs) else if c = CHR ''+'' then (False, cs) else (False, s))"

definition digits_value :: "string \<Rightarrow> nat" where
  "digits_value s = foldl (\<lambda>n c. 10 * n + (of_char c - 48)) 0 s"

definition parse_exponent :: "string \<Rightarrow> int option" where
  "parse_exponent s =
     (case s of
        [] \<Rightarrow> Some 0
      | c # cs \<Rightarrow>
          if c = CHR ''e'' \<or> c = CHR ''E''
          then (let (neg, ds) = strip_sign cs
                in if ds = [] \<or> \<not> list_all is_digit ds then None
                   else Some (if neg then - int (digits_value ds) else int (digits_value ds)))
          else None)"

definition pow10 :: "int \<Rightarrow> rat" where
  "pow10 n = (if 0 \<le> n then 10 ^ nat n else 1 / 10 ^ nat (- n))"

definition parse_f64 :: "string \<Rightarrow> f64 option" where
  "parse_f64 s =
     (let (neg, body) = strip_sign s; word = map lower_char body
      in if word = ''inf'' \<or> word = ''infinity'' then Some (Infty neg)
         else if word = ''nan'' then Some NaN
         else let whole = takeWhile is_digit body; rest = dropWhile is_digit body;
                  frac = (case rest of c # cs \<Rightarrow> if c = CHR ''.'' then takeWhile is_digit cs else [] | [] \<Rightarrow> []);
                  tail = (case rest of c # cs \<Rightarrow> if c = CHR ''.'' then dropWhile is_digit cs else rest | [] \<Rightarrow> [])
              in if whole = [] \<and> frac = [] then None
                 else map_option (\<lambda>e.
                        let v = of_nat (digits_value (whole @ frac)) * pow10 (e - int (length frac))
                        in fround (if neg then - v else v))
                      (parse_exponent tail))"

section \<open>Exactness\<close>

lemma pow2_pos [simp]: "0 < pow2 n"
  by (simp add: pow2_def)

lemma pow2_nonneg [simp]: "pow2 n \<noteq> 0" "0 \<le> pow2 n"
  by (simp_all add: pow2_def)

lemma pow2_int: "pow2 (int n) = 2 ^ n" "pow2 (- int n) = 1 / 2 ^ n"
  by (auto simp: pow2_def)

lemma pow2_powi: "pow2 n = 2 powi n"
  unfolding pow2_def power_int_def
  by (cases "0 \<le> n") (simp_all only: if_True if_False inverse_eq_divide power_one_over simp_thms)

lemma pow2_add: "pow2 (a + b) = pow2 a * pow2 b"
  by (simp add: pow2_powi power_int_add)

lemma pow2_mono: "a \<le> b \<Longrightarrow> pow2 a \<le> pow2 b"
  by (simp add: pow2_powi power_int_increasing)

lemma pow2_less: "pow2 a < pow2 b \<Longrightarrow> a < b"
  using pow2_mono [of b a] by (meson leD leI)

lemma log2_nat_bounds: "0 < n \<Longrightarrow> 2 ^ log2_nat n \<le> n \<and> n < 2 ^ Suc (log2_nat n)"
proof (induction n rule: log2_nat.induct)
  case (1 n)
  show ?case
  proof (cases "n < 2")
    case True
    with 1(2) show ?thesis by (simp add: log2_nat.simps)
  next
    case False
    with 1 have "2 ^ log2_nat (n div 2) \<le> n div 2 \<and> n div 2 < 2 ^ Suc (log2_nat (n div 2))" by simp
    with False show ?thesis by (subst (1 2) log2_nat.simps) auto
  qed
qed

lemma exponent_bounds:
  assumes "0 < a"
  shows "pow2 (exponent a) \<le> a" and "a < pow2 (exponent a + 1)"
proof -
  obtain p q where pq: "quotient_of a = (p, q)" by force
  then have a: "a = of_int p / of_int q" and q: "0 < q"
    by (auto dest: quotient_of_div quotient_of_denom_pos)
  with assms have p: "0 < p" by (simp add: zero_less_divide_iff)
  let ?l = "log2_nat (nat p)" and ?m = "log2_nat (nat q)"
  have P: "(2 :: rat) ^ ?l \<le> of_int p" "(of_int p :: rat) < 2 ^ Suc ?l"
    using log2_nat_bounds [of "nat p"] p by (metis of_nat_le_iff of_nat_less_iff of_nat_nat of_nat_numeral of_nat_power order_less_imp_le zero_less_nat_eq)+
  have Q: "(2 :: rat) ^ ?m \<le> of_int q" "(of_int q :: rat) < 2 ^ Suc ?m"
    using log2_nat_bounds [of "nat q"] q by (metis of_nat_le_iff of_nat_less_iff of_nat_nat of_nat_numeral of_nat_power order_less_imp_le zero_less_nat_eq)+
  let ?n = "int ?l - int ?m"
  have n: "pow2 ?n = 2 ^ ?l / 2 ^ ?m"
    using pow2_add [of "int ?l" "- int ?m"] by (simp add: pow2_int)
  have lower: "pow2 (?n - 1) \<le> a"
  proof -
    have "2 ^ ?l / 2 ^ Suc ?m \<le> (of_int p :: rat) / of_int q"
      using P(1) Q(2) p q by (intro frac_le) simp_all
    moreover have "pow2 (?n - 1) = 2 ^ ?l / 2 ^ Suc ?m"
      using pow2_add [of ?n "- 1"] n by (simp add: pow2_def)
    ultimately show ?thesis using a by simp
  qed
  have upper: "a < pow2 (?n + 1)"
  proof -
    have "(of_int p :: rat) / of_int q < 2 ^ Suc ?l / 2 ^ ?m"
      using P(2) Q(1) p q by (intro frac_less) simp_all
    moreover have "pow2 (?n + 1) = 2 ^ Suc ?l / 2 ^ ?m"
      using pow2_add [of ?n 1] n by (simp add: pow2_def)
    ultimately show ?thesis using a by simp
  qed
  show "pow2 (exponent a) \<le> a" "a < pow2 (exponent a + 1)"
    using lower upper by (auto simp: exponent_def pq Let_def)
qed

lemma round_even_int [simp]: "round_even (of_int n) = n"
  by (simp add: round_even_def)

text \<open>A multiple of a power of two with at most 53 significant bits is not rounded.\<close>

lemma fround_exact:
  assumes "x = of_int m * pow2 e" and "\<bar>m\<bar> < 2 ^ 53" and "- 1074 \<le> e" and "\<bar>x\<bar> < pow2 1024"
  shows "fround x = Fin x"
proof (cases "x = 0")
  case False
  let ?a = "\<bar>x\<bar>"
  have pos: "0 < ?a" using False by simp
  have a: "?a = of_int \<bar>m\<bar> * pow2 e" using assms(1) by (simp add: abs_mult)
  have "?a < pow2 (53 + e)"
  proof -
    have "(of_int \<bar>m\<bar> :: rat) < of_int (2 ^ 53)" using assms(2) by (simp only: of_int_less_iff)
    then have "of_int \<bar>m\<bar> * pow2 e < 2 ^ 53 * pow2 e" by (intro mult_strict_right_mono) simp_all
    then show ?thesis by (simp add: a pow2_add) (simp add: pow2_def)
  qed
  with exponent_bounds(1) [OF pos] have "pow2 (exponent ?a) < pow2 (53 + e)" by (rule le_less_trans)
  from pow2_less [OF this] have le: "last_place ?a \<le> e" using assms(3) by (simp add: last_place_def)
  let ?l = "last_place ?a"
  have "pow2 e = pow2 ?l * pow2 (e - ?l)" by (simp add: pow2_add [symmetric])
  moreover have "pow2 (e - ?l) = 2 ^ nat (e - ?l)" using le by (simp add: pow2_def)
  ultimately have "?a = pow2 ?l * of_int (\<bar>m\<bar> * 2 ^ nat (e - ?l))"
    by (subst a) (simp add: mult.left_commute)
  then have "?a / pow2 ?l = of_int (\<bar>m\<bar> * 2 ^ nat (e - ?l))"
    by (metis nonzero_mult_div_cancel_left pow2_nonneg(1))
  then have "of_int (round_even (?a / pow2 ?l)) * pow2 ?l = ?a"
    by (metis nonzero_eq_divide_eq pow2_nonneg(1) round_even_int)
  with False assms(4) show ?thesis by (auto simp: fround_def Let_def)
qed (simp add: fround_def)

end
