(* ===== verification/Metrics.thy ===== *)
theory Metrics
  imports F64 Platform "HOL-Library.AList"
begin

text \<open>
  \<^verbatim>\<open>host_metrics.rs\<close>: the parsers of the files under \<^verbatim>\<open>/proc\<close> and \<^verbatim>\<open>/sys/fs/cgroup\<close>, the health light,
  the process table and its ranking, and one snapshot with the window state it updates. Numbers are
  binary64 as in the code. A reason of the health light is a constructor with the numbers its text
  prints.
\<close>

section \<open>Memory, pressure and the OOM counter\<close>

record memory_info =
  mm_total :: f64
  mm_available :: f64
  mm_cached :: f64
  mm_buffers :: f64
  mm_swap_total :: f64
  mm_swap_free :: f64

record psi_window =
  pw_avg10 :: f64
  pw_avg60 :: f64
  pw_avg300 :: f64

record psi_resource =
  ps_some :: psi_window
  ps_full :: "psi_window option"

record psi =
  psi_cpu :: psi_resource
  psi_memory :: psi_resource
  psi_io :: psi_resource

definition kb_to_mb :: "f64 \<Rightarrow> f64" where
  "kb_to_mb kb = f64_div kb (Fin 1024)"

fun meminfo_get :: "string \<Rightarrow> string list \<Rightarrow> f64" where
  "meminfo_get key [] = Fin 0"
| "meminfo_get key (line # rest) =
     (case strip_prefix key line of
        None \<Rightarrow> meminfo_get key rest
      | Some value \<Rightarrow>
          kb_to_mb (case split_whitespace (dropWhile (\<lambda>c. c = CHR '':'') value) of
                      [] \<Rightarrow> Fin 0
                    | n # _ \<Rightarrow> (case parse_f64 n of Some v \<Rightarrow> v | None \<Rightarrow> Fin 0)))"

definition parse_meminfo :: "string \<Rightarrow> memory_info" where
  "parse_meminfo text =
     \<lparr>mm_total = meminfo_get ''MemTotal'' (lines text),
      mm_available = meminfo_get ''MemAvailable'' (lines text),
      mm_cached = meminfo_get ''Cached'' (lines text),
      mm_buffers = meminfo_get ''Buffers'' (lines text),
      mm_swap_total = meminfo_get ''SwapTotal'' (lines text),
      mm_swap_free = meminfo_get ''SwapFree'' (lines text)\<rparr>"

text \<open>The parts of a pressure line after the first; a known key with a bad number fails the line.\<close>

fun psi_parts :: "string list \<Rightarrow> psi_window \<Rightarrow> bool \<Rightarrow> psi_window option" where
  "psi_parts [] w seen = (if seen then Some w else None)"
| "psi_parts (part # rest) w seen =
     (case split_once (CHR ''='') part of
        None \<Rightarrow> psi_parts rest w seen
      | Some (k, v) \<Rightarrow>
          if k = ''avg10'' then (case parse_f64 v of None \<Rightarrow> None | Some x \<Rightarrow> psi_parts rest (w\<lparr>pw_avg10 := x\<rparr>) True)
          else if k = ''avg60'' then (case parse_f64 v of None \<Rightarrow> None | Some x \<Rightarrow> psi_parts rest (w\<lparr>pw_avg60 := x\<rparr>) True)
          else if k = ''avg300'' then (case parse_f64 v of None \<Rightarrow> None | Some x \<Rightarrow> psi_parts rest (w\<lparr>pw_avg300 := x\<rparr>) True)
          else psi_parts rest w seen)"

definition parse_psi_line :: "string \<Rightarrow> psi_window option" where
  "parse_psi_line line =
     psi_parts (drop 1 (split_whitespace line)) \<lparr>pw_avg10 = Fin 0, pw_avg60 = Fin 0, pw_avg300 = Fin 0\<rparr> False"

fun pressure_lines ::
  "string list \<Rightarrow> psi_window option \<Rightarrow> psi_window option \<Rightarrow> psi_window option \<times> psi_window option" where
  "pressure_lines [] some whole = (some, whole)"
| "pressure_lines (line # rest) some whole =
     (if starts_with ''some '' line then pressure_lines rest (parse_psi_line line) whole
      else if starts_with ''full '' line then pressure_lines rest some (parse_psi_line line)
      else pressure_lines rest some whole)"

definition parse_pressure :: "string \<Rightarrow> psi_resource option" where
  "parse_pressure text =
     (case pressure_lines (lines text) None None of
        (None, _) \<Rightarrow> None
      | (Some w, whole) \<Rightarrow> Some \<lparr>ps_some = w, ps_full = whole\<rparr>)"

definition parse_u64 :: "string \<Rightarrow> u64 option" where
  "parse_u64 s = map_option of_nat (parse_unsigned (2 ^ 64) s)"

lemma parse_u64_code [code]: "parse_u64 s = map_option of_int (parse_below 18446744073709551616 s)"
  using parse_below_unsigned [of "2 ^ 64" s] by (simp add: parse_u64_def option.map_comp o_def)

fun oom_kill_of :: "string list \<Rightarrow> u64" where
  "oom_kill_of [] = 0"
| "oom_kill_of (line # rest) =
     (case strip_prefix ''oom_kill '' line of
        Some value \<Rightarrow> (case parse_u64 (trim value) of Some n \<Rightarrow> n | None \<Rightarrow> 0)
      | None \<Rightarrow> oom_kill_of rest)"

definition parse_memory_events :: "string \<Rightarrow> u64" where
  "parse_memory_events text = oom_kill_of (lines text)"

section \<open>The health light\<close>

datatype light = Red | Yellow | Green

datatype reason =
    MemAvailable f64
  | SwapGigabytes f64
  | SwapMegabytes f64
  | PressureHigh f64
  | PressureRaised f64 f64
  | OomKill u64
  | PsiUnavailable

record health =
  he_status :: light
  he_reasons :: "reason list"

definition avail_pct :: "memory_info \<Rightarrow> f64" where
  "avail_pct mem = f64_mul (f64_div (mm_available mem) (mm_total mem)) (Fin 100)"

definition swap_used :: "memory_info \<Rightarrow> f64" where
  "swap_used mem = f64_max (f64_sub (mm_swap_total mem) (mm_swap_free mem)) (Fin 0)"

text \<open>The red and the yellow reasons of each source, in the order the code adds them.\<close>

definition memory_reasons :: "memory_info \<Rightarrow> reason list \<times> reason list" where
  "memory_reasons mem =
     (if f64_less (Fin 0) (mm_total mem)
      then if f64_less (avail_pct mem) (Fin 10) then ([MemAvailable (avail_pct mem)], [])
           else if f64_less (avail_pct mem) (Fin 20) then ([], [MemAvailable (avail_pct mem)]) else ([], [])
      else ([], []))"

definition swap_reasons :: "memory_info \<Rightarrow> reason list \<times> reason list" where
  "swap_reasons mem =
     (if f64_less (Fin 0) (mm_swap_total mem)
      then if f64_less (Fin 2048) (swap_used mem) then ([SwapGigabytes (f64_div (swap_used mem) (Fin 1024))], [])
           else if f64_less (Fin 100) (swap_used mem) then ([], [SwapMegabytes (swap_used mem)]) else ([], [])
      else ([], []))"

definition pressure_reasons :: "psi option \<Rightarrow> reason list \<times> reason list" where
  "pressure_reasons p =
     (case p of
        None \<Rightarrow> ([], [])
      | Some x \<Rightarrow>
          let w = ps_some (psi_memory x)
          in if f64_less (Fin 25) (pw_avg10 w) then ([PressureHigh (pw_avg10 w)], [])
             else if f64_less (Fin 10) (pw_avg10 w) \<or> f64_less (Fin 25) (pw_avg60 w)
             then ([], [PressureRaised (pw_avg10 w) (pw_avg60 w)]) else ([], []))"

definition oom_reasons :: "u64 option \<Rightarrow> u64 \<Rightarrow> reason list" where
  "oom_reasons prev cur = (case prev of Some p \<Rightarrow> if p < cur then [OomKill cur] else [] | None \<Rightarrow> [])"

definition derive_health :: "memory_info \<Rightarrow> psi option \<Rightarrow> u64 option \<Rightarrow> u64 \<Rightarrow> health" where
  "derive_health mem p prev_oom cur_oom =
     (let red = fst (memory_reasons mem) @ fst (swap_reasons mem) @ fst (pressure_reasons p) @
                oom_reasons prev_oom cur_oom;
          yellow = snd (memory_reasons mem) @ snd (swap_reasons mem) @ snd (pressure_reasons p);
          notes = (if p = None then [PsiUnavailable] else [])
      in if red \<noteq> [] then \<lparr>he_status = Red, he_reasons = red @ notes\<rparr>
         else if yellow \<noteq> [] then \<lparr>he_status = Yellow, he_reasons = yellow @ notes\<rparr>
         else \<lparr>he_status = Green, he_reasons = notes\<rparr>)"

section \<open>Processes\<close>

record proc_sample =
  pc_pid :: int
  pc_state :: string
  pc_comm :: string
  pc_utime :: u64
  pc_stime :: u64
  pc_rss :: u64
  pc_container :: "string option"

record proc_snapshot =
  sn_wall :: f64
  sn_procs :: "proc_sample list"

record top_process =
  tp_pid :: int
  tp_comm :: string
  tp_rss_mb :: f64
  tp_cpu_pct :: f64
  tp_container :: string
  tp_state :: string

definition parse_i32 :: "string \<Rightarrow> int option" where
  "parse_i32 s = parse_signed (2 ^ 31) s"

text \<open>
  The command name in parentheses is skipped: the text before the first opening parenthesis holds the
  pid, the fields resume after the last closing one. If the latter came first, the text before the
  opening parenthesis would contain it and not parse as a pid, so the slice between the two, which the
  code takes and drops, is never out of order.
\<close>

definition parse_stat :: "string \<Rightarrow> (int \<times> int \<times> string \<times> u64 \<times> u64) option" where
  "parse_stat content =
     (case split_once (CHR ''('') content of
        None \<Rightarrow> None
      | Some (before, _) \<Rightarrow>
          (case rcut_at (CHR '')'') content of
             None \<Rightarrow> None
           | Some (_, back) \<Rightarrow>
               (case parse_i32 (trim before) of
                  None \<Rightarrow> None
                | Some pid \<Rightarrow>
                    let rest = split_whitespace back
                    in if length rest < 13 then None
                       else case parse_i32 (rest ! 1) of
                              None \<Rightarrow> None
                            | Some ppid \<Rightarrow>
                                (case (parse_u64 (rest ! 11), parse_u64 (rest ! 12)) of
                                   (Some utime, Some stime) \<Rightarrow> Some (pid, ppid, rest ! 0, utime, stime)
                                 | _ \<Rightarrow> None))))"

definition parse_statm_rss_bytes :: "string \<Rightarrow> f64 \<Rightarrow> u64" where
  "parse_statm_rss_bytes content page_size =
     (case split_whitespace content of
        _ # r # _ \<Rightarrow>
          (case parse_u64 r of
             Some pages \<Rightarrow> f64_to_u64 (f64_mul (f64_of_nat (unat pages)) page_size)
           | None \<Rightarrow> 0)
      | _ \<Rightarrow> 0)"

definition is_hex :: "char \<Rightarrow> bool" where
  "is_hex c \<longleftrightarrow> is_digit c \<or> (97 \<le> (of_char c :: nat) \<and> (of_char c :: nat) \<le> 102) \<or>
     (65 \<le> (of_char c :: nat) \<and> (of_char c :: nat) \<le> 70)"

fun cgroup_container :: "string list \<Rightarrow> string option" where
  "cgroup_container [] = None"
| "cgroup_container (line # rest) =
     (case cut_at ''docker-'' line of
        None \<Rightarrow> cgroup_container rest
      | Some (_, tail) \<Rightarrow>
          (let cid = takeWhile is_hex tail
           in if length cid = 64 then Some cid else cgroup_container rest))"

definition parse_cgroup_container :: "string \<Rightarrow> string option" where
  "parse_cgroup_container content = cgroup_container (lines content)"

definition text_at :: "fs \<Rightarrow> string \<Rightarrow> string option" where
  "text_at f p = (case read_text f p of Inr t \<Rightarrow> Some t | Inl _ \<Rightarrow> None)"

definition scan_entry :: "fs \<Rightarrow> f64 \<Rightarrow> string \<Rightarrow> proc_sample option" where
  "scan_entry f page path =
     (case parse_i32 (file_name path) of
        None \<Rightarrow> None
      | Some _ \<Rightarrow>
          (case Option.bind (text_at f (path_join path ''stat'')) parse_stat of
             None \<Rightarrow> None
           | Some (pid, ppid, state, utime, stime) \<Rightarrow>
               if ppid = 2 then None
               else Some
                 \<lparr>pc_pid = pid, pc_state = state,
                  pc_comm = trim (case text_at f (path_join path ''comm'') of Some t \<Rightarrow> t | None \<Rightarrow> []),
                  pc_utime = utime, pc_stime = stime,
                  pc_rss = (case text_at f (path_join path ''statm'') of
                              Some t \<Rightarrow> parse_statm_rss_bytes t page | None \<Rightarrow> 0),
                  pc_container = Option.bind (text_at f (path_join path ''cgroup'')) parse_cgroup_container\<rparr>))"

definition scan_processes :: "fs \<Rightarrow> f64 \<Rightarrow> f64 \<Rightarrow> proc_snapshot res" where
  "scan_processes f page now =
     (case read_dir ''/proc'' f of
        Inl e \<Rightarrow> Inl e
      | Inr entries \<Rightarrow> Inr \<lparr>sn_wall = now, sn_procs = List.map_filter (scan_entry f page) entries\<rparr>)"

section \<open>Ranking\<close>

definition saturating_sub :: "u64 \<Rightarrow> u64 \<Rightarrow> u64" where
  "saturating_sub a b = (if b \<le> a then a - b else 0)"

definition cpu_time :: "proc_sample \<Rightarrow> u64" where
  "cpu_time p = pc_utime p + pc_stime p"

definition window_secs :: "proc_snapshot \<Rightarrow> proc_snapshot option \<Rightarrow> f64" where
  "window_secs cur prev =
     f64_max (f64_sub (sn_wall cur) (case prev of Some p \<Rightarrow> sn_wall p | None \<Rightarrow> sn_wall cur)) (fround (1 / 1000))"

text \<open>A process that the previous snapshot did not see counts with a zero delta.\<close>

definition cpu_pct :: "f64 \<Rightarrow> proc_snapshot \<Rightarrow> proc_snapshot option \<Rightarrow> proc_sample \<Rightarrow> f64" where
  "cpu_pct ticks cur prev p =
     (case prev of
        None \<Rightarrow> Fin 0
      | Some s \<Rightarrow>
          let before = (case find (\<lambda>q. pc_pid q = pc_pid p) (sn_procs s) of
                          Some q \<Rightarrow> cpu_time q | None \<Rightarrow> cpu_time p);
              delta = f64_of_nat (unat (saturating_sub (cpu_time p) before))
          in f64_div (f64_mul (f64_div delta ticks) (Fin 100)) (window_secs cur prev))"

text \<open>\<open>containers\<close> lists the entries of the id-to-name map in its iteration order.\<close>

definition container_label :: "(string \<times> string) list \<Rightarrow> string option \<Rightarrow> string" where
  "container_label containers cid =
     (case cid of
        None \<Rightarrow> ''host''
      | Some c \<Rightarrow> (case find (\<lambda>(k, _). starts_with k c \<or> starts_with c k) containers of
                    Some (_, name) \<Rightarrow> name | None \<Rightarrow> ''unknown''))"

definition rss_mb :: "u64 \<Rightarrow> f64" where
  "rss_mb b = f64_div (f64_div (f64_of_nat (unat b)) (Fin 1024)) (Fin 1024)"

definition top_row ::
  "f64 \<Rightarrow> proc_snapshot \<Rightarrow> proc_snapshot option \<Rightarrow> (string \<times> string) list \<Rightarrow> proc_sample \<Rightarrow> top_process" where
  "top_row ticks cur prev containers p =
     \<lparr>tp_pid = pc_pid p, tp_comm = pc_comm p, tp_rss_mb = rss_mb (pc_rss p),
      tp_cpu_pct = cpu_pct ticks cur prev p, tp_container = container_label containers (pc_container p),
      tp_state = pc_state p\<rparr>"

text \<open>The value the rows are ordered by; the resident size is always a number.\<close>

definition fin_value :: "f64 \<Rightarrow> rat" where
  "fin_value x = (case x of Fin q \<Rightarrow> q | _ \<Rightarrow> 0)"

definition top_processes ::
  "f64 \<Rightarrow> proc_snapshot \<Rightarrow> proc_snapshot option \<Rightarrow> (string \<times> string) list \<Rightarrow> nat \<Rightarrow> top_process list" where
  "top_processes ticks cur prev containers n =
     take n (sort_key (\<lambda>r. - fin_value (tp_rss_mb r)) (map (top_row ticks cur prev containers) (sn_procs cur)))"

section \<open>Snapshots\<close>

record host_metrics =
  hm_ts :: u64
  hm_health :: health
  hm_memory :: memory_info
  hm_psi :: "psi option"
  hm_oom_kills :: u64
  hm_top :: "top_process list"

text \<open>The window state that the timer task and the HTTP handlers share.\<close>

record metrics_state =
  ms_prev :: "proc_snapshot option"
  ms_prev_oom :: "u64 option"

definition read_psi :: "fs \<Rightarrow> psi option" where
  "read_psi f =
     (case (text_at f ''/proc/pressure/cpu'', text_at f ''/proc/pressure/memory'', text_at f ''/proc/pressure/io'') of
        (Some c, Some m, Some i) \<Rightarrow>
          (case (parse_pressure c, parse_pressure m, parse_pressure i) of
             (Some c', Some m', Some i') \<Rightarrow> Some \<lparr>psi_cpu = c', psi_memory = m', psi_io = i'\<rparr>
           | _ \<Rightarrow> None)
      | _ \<Rightarrow> None)"

definition container_map :: "container_summary list dk \<Rightarrow> (string \<times> string) list" where
  "container_map listed =
     (case listed of
        Inl _ \<Rightarrow> []
      | Inr cs \<Rightarrow>
          fold (\<lambda>c m. case cs_id c of
                  None \<Rightarrow> m
                | Some i \<Rightarrow> AList.update i
                    (case cs_names c of
                       Some (n # _) \<Rightarrow> dropWhile (\<lambda>x. x = CHR ''/'') n | _ \<Rightarrow> ''unknown'') m) cs [])"

text \<open>The machine as one snapshot sees it: the files, the clock and the two constants of the kernel.\<close>

record machine =
  mc_fs :: fs
  mc_secs :: u64
  mc_wall :: f64
  mc_page :: f64
  mc_ticks :: f64

definition collect ::
  "machine \<Rightarrow> (string \<times> string) list \<Rightarrow> metrics_state \<Rightarrow> host_metrics \<times> metrics_state" where
  "collect mc containers st =
     (let f = mc_fs mc;
          memory = parse_meminfo (case text_at f ''/proc/meminfo'' of Some t \<Rightarrow> t | None \<Rightarrow> []);
          psi = read_psi f;
          oom = (case text_at f ''/sys/fs/cgroup/memory.events'' of Some t \<Rightarrow> parse_memory_events t | None \<Rightarrow> 0);
          snapshot = (case scan_processes f (mc_page mc) (mc_wall mc) of Inr s \<Rightarrow> Some s | Inl _ \<Rightarrow> None);
          top = (case snapshot of
                   Some cur \<Rightarrow> top_processes (mc_ticks mc) cur (ms_prev st) containers 12 | None \<Rightarrow> [])
      in (\<lparr>hm_ts = mc_secs mc, hm_health = derive_health memory psi (ms_prev_oom st) oom,
           hm_memory = memory, hm_psi = psi, hm_oom_kills = oom, hm_top = top\<rparr>,
          \<lparr>ms_prev = snapshot, ms_prev_oom = Some oom\<rparr>))"

text \<open>The HTTP handlers snapshot with an empty container map when Docker cannot be reached.\<close>

definition metrics_snapshot ::
  "'e platform \<Rightarrow> machine \<Rightarrow> metrics_state \<Rightarrow> 'e \<Rightarrow> (host_metrics \<times> metrics_state) \<times> 'e" where
  "metrics_snapshot K mc st e =
     (if pf_connect K e
      then case pf_list_containers K e of (listed, e') \<Rightarrow> (collect mc (container_map listed) st, e')
      else (collect mc [] st, e))"

end
