(* ===== verification/Metrics_Facts.thy ===== *)
theory Metrics_Facts
  imports Metrics
begin

text \<open>
  Facts on the host metrics: exact binary64 arithmetic on counters below \<open>2 ^ 53\<close>, the memory file of
  the kernel read back exactly, the health light of the swap, the process line read back for every
  command name, and the ranking.
\<close>

section \<open>Exact values\<close>

lemma pow2_1024_large: "(2 :: rat) ^ 64 < pow2 1024"
  by (simp add: pow2_def power_strict_increasing)

lemma pow2_m10: "pow2 (- 10) = 1 / 1024" "pow2 (- 20) = 1 / 1048576" "pow2 0 = 1"
  by (simp_all add: pow2_def)

lemma fround_scaled:
  assumes "\<bar>m\<bar> < 2 ^ 53" and "- 20 \<le> e" and "e \<le> 0"
  shows "fround (of_int m * pow2 e) = Fin (of_int m * pow2 e)"
proof (rule fround_exact [OF refl assms(1)])
  show "- 1074 \<le> e" using assms(2) by simp
  have "\<bar>of_int m * pow2 e\<bar> = of_int \<bar>m\<bar> * pow2 e" by (simp add: abs_mult)
  also have "\<dots> \<le> of_int \<bar>m\<bar> * 1"
    using pow2_mono [OF assms(3)] by (intro mult_left_mono) (simp_all add: pow2_m10)
  also have "\<dots> < 2 ^ 53"
    using assms(1) by (metis mult.right_neutral of_int_less_iff of_int_numeral of_int_power)
  also have "(2 :: rat) ^ 53 < 2 ^ 64" by simp
  also have "(2 :: rat) ^ 64 < pow2 1024" by (rule pow2_1024_large)
  finally show "\<bar>of_int m * pow2 e\<bar> < pow2 1024" .
qed

lemma fround_nat: "n < 2 ^ 53 \<Longrightarrow> fround (of_nat n) = Fin (of_nat n)"
  using fround_scaled [of "int n" 0] by (simp add: pow2_m10)

lemma fround_kb:
  assumes "\<bar>m\<bar> < 2 ^ 53"
  shows "fround (of_int m / 1024) = Fin (of_int m / 1024)"
  using fround_scaled [OF assms, of "- 10"] by (simp add: pow2_m10)

lemma kb_to_mb_exact: "n < 2 ^ 53 \<Longrightarrow> kb_to_mb (Fin (of_nat n)) = Fin (of_nat n / 1024)"
  using fround_kb [of "int n"] by (simp add: kb_to_mb_def)

lemma kb_sub_exact:
  assumes "a < 2 ^ 53" and "b < 2 ^ 53"
  shows "f64_sub (Fin (of_nat a / 1024)) (Fin (of_nat b / 1024)) = Fin ((of_nat a - of_nat b) / 1024)"
proof -
  have "int a < 2 ^ 53" "int b < 2 ^ 53" using assms by simp_all
  then have "\<bar>int a - int b\<bar> < 2 ^ 53" by (simp add: abs_if)
  from fround_kb [OF this] show ?thesis by (simp add: diff_divide_distrib)
qed

lemma mb_exact:
  assumes "n < 2 ^ 53"
  shows "fround (of_nat n / 1024) = Fin (of_nat n / 1024)"
    and "fround (of_nat n / 1048576) = Fin (of_nat n / 1048576)"
proof -
  have "\<bar>int n\<bar> < 2 ^ 53" using assms by simp
  from fround_kb [OF this] fround_scaled [OF this, of "- 20"]
  show "fround (of_nat n / 1024) = Fin (of_nat n / 1024)"
    and "fround (of_nat n / 1048576) = Fin (of_nat n / 1048576)"
    by (simp_all add: pow2_m10)
qed

lemma mb_of_nat:
  "n < 2 ^ 53 \<Longrightarrow> f64_div (f64_div (f64_of_nat n) (Fin 1024)) (Fin 1024) = Fin (of_nat n / 1048576)"
  by (simp add: f64_of_nat_def fround_nat mb_exact)

lemma rss_mb_exact: "unat b < 2 ^ 53 \<Longrightarrow> rss_mb b = Fin (of_nat (unat b) / 1048576)"
  unfolding rss_mb_def by (rule mb_of_nat)

section \<open>Reading back a decimal\<close>

lemma digits_value_from:
  "digits_from acc s = Some n \<Longrightarrow> foldl (\<lambda>n c. 10 * n + (of_char c - 48)) acc s = n"
  by (induction s arbitrary: acc) (auto split: if_splits)

lemma digits_value_show_nat [simp]: "digits_value (show_nat n) = n"
  using digits_value_from [OF digits_from_show_nat] by (simp add: digits_value_def)

lemma lower_char_digit: "is_digit c \<Longrightarrow> lower_char c = c"
  by (simp add: lower_char_def is_digit_def)

lemma parse_f64_show_nat: "parse_f64 (show_nat n) = Some (fround (of_nat n))"
proof -
  have all: "\<forall>c \<in> set (show_nat n). is_digit c" using show_nat_digits by blast
  obtain c cs where s: "show_nat n = c # cs" by (cases "show_nat n") auto
  with all have c: "is_digit c" by simp
  then have sgn: "strip_sign (show_nat n) = (False, show_nat n)"
    using s by (auto simp: strip_sign_def is_digit_def)
  have low: "map lower_char (show_nat n) = show_nat n"
    using all lower_char_digit by (simp add: map_idI)
  have word: "show_nat n \<noteq> ''inf''" "show_nat n \<noteq> ''infinity''" "show_nat n \<noteq> ''nan''"
    using c s by (auto simp: is_digit_def)
  have tw: "takeWhile is_digit (show_nat n) = show_nat n" "dropWhile is_digit (show_nat n) = []"
    using all by simp_all
  show ?thesis
    using word by (simp add: parse_f64_def sgn low tw parse_exponent_def pow10_def)
qed

section \<open>The memory file\<close>

text \<open>
  A row of \<^verbatim>\<open>/proc/meminfo\<close>: the key, the number of spaces before the value, the value and whether
  the unit follows.
\<close>

type_synonym mem_row = "string \<times> nat \<times> nat \<times> bool"

definition mem_row_text :: "mem_row \<Rightarrow> string" where
  "mem_row_text row =
     (case row of (k, pad, v, unit) \<Rightarrow>
        k @ '':'' @ replicate pad (CHR '' '') @ show_nat v @ (if unit then '' kB'' else []))"

definition meminfo_text :: "mem_row list \<Rightarrow> string" where
  "meminfo_text rows = concat (map (\<lambda>r. mem_row_text r @ [newline]) rows)"

definition kb_of :: "mem_row list \<Rightarrow> string \<Rightarrow> nat" where
  "kb_of rows key = (case map_of rows key of Some (_, v, _) \<Rightarrow> v | None \<Rightarrow> 0)"

definition meminfo_keys :: "string list" where
  "meminfo_keys = [''MemTotal'', ''MemAvailable'', ''Cached'', ''Buffers'', ''SwapTotal'', ''SwapFree'']"

text \<open>No key extends one that is looked up, as in the kernel's file, and every value is below \<open>2 ^ 53\<close>.\<close>

definition meminfo_ok :: "mem_row list \<Rightarrow> bool" where
  "meminfo_ok rows \<longleftrightarrow>
     list_all (\<lambda>(k, _, v, _). v < 2 ^ 53 \<and> newline \<notin> set k \<and> carriage \<notin> set k \<and>
       list_all (\<lambda>key. starts_with key k \<longrightarrow> k = key) meminfo_keys) rows"

lemma split_whitespace_space: "is_space c \<Longrightarrow> split_whitespace (c # s) = split_whitespace s"
  by (simp add: split_whitespace_def)

lemma split_whitespace_pad: "split_whitespace (replicate n (CHR '' '') @ s) = split_whitespace s"
  by (induction n) (simp_all add: split_whitespace_space is_space_def)

lemma split_whitespace_value:
  "split_whitespace (show_nat v @ (if unit then '' kB'' else [])) = show_nat v # (if unit then [''kB''] else [])"
  using split_whitespace_word [OF show_nat_no_space [of v] show_nat_nonempty]
    split_whitespace_word(2) [of "''kB''"] by (simp add: is_space_def)

lemma drop_colon:
  "dropWhile (\<lambda>c. c = CHR '':'') ('':'' @ replicate pad (CHR '' '') @ show_nat v @ s) =
   replicate pad (CHR '' '') @ show_nat v @ s"
proof (cases pad)
  case 0
  obtain c cs where w: "show_nat v = c # cs" by (cases "show_nat v") auto
  then have "is_digit c" using show_nat_digits [of c v] by simp
  then have "c \<noteq> CHR '':''" by (auto simp: is_digit_def)
  with 0 w show ?thesis by simp
qed simp

lemma other_key:
  assumes "starts_with key k \<longrightarrow> k = key" and "CHR '':'' \<notin> set key" and "k \<noteq> key"
  shows "strip_prefix key (k @ '':'' @ s) = None"
proof (rule ccontr)
  assume "strip_prefix key (k @ '':'' @ s) \<noteq> None"
  then obtain r where "k @ CHR '':'' # s = key @ r" by (auto simp: strip_prefix_Some_iff)
  then obtain us where us: "k = key @ us \<or> k @ us = key \<and> CHR '':'' # s = us @ r"
    by (auto simp: append_eq_append_conv2)
  moreover have "k \<noteq> key @ us"
    using assms(1,3) by (auto simp: starts_with_iff)
  moreover have "us = [] \<or> CHR '':'' \<in> set us" if "CHR '':'' # s = us @ r"
    using that by (cases us) auto
  ultimately show False using assms(2,3) by auto
qed

lemma meminfo_get_rows:
  assumes "meminfo_ok rows" and key: "key \<in> set meminfo_keys"
  shows "meminfo_get key (map mem_row_text rows) = Fin (of_nat (kb_of rows key) / 1024)"
  using assms(1)
proof (induction rows)
  case Nil
  then show ?case by (simp add: kb_of_def)
next
  case (Cons row rows)
  obtain k pad v unit where row: "row = (k, pad, v, unit)" by (cases row)
  from Cons.prems have v: "v < 2 ^ 53" and clash: "starts_with key k \<longrightarrow> k = key" and ok: "meminfo_ok rows"
    using key by (auto simp: meminfo_ok_def row list_all_iff)
  have colon: "CHR '':'' \<notin> set key" using key by (auto simp: meminfo_keys_def)
  show ?case
  proof (cases "k = key")
    case True
    have "strip_prefix key (mem_row_text row) =
      Some ('':'' @ replicate pad (CHR '' '') @ show_nat v @ (if unit then '' kB'' else []))"
      by (simp only: row True mem_row_text_def prod.case strip_prefix_append)
    moreover have "kb_to_mb (fround (of_nat v)) = Fin (of_nat v / 1024)"
      by (simp only: fround_nat [OF v] kb_to_mb_exact [OF v])
    ultimately show ?thesis
      by (simp add: drop_colon [simplified] split_whitespace_pad split_whitespace_value parse_f64_show_nat
            kb_of_def row True)
  next
    case False
    have "strip_prefix key (mem_row_text row) = None"
      unfolding row mem_row_text_def prod.case by (rule other_key [OF clash colon False])
    with Cons.IH [OF ok] False show ?thesis by (simp add: kb_of_def row)
  qed
qed

lemma meminfo_lines: "meminfo_ok rows \<Longrightarrow> lines (meminfo_text rows) = map mem_row_text rows"
proof -
  assume ok: "meminfo_ok rows"
  have "newline \<notin> set (mem_row_text r) \<and> carriage \<notin> set (mem_row_text r)" if "r \<in> set rows" for r
    using ok that show_nat_no_newline
    by (auto simp: meminfo_ok_def list_all_iff mem_row_text_def split: if_splits)
  then show ?thesis using lines_unlines [of "map mem_row_text rows"] by (simp add: meminfo_text_def o_def)
qed

lemma parse_meminfo_rows:
  assumes "meminfo_ok rows"
  shows "parse_meminfo (meminfo_text rows) =
    \<lparr>mm_total = Fin (of_nat (kb_of rows ''MemTotal'') / 1024),
     mm_available = Fin (of_nat (kb_of rows ''MemAvailable'') / 1024),
     mm_cached = Fin (of_nat (kb_of rows ''Cached'') / 1024),
     mm_buffers = Fin (of_nat (kb_of rows ''Buffers'') / 1024),
     mm_swap_total = Fin (of_nat (kb_of rows ''SwapTotal'') / 1024),
     mm_swap_free = Fin (of_nat (kb_of rows ''SwapFree'') / 1024)\<rparr>"
  by (simp only: parse_meminfo_def meminfo_lines [OF assms])
    (simp add: meminfo_get_rows [OF assms] meminfo_keys_def)

section \<open>The health light\<close>

definition swap_used_kb :: "mem_row list \<Rightarrow> nat" where
  "swap_used_kb rows = kb_of rows ''SwapTotal'' - kb_of rows ''SwapFree''"

lemma kb_of_small:
  assumes "meminfo_ok rows"
  shows "kb_of rows key < 2 ^ 53"
proof (cases "map_of rows key")
  case (Some row)
  then have "(key, row) \<in> set rows" by (rule map_of_SomeD)
  with assms Some show ?thesis
    by (cases row) (fastforce simp: kb_of_def meminfo_ok_def list_all_iff)
qed (simp add: kb_of_def)

lemma swap_used_rows:
  assumes "meminfo_ok rows"
  shows "swap_used (parse_meminfo (meminfo_text rows)) = Fin (of_nat (swap_used_kb rows) / 1024)"
proof -
  let ?t = "kb_of rows ''SwapTotal''" and ?f = "kb_of rows ''SwapFree''"
  have sub: "f64_sub (Fin (of_nat ?t / 1024)) (Fin (of_nat ?f / 1024)) = Fin ((of_nat ?t - of_nat ?f) / 1024)"
    by (rule kb_sub_exact) (rule kb_of_small [OF assms])+
  have "f64_max (Fin ((of_nat ?t - of_nat ?f) / 1024)) (Fin 0) = Fin (of_nat (?t - ?f) / 1024)"
  proof (cases "?f \<le> ?t")
    case True
    then show ?thesis by (simp add: f64_max_def of_nat_diff)
  next
    case False
    then have "((of_nat ?t - of_nat ?f) / 1024 :: rat) < 0" by (simp add: divide_neg_pos)
    with False show ?thesis by (simp add: f64_max_def)
  qed
  then show ?thesis
    by (simp only: swap_used_def parse_meminfo_rows [OF assms] memory_info.select_convs sub swap_used_kb_def)
qed

lemma swap_reasons_rows:
  assumes "meminfo_ok rows"
  shows "fst (swap_reasons (parse_meminfo (meminfo_text rows))) \<noteq> [] \<longleftrightarrow> 2097152 < swap_used_kb rows"
    and "snd (swap_reasons (parse_meminfo (meminfo_text rows))) \<noteq> [] \<longleftrightarrow>
      102400 < swap_used_kb rows \<and> swap_used_kb rows \<le> 2097152"
proof -
  have total: "f64_less (Fin 0) (mm_swap_total (parse_meminfo (meminfo_text rows))) \<longleftrightarrow> 0 < kb_of rows ''SwapTotal''"
    by (simp add: parse_meminfo_rows [OF assms])
  have used: "0 < kb_of rows ''SwapTotal''" if "102400 < swap_used_kb rows"
    using that by (simp add: swap_used_kb_def)
  have red: "f64_less (Fin 2048) (Fin (of_nat (swap_used_kb rows) / 1024)) \<longleftrightarrow> 2097152 < swap_used_kb rows"
    and yellow: "f64_less (Fin 100) (Fin (of_nat (swap_used_kb rows) / 1024)) \<longleftrightarrow> 102400 < swap_used_kb rows"
    using of_nat_less_iff [of 2097152 "swap_used_kb rows", where 'a = rat]
      of_nat_less_iff [of 102400 "swap_used_kb rows", where 'a = rat] by (simp_all add: field_simps)
  show "fst (swap_reasons (parse_meminfo (meminfo_text rows))) \<noteq> [] \<longleftrightarrow> 2097152 < swap_used_kb rows"
    and "snd (swap_reasons (parse_meminfo (meminfo_text rows))) \<noteq> [] \<longleftrightarrow>
      102400 < swap_used_kb rows \<and> swap_used_kb rows \<le> 2097152"
    using used by (auto simp: swap_reasons_def swap_used_rows [OF assms] total red yellow)
qed

text \<open>The conditions of the light that do not concern the swap, on the numbers the code compares.\<close>

definition other_red :: "memory_info \<Rightarrow> psi option \<Rightarrow> u64 option \<Rightarrow> u64 \<Rightarrow> bool" where
  "other_red mem p prev cur \<longleftrightarrow>
     f64_less (Fin 0) (mm_total mem) \<and> f64_less (avail_pct mem) (Fin 10) \<or>
     (case p of Some x \<Rightarrow> f64_less (Fin 25) (pw_avg10 (ps_some (psi_memory x))) | None \<Rightarrow> False) \<or>
     (case prev of Some n \<Rightarrow> n < cur | None \<Rightarrow> False)"

definition other_yellow :: "memory_info \<Rightarrow> psi option \<Rightarrow> bool" where
  "other_yellow mem p \<longleftrightarrow>
     f64_less (Fin 0) (mm_total mem) \<and> f64_less (avail_pct mem) (Fin 20) \<or>
     (case p of
        Some x \<Rightarrow> f64_less (Fin 10) (pw_avg10 (ps_some (psi_memory x))) \<or>
                  f64_less (Fin 25) (pw_avg60 (ps_some (psi_memory x)))
      | None \<Rightarrow> False)"

lemma f64_less_bound: "f64_less x (Fin a) \<Longrightarrow> a \<le> b \<Longrightarrow> f64_less x (Fin b)"
  by (cases x) auto

lemma other_red_reasons:
  "other_red mem p prev cur \<longleftrightarrow>
   fst (memory_reasons mem) \<noteq> [] \<or> fst (pressure_reasons p) \<noteq> [] \<or> oom_reasons prev cur \<noteq> []"
  by (auto simp: other_red_def memory_reasons_def pressure_reasons_def oom_reasons_def Let_def
        split: option.splits)

lemma other_yellow_reasons:
  "\<not> other_red mem p prev cur \<Longrightarrow>
   other_yellow mem p \<longleftrightarrow> snd (memory_reasons mem) \<noteq> [] \<or> snd (pressure_reasons p) \<noteq> []"
  by (auto simp: other_red_def other_yellow_def memory_reasons_def pressure_reasons_def Let_def
        split: option.splits)

lemma derive_health_status:
  "he_status (derive_health mem p prev cur) =
   (if other_red mem p prev cur \<or> fst (swap_reasons mem) \<noteq> [] then Red
    else if other_yellow mem p \<or> snd (swap_reasons mem) \<noteq> [] then Yellow else Green)"
  using other_red_reasons [of mem p prev cur] other_yellow_reasons [of mem p prev cur]
  by (auto simp: derive_health_def Let_def)

text \<open>
  C39: The health light computed from a memory file of the kernel is exact about the swap, although it
  is computed in binary floating point: on every file whose values are below \<open>2 ^ 53\<close> kB it is red
  exactly when more than 2 GiB of swap are in use or another red condition holds, yellow exactly when
  it is not red and more than 100 MiB are in use or another yellow condition holds, and otherwise
  green. A free count above the total (which the kernel can report while swap is being removed) counts
  as no swap in use.
\<close>

theorem swap_light_exact:
  assumes "meminfo_ok rows" and "mem = parse_meminfo (meminfo_text rows)"
  shows "he_status (derive_health mem p prev cur) =
    (if other_red mem p prev cur \<or> 2097152 < swap_used_kb rows then Red
     else if other_yellow mem p \<or> 102400 < swap_used_kb rows then Yellow else Green)"
  using swap_reasons_rows [OF assms(1)] by (auto simp: derive_health_status assms(2))

definition sample_meminfo :: "mem_row list" where
  "sample_meminfo =
     [(''MemTotal'', 7, 8388608, True), (''MemFree'', 9, 288100, True), (''MemAvailable'', 4, 4194304, True),
      (''Cached'', 9, 1830220, True), (''SwapCached'', 12, 0, True), (''SwapTotal'', 7, 4194300, True),
      (''SwapFree'', 7, 4091900, True), (''HugePages_Total'', 7, 0, False)]"

text \<open>Exactly 100 MiB of swap in use are still green, one more kilobyte would not be.\<close>

theorem swap_light_exact_witness:
  "he_status (derive_health (parse_meminfo (meminfo_text sample_meminfo)) None (Some 3) 3) = Green \<and>
   swap_used_kb sample_meminfo = 102400"
proof -
  have ok: "meminfo_ok sample_meminfo"
    by (simp add: meminfo_ok_def sample_meminfo_def meminfo_keys_def starts_with_def)
  have kb: "kb_of sample_meminfo ''MemTotal'' = 8388608" "kb_of sample_meminfo ''MemAvailable'' = 4194304"
    and used: "swap_used_kb sample_meminfo = 102400"
    by (simp_all add: kb_of_def swap_used_kb_def sample_meminfo_def)
  have "fround (1 / 2) = Fin (1 / 2)" and "fround 50 = Fin 50"
    using fround_scaled [of 1 "- 1"] fround_nat [of 50] by (simp_all add: pow2_def)
  then have "avail_pct (parse_meminfo (meminfo_text sample_meminfo)) = Fin 50"
    by (simp add: avail_pct_def parse_meminfo_rows [OF ok] kb)
  then have quiet: "\<not> other_red (parse_meminfo (meminfo_text sample_meminfo)) None (Some 3) 3"
    "\<not> other_yellow (parse_meminfo (meminfo_text sample_meminfo)) None"
    by (simp_all add: other_red_def other_yellow_def)
  show ?thesis using swap_light_exact [OF ok refl, of None "Some 3" 3] quiet used by simp
qed

section \<open>The process line\<close>

text \<open>A line of \<^verbatim>\<open>/proc/[pid]/stat\<close>: the pid, the command name in parentheses, then the fields.\<close>

definition stat_text :: "int \<Rightarrow> string \<Rightarrow> string list \<Rightarrow> string" where
  "stat_text pid comm flds = show_int pid @ '' ('' @ comm @ '') '' @ join '' '' flds @ [newline]"

definition plain_word :: "string \<Rightarrow> bool" where
  "plain_word w \<longleftrightarrow> w \<noteq> [] \<and> list_all (\<lambda>c. \<not> is_space c \<and> c \<noteq> CHR '')'') w"

lemma split_whitespace_line:
  assumes "\<forall>w \<in> set ws. w \<noteq> [] \<and> (\<forall>c \<in> set w. \<not> is_space c)"
  shows "split_whitespace (join '' '' ws @ [newline]) = ws"
  using assms
proof (induction ws)
  case (Cons w ws)
  show ?case
  proof (cases ws)
    case Nil
    with Cons.prems words_from_word [of w "[]" "[newline]"] show ?thesis
      by (simp add: split_whitespace_def is_space_def)
  next
    case (Cons y ys)
    with Cons.IH Cons.prems show ?thesis by (simp add: split_whitespace_word)
  qed
qed (simp add: split_whitespace_def is_space_def)

lemma rcut_at_last: "c \<notin> set n \<Longrightarrow> rcut_at c (d @ c # n) = Some (d, n)"
  by (simp add: rcut_at_def)

lemma join_no_paren: "\<forall>w \<in> set ws. c \<notin> set w \<Longrightarrow> c \<noteq> CHR '' '' \<Longrightarrow> c \<notin> set (join '' '' ws)"
proof (induction ws)
  case (Cons w ws)
  then show ?case by (cases ws) auto
qed simp

lemma show_nat_no_paren: "CHR ''('' \<notin> set (show_nat n)" "CHR '')'' \<notin> set (show_nat n)"
  using show_nat_digits by (fastforce simp: is_digit_def)+

lemma show_int_no_paren: "CHR ''('' \<notin> set (show_int n)"
  using show_nat_no_paren by (simp add: show_int_def)

lemma trim_show_int: "trim (show_int i @ '' '') = show_int i"
proof -
  have "\<not> is_space (hd (show_int i))" "\<not> is_space (last (show_int i))"
    using show_int_no_space [of i] hd_in_set [OF show_int_nonempty [of i]] last_in_set [OF show_int_nonempty [of i]]
    by blast+
  then show ?thesis
    by (simp add: trim_def trim_start_id trim_end_id trim_end_snoc_space is_space_def)
qed

text \<open>
  The reader of \<^verbatim>\<open>/proc/[pid]/stat\<close> is immune to the command name: whatever text the process has
  chosen as its name (parentheses, spaces, digits, newlines, or text that looks like other fields), the
  pid, the parent, the state and the two CPU times are read back exactly. Only the fields after the
  name must be words without a closing parenthesis, which the kernel guarantees.
\<close>

theorem parse_stat_any_name:
  assumes "list_all plain_word flds" and "13 \<le> length flds"
    and "flds ! 1 = show_int ppid" and "flds ! 11 = show_nat (unat utime)" and "flds ! 12 = show_nat (unat stime)"
    and "- (2 ^ 31) \<le> pid" and "pid < 2 ^ 31" and "- (2 ^ 31) \<le> ppid" and "ppid < 2 ^ 31"
  shows "parse_stat (stat_text pid comm flds) = Some (pid, ppid, flds ! 0, utime, stime)"
proof -
  let ?tl = "CHR '' '' # join '' '' flds @ [newline]"
  have "CHR ''('' \<notin> set (show_int pid @ '' '')" using show_int_no_paren by simp
  from split_once_append [OF this, of "comm @ CHR '')'' # ?tl"]
  have open_at: "split_once (CHR ''('') (stat_text pid comm flds) = Some (show_int pid @ '' '', comm @ CHR '')'' # ?tl)"
    by (simp add: stat_text_def)
  have "CHR '')'' \<notin> set (join '' '' flds)"
    using assms(1) by (intro join_no_paren) (auto simp: list_all_iff plain_word_def)
  then have "CHR '')'' \<notin> set ?tl" by simp
  from rcut_at_last [OF this, of "show_int pid @ '' ('' @ comm"]
  have close_at: "rcut_at (CHR '')'') (stat_text pid comm flds) = Some (show_int pid @ '' ('' @ comm, ?tl)"
    by (simp add: stat_text_def)
  have words: "split_whitespace ?tl = flds"
    using assms(1) split_whitespace_line [of flds]
    by (simp add: split_whitespace_space is_space_def list_all_iff plain_word_def)
  have nums: "parse_i32 (show_int pid) = Some pid" "parse_i32 (show_int ppid) = Some ppid"
    using assms(6-9) by (simp_all add: parse_i32_def parse_signed_show_int)
  have times: "parse_u64 (show_nat (unat t)) = Some t" for t
  proof -
    have "unat t < 2 ^ 64" using unsigned_less [of t] by simp
    then show ?thesis by (simp add: parse_u64_def parse_unsigned_show_nat)
  qed
  show ?thesis
    using assms(2-5) by (simp add: parse_stat_def open_at close_at trim_show_int words nums times)
qed

theorem parse_stat_any_name_witness:
  "parse_stat (stat_text 42 '') 1 (sd-pam) R 2'' [''S'', ''1'', ''0'', ''0'', ''0'', ''0'', ''0'', ''0'', ''0'', ''0'', ''0'', ''70'', ''8'']) =
   Some (42, 1, ''S'', 70, 8)"
proof -
  have num: "show_int 1 = ''1''" "show_nat 70 = ''70''" "show_nat 8 = ''8''"
    by code_simp+
  show ?thesis
    using parse_stat_any_name [of "[''S'', ''1'', ''0'', ''0'', ''0'', ''0'', ''0'', ''0'', ''0'', ''0'', ''0'', ''70'', ''8'']" 1 70 8 42
        "'') 1 (sd-pam) R 2''"]
    by (simp add: num plain_word_def is_space_def)
qed

section \<open>Attribution and ranking\<close>

text \<open>
  The code walks a hash map in an arbitrary order. For full container ids the order does not matter:
  at most one entry is related to the process's id by being a prefix.
\<close>

lemma container_label_map_of:
  assumes "distinct (map fst m)" and "\<forall>(k, _) \<in> set m. length k = length c"
  shows "container_label m (Some c) = (case map_of m c of Some name \<Rightarrow> name | None \<Rightarrow> ''unknown'')"
  using assms
proof (induction m)
  case (Cons e m)
  obtain k name where e: "e = (k, name)" by (cases e)
  with Cons.prems(2) have len: "length k = length c" by auto
  then have "starts_with k c \<or> starts_with c k \<longleftrightarrow> k = c" by (auto simp: starts_with_iff)
  with Cons e show ?case by (auto simp: container_label_def)
qed (simp add: container_label_def)

lemma sort_key_map: "sort_key f (map g xs) = map g (sort_key (\<lambda>x. f (g x)) xs)"
proof -
  have ins: "insort_key f (g x) (map g ys) = map g (insort_key (\<lambda>x. f (g x)) x ys)" for x ys
    by (induction ys) auto
  show ?thesis by (induction xs) (simp_all add: ins sort_key_def)
qed

lemma mb_order:
  "- (of_nat a / 1048576) \<le> (- (of_nat b / 1048576) :: rat) \<longleftrightarrow> b \<le> a"
  "- (of_nat a / 1048576) = (- (of_nat b / 1048576) :: rat) \<longleftrightarrow> a = b"
  by (simp_all add: divide_le_cancel)

text \<open>
  The process table shows the largest processes: for resident sizes below \<open>2 ^ 53\<close> bytes (where
  the conversion to floating point megabytes loses nothing) its rows are exactly the first
  \<open>min n (number of processes)\<close> of an arrangement of all scanned processes by falling resident size in
  bytes, each row built from its process; processes of equal size keep the order of the scan.
\<close>

theorem top_processes_ranked:
  assumes "\<forall>p \<in> set (sn_procs cur). unat (pc_rss p) < 2 ^ 53"
  shows "\<exists>ranked. mset ranked = mset (sn_procs cur) \<and>
    sorted_wrt (\<lambda>p q. pc_rss q \<le> pc_rss p) ranked \<and>
    (\<forall>b. filter (\<lambda>p. pc_rss p = b) ranked = filter (\<lambda>p. pc_rss p = b) (sn_procs cur)) \<and>
    top_processes ticks cur prev containers n = map (top_row ticks cur prev containers) (take n ranked)"
proof -
  let ?f = "\<lambda>p. - fin_value (rss_mb (pc_rss p))"
  let ?ranked = "sort_key ?f (sn_procs cur)"
  have le: "?f p \<le> ?f q \<longleftrightarrow> pc_rss q \<le> pc_rss p" and eq: "?f p = ?f q \<longleftrightarrow> pc_rss p = pc_rss q"
    if "p \<in> set (sn_procs cur)" "q \<in> set (sn_procs cur)" for p q
  proof -
    have "unat (pc_rss p) < 2 ^ 53" "unat (pc_rss q) < 2 ^ 53" using assms that by blast+
    from this [THEN rss_mb_exact] show "?f p \<le> ?f q \<longleftrightarrow> pc_rss q \<le> pc_rss p" and "?f p = ?f q \<longleftrightarrow> pc_rss p = pc_rss q"
      by (simp_all only: fin_value_def f64.case mb_order word_le_nat_alt word_unat_eq_iff)
  qed
  have rows: "top_processes ticks cur prev containers n = map (top_row ticks cur prev containers) (take n ?ranked)"
    by (simp add: top_processes_def sort_key_map take_map top_row_def)
  have "sorted_wrt (\<lambda>p q. ?f p \<le> ?f q) ?ranked"
    using sorted_sort_key [of ?f "sn_procs cur"] by (simp add: sorted_map)
  then have sorted: "sorted_wrt (\<lambda>p q. pc_rss q \<le> pc_rss p) ?ranked"
    by (rule sorted_wrt_mono_rel [rotated]) (simp only: le set_sort)
  have "filter (\<lambda>p. pc_rss p = b) ?ranked = filter (\<lambda>p. pc_rss p = b) (sn_procs cur)" for b
  proof (cases "\<exists>q \<in> set (sn_procs cur). pc_rss q = b")
    case True
    then obtain q where q: "q \<in> set (sn_procs cur)" "pc_rss q = b" by blast
    have same: "filter (\<lambda>p. pc_rss p = b) xs = filter (\<lambda>p. ?f p = ?f q) xs" if "set xs \<subseteq> set (sn_procs cur)" for xs
      using that q(2) eq [OF _ q(1)] by (intro filter_cong) auto
    show ?thesis
      using sort_key_stable [of ?f "?f q" "sn_procs cur"] by (simp add: same)
  qed auto
  with rows sorted show ?thesis by (intro exI [of _ ?ranked]) simp
qed

definition sample_procs :: proc_snapshot where
  "sample_procs =
     \<lparr>sn_wall = Fin 7,
      sn_procs = map (\<lambda>(i, r). \<lparr>pc_pid = i, pc_state = ''S'', pc_comm = ''p'', pc_utime = 0, pc_stime = 0,
        pc_rss = r, pc_container = None\<rparr>) [(1, 4096), (2, 9000), (3, 4096), (4, 9001)]\<rparr>"

theorem top_processes_ranked_witness:
  "\<exists>ranked. mset ranked = mset (sn_procs sample_procs) \<and> sorted_wrt (\<lambda>p q. pc_rss q \<le> pc_rss p) ranked \<and>
    top_processes (Fin 100) sample_procs None [] 2 = map (top_row (Fin 100) sample_procs None []) (take 2 ranked)"
  using top_processes_ranked [of sample_procs "Fin 100" None "[]" 2] by (auto simp: sample_procs_def)

end
