(* ===== verification/Metrics_Hub.thy ===== *)
theory Metrics_Hub
  imports Metrics_Facts Reference_Engine
begin

text \<open>
  The consumers of the host metrics: the timer task of \<^verbatim>\<open>host_metrics.rs\<close>, which broadcasts to the open
  streams, and the two HTTP handlers of \<^verbatim>\<open>ui.rs\<close>, which take a snapshot of their own. All of them
  replace the one shared window state.
\<close>

section \<open>Events\<close>

datatype metrics_event = Tick | GetMetrics nat | OpenStream nat | CloseStream nat

record hub =
  hb_window :: metrics_state
  hb_streams :: "nat list"
  hb_log :: "(nat list \<times> host_metrics) list"  \<comment> \<open>each snapshot and who received it, oldest first\<close>

definition hub_start :: hub where
  "hub_start = \<lparr>hb_window = \<lparr>ms_prev = None, ms_prev_oom = None\<rparr>, hb_streams = [], hb_log = []\<rparr>"

definition deliver :: "nat list \<Rightarrow> host_metrics \<times> metrics_state \<Rightarrow> hub \<Rightarrow> hub" where
  "deliver cs r h = h\<lparr>hb_window := snd r, hb_log := hb_log h @ [(cs, fst r)]\<rparr>"

text \<open>One round of \<^verbatim>\<open>metrics_task\<close>: skipped when Docker cannot be reached.\<close>

definition metrics_tick :: "'e platform \<Rightarrow> machine \<Rightarrow> hub \<times> 'e \<Rightarrow> hub \<times> 'e" where
  "metrics_tick K mc s =
     (case s of (h, e) \<Rightarrow>
        if pf_connect K e
        then case pf_list_containers K e of
               (listed, e') \<Rightarrow> (deliver (hb_streams h) (collect mc (container_map listed) (hb_window h)) h, e')
        else (h, e))"

definition get_metrics :: "'e platform \<Rightarrow> nat \<Rightarrow> machine \<Rightarrow> hub \<times> 'e \<Rightarrow> hub \<times> 'e" where
  "get_metrics K c mc s =
     (case s of (h, e) \<Rightarrow> case metrics_snapshot K mc (hb_window h) e of (r, e') \<Rightarrow> (deliver [c] r h, e'))"

definition get_metrics_stream :: "'e platform \<Rightarrow> nat \<Rightarrow> machine \<Rightarrow> hub \<times> 'e \<Rightarrow> hub \<times> 'e" where
  "get_metrics_stream K c mc s =
     (case get_metrics K c mc s of (h, e) \<Rightarrow> (h\<lparr>hb_streams := c # hb_streams h\<rparr>, e))"

fun hub_step :: "'e platform \<Rightarrow> metrics_event \<times> machine \<Rightarrow> hub \<times> 'e \<Rightarrow> hub \<times> 'e" where
  "hub_step K (Tick, mc) s = metrics_tick K mc s"
| "hub_step K (GetMetrics c, mc) s = get_metrics K c mc s"
| "hub_step K (OpenStream c, mc) s = get_metrics_stream K c mc s"
| "hub_step K (CloseStream c, mc) (h, e) = (h\<lparr>hb_streams := removeAll c (hb_streams h)\<rparr>, e)"

definition hub_run :: "'e platform \<Rightarrow> (metrics_event \<times> machine) list \<Rightarrow> hub \<times> 'e \<Rightarrow> hub \<times> 'e" where
  "hub_run K evs s = fold (hub_step K) evs s"

section \<open>The OOM alarm\<close>

definition reports_oom :: "host_metrics \<Rightarrow> bool" where
  "reports_oom m \<longleftrightarrow> list_ex (\<lambda>r. case r of OomKill _ \<Rightarrow> True | _ \<Rightarrow> False) (he_reasons (hm_health m))"

lemma oom_in_reasons:
  "list_ex (\<lambda>r. case r of OomKill _ \<Rightarrow> True | _ \<Rightarrow> False) (he_reasons (derive_health mem p prev cur)) \<longleftrightarrow>
   (\<exists>n. prev = Some n \<and> n < cur)"
proof -
  have quiet: "\<not> list_ex (\<lambda>r. case r of OomKill _ \<Rightarrow> True | _ \<Rightarrow> False) rs"
    if "rs \<in> {fst (memory_reasons mem), snd (memory_reasons mem), fst (swap_reasons mem), snd (swap_reasons mem),
      fst (pressure_reasons p), snd (pressure_reasons p), if p = None then [PsiUnavailable] else []}" for rs
    using that
    by (auto simp: memory_reasons_def swap_reasons_def pressure_reasons_def Let_def split: option.splits if_splits)
  have alarm: "list_ex (\<lambda>r. case r of OomKill _ \<Rightarrow> True | _ \<Rightarrow> False) (oom_reasons prev cur) \<longleftrightarrow>
    oom_reasons prev cur \<noteq> []" and "oom_reasons prev cur \<noteq> [] \<longleftrightarrow> (\<exists>n. prev = Some n \<and> n < cur)"
    by (auto simp: oom_reasons_def split: option.splits)
  then show ?thesis by (simp add: derive_health_def Let_def quiet)
qed

lemma collect_oom:
  assumes "collect mc cs st = (m, st')"
  shows "ms_prev_oom st' = Some (hm_oom_kills m)"
    and "reports_oom m \<longleftrightarrow> (\<exists>n. ms_prev_oom st = Some n \<and> n < hm_oom_kills m)"
  using assms by (auto simp: collect_def Let_def reports_oom_def oom_in_reasons)

text \<open>The alarms of a log are those of its successive counters, from the baseline before it.\<close>

fun alarms_from :: "u64 option \<Rightarrow> (nat list \<times> host_metrics) list \<Rightarrow> bool" where
  "alarms_from prev [] = True"
| "alarms_from prev ((cs, m) # lg) =
     ((reports_oom m \<longleftrightarrow> (\<exists>n. prev = Some n \<and> n < hm_oom_kills m)) \<and> alarms_from (Some (hm_oom_kills m)) lg)"

definition baseline :: "(nat list \<times> host_metrics) list \<Rightarrow> u64 option" where
  "baseline lg = (if lg = [] then None else Some (hm_oom_kills (snd (last lg))))"

lemma alarms_from_snoc:
  "alarms_from prev (lg @ [(cs, m)]) \<longleftrightarrow>
   alarms_from prev lg \<and>
   (reports_oom m \<longleftrightarrow> (\<exists>n. (if lg = [] then prev else baseline lg) = Some n \<and> n < hm_oom_kills m))"
proof (induction lg arbitrary: prev)
  case (Cons x lg)
  then show ?case by (cases x; cases lg) (auto simp: baseline_def)
qed simp

definition hub_inv :: "hub \<Rightarrow> bool" where
  "hub_inv h \<longleftrightarrow> alarms_from None (hb_log h) \<and> ms_prev_oom (hb_window h) = baseline (hb_log h)"

lemma hub_inv_deliver:
  assumes "hub_inv h" and "collect mc m (hb_window h) = r"
  shows "hub_inv (deliver cs r h)"
  using assms collect_oom [of mc m "hb_window h" "fst r" "snd r"]
  by (auto simp: hub_inv_def deliver_def alarms_from_snoc baseline_def)

lemma hub_inv_streams [simp]: "hub_inv (h\<lparr>hb_streams := ss\<rparr>) = hub_inv h"
  by (simp add: hub_inv_def)

lemma hub_inv_get: "hub_inv h \<Longrightarrow> hub_inv (fst (get_metrics K c mc (h, e)))"
  by (auto simp: get_metrics_def metrics_snapshot_def split: prod.splits intro: hub_inv_deliver)

lemma hub_inv_step: "hub_inv (fst s) \<Longrightarrow> hub_inv (fst (hub_step K x s))"
proof (induction K x s rule: hub_step.induct)
  case (1 K mc s)
  then show ?case by (auto simp: metrics_tick_def split: prod.splits intro: hub_inv_deliver)
next
  case (2 K c mc s)
  then show ?case by (cases s) (simp add: hub_inv_get)
next
  case (3 K c mc s)
  then show ?case
    using hub_inv_get [of "fst s" K c mc "snd s"] by (auto simp: get_metrics_stream_def split: prod.splits)
qed simp

lemma hub_inv_run: "hub_inv (fst s) \<Longrightarrow> hub_inv (fst (hub_run K evs s))"
  unfolding hub_run_def by (induction evs arbitrary: s) (simp_all add: hub_inv_step)

lemma alarms_from_nth:
  "alarms_from prev lg \<Longrightarrow> Suc i < length lg \<Longrightarrow>
   reports_oom (snd (lg ! Suc i)) \<longleftrightarrow> hm_oom_kills (snd (lg ! i)) < hm_oom_kills (snd (lg ! Suc i))"
proof (induction prev lg arbitrary: i rule: alarms_from.induct)
  case (2 prev cs m lg)
  then show ?case
    by (cases i; cases lg) auto
qed simp

text \<open>
  C38: Whatever the order of timer rounds, metric requests and stream openings, a snapshot reports an
  OOM kill exactly when the kernel's counter has risen since the snapshot taken before it, whoever
  received that one; the first snapshot never does. So a rise of the counter is reported by a single
  snapshot: once one consumer has been told, later snapshots at the same counter are silent, also for
  consumers that were never told.
\<close>

theorem oom_alarm_reported_once:
  assumes "hub_run K evs (hub_start, e) = (h, e')" and "i < length (hb_log h)"
  shows "reports_oom (snd (hb_log h ! i)) \<longleftrightarrow>
    0 < i \<and> hm_oom_kills (snd (hb_log h ! (i - 1))) < hm_oom_kills (snd (hb_log h ! i))"
proof -
  have "hub_inv hub_start" by (simp add: hub_inv_def hub_start_def baseline_def)
  then have inv: "alarms_from None (hb_log h)"
    using hub_inv_run [of "(hub_start, e)" K evs] assms(1) by (simp add: hub_inv_def)
  show ?thesis
  proof (cases i)
    case 0
    with inv assms(2) show ?thesis by (cases "hb_log h") auto
  next
    case (Suc k)
    with alarms_from_nth [OF inv, of k] assms(2) show ?thesis by simp
  qed
qed

text \<open>
  A kill between two timer rounds: client 7 polls and is told, the stream that client 3 has open is not,
  nor in any later round.
\<close>

definition oom_machine :: "string \<Rightarrow> machine" where
  "oom_machine n =
     \<lparr>mc_fs = put_file ''/sys/fs/cgroup/memory.events'' (''oom_kill '' @ n @ [newline]) empty_fs,
      mc_secs = 0, mc_wall = Fin 0, mc_page = Fin 4096, mc_ticks = Fin 100\<rparr>"

definition oom_events :: "(metrics_event \<times> machine) list" where
  "oom_events =
     [(OpenStream 3, oom_machine ''0''), (Tick, oom_machine ''0''), (GetMetrics 7, oom_machine ''1''),
      (Tick, oom_machine ''1''), (Tick, oom_machine ''1'')]"

definition oom_log :: "(nat list \<times> host_metrics) list" where
  "oom_log = hb_log (fst (hub_run en_platform oom_events (hub_start, w_ext en_world)))"

lemma oom_log_counters:
  "map (\<lambda>(cs, m). (cs, hm_oom_kills m)) oom_log = [([3], 0), ([3], 0), ([7], 1), ([3], 1), ([3], 1)]"
  by code_simp

theorem oom_alarm_reported_once_witness:
  "map (\<lambda>(cs, m). (cs, reports_oom m)) oom_log = [([3], False), ([3], False), ([7], True), ([3], False), ([3], False)]"
proof -
  obtain h e' where run: "hub_run en_platform oom_events (hub_start, w_ext en_world) = (h, e')" by force
  have len: "length (hb_log h) = 5"
    using arg_cong [OF oom_log_counters, of length] by (simp add: oom_log_def run)
  have nth: "(fst (hb_log h ! i), hm_oom_kills (snd (hb_log h ! i))) =
      [([3], 0), ([3], 0), ([7], 1), ([3], 1), ([3], 1)] ! i" if "i < 5" for i
    using arg_cong [OF oom_log_counters, of "\<lambda>l. l ! i"] that len by (simp add: oom_log_def run case_prod_beta)
  have cell: "(\<lambda>(cs, m). (cs, reports_oom m)) (hb_log h ! i) =
      [([3], False), ([3], False), ([7], True), ([3], False), ([3], False)] ! i" if i: "i < 5" for i
  proof -
    have "i \<in> {0, 1, 2, 3, 4}" using i by auto
    then show ?thesis
      using oom_alarm_reported_once [OF run, of i] nth [OF i] nth [of "i - 1"] i
      by (auto simp: len case_prod_beta)
  qed
  show ?thesis by (rule nth_equalityI) (simp_all add: oom_log_def run len cell)
qed

end
