(* ===== verification/Spec2Isabelle.thy ===== *)
theory Spec2Isabelle
  imports Deploy_Entry Deploy_Trace Deploy_Lock Mcp_Exec Mcp_Reads Availability Cli_Preview Ui_Release Ui_Feed Metrics_Hub
begin

text \<open>
  \<^bold>\<open>The Codery orchestrator\<close>, a model of \<^verbatim>\<open>system/orchestrator/src\<close>.

  \<^bold>\<open>The program.\<close> One host runs container services in two colors. The orchestrator replaces a service
  by starting the color that does not serve, checking it, recording it as the active one and stopping
  the other; Caddy on the host and nginx in the apps container are regenerated from the declarations,
  the database of apps and previews, and the recorded colors. The same binary is a command line, a
  server of MCP tools, a web console, a TCP proxy and a UDP relay.

  \<^bold>\<open>Vocabulary.\<close> \<open>Prelude\<close>: machine words, the part of Rust's string library in use, decimal printing
  and parsing. \<open>Effects\<close>: the error values and the monad \<open>io\<close> of state and errors, with its Hoare
  triples; every effectful function of the source is an \<open>io\<close> value, every \<^verbatim>\<open>?\<close> a bind. \<open>Files\<close>: files
  and directories with denied and full paths. \<open>Platform\<close>: the record \<open>platform\<close> of everything the
  source calls but does not contain (Docker, child processes, sockets, timers, YAML and JSON), each an
  arbitrary transformer of the state of the outside world; a \<open>world\<close> is files, database and that
  state. \<open>Resumption\<close>: programs whose calls are atomic steps, and rely and guarantee judgements on them. \<open>F64\<close>: binary64 arithmetic with rounding, over exact rationals. \<open>Reference_Engine\<close>: a small
  concrete platform on which the witnesses run.

  \<^bold>\<open>Theories and source files.\<close>
  \<^item> \<open>Config\<close>, \<open>State_Files\<close>, \<open>Service_Def\<close>, \<open>Deploy_Lock\<close>: \<^verbatim>\<open>config.rs\<close>, \<^verbatim>\<open>state.rs\<close>, \<^verbatim>\<open>service_def.rs\<close>,
    \<^verbatim>\<open>deploy_lock.rs\<close>.
  \<^item> \<open>Database\<close>, \<open>S6_Bundles\<close>, \<open>S6\<close>: \<^verbatim>\<open>db.rs\<close> (tables, routes; bundle rendering, pruning and sync) and
    \<^verbatim>\<open>s6.rs\<close>.
  \<^item> \<open>Caddy\<close>, \<open>Nginx\<close>, \<open>Images\<close>, \<open>Validate\<close>: \<^verbatim>\<open>caddy.rs\<close>, \<^verbatim>\<open>nginx.rs\<close>, \<^verbatim>\<open>images.rs\<close>, \<^verbatim>\<open>preflight.rs\<close> with
    \<^verbatim>\<open>validate.rs\<close>.
  \<^item> \<open>Deploy\<close> (the trait \<^verbatim>\<open>DeployDeps\<close> as a record, the blue/green core and the locale \<open>deploy_host\<close>),
    \<open>Deploy_Real\<close> (its production implementation), \<open>Deploy_Mock\<close> (the one of the unit tests),
    \<open>Deploy_Contract\<close> (the production host meets the locale), \<open>Deploy_Trace\<close> (order of calls),
    \<open>Deploy_Entry\<close> (entry points and planner), \<open>Deploy_Steps\<close> (the same, cut into atomic calls): \<^verbatim>\<open>deploy.rs\<close>.
    \<open>Fleet\<close>: all processes that hold deploy locks, interleaved.
  \<^item> \<open>Diagnose\<close>: \<^verbatim>\<open>diagnose.rs\<close>. \<open>Mcp_Tools\<close>, \<open>Mcp_Apps\<close>, \<open>Mcp_Reads\<close>: \<^verbatim>\<open>mcp.rs\<close>. \<open>Mcp_Exec\<close>: \<^verbatim>\<open>mcp_exec.rs\<close>. \<open>Proxies\<close>:
    \<^verbatim>\<open>tcp_proxy.rs\<close>, \<^verbatim>\<open>udp_proxy.rs\<close>. \<open>Servers\<close>: \<^verbatim>\<open>daemon.rs\<close> and the \<^verbatim>\<open>serve\<close> functions.
    \<open>Availability\<close>: what clients of the proxies see while operations run.
  \<^item> \<open>Host\<close>, \<open>Host_Frames\<close>: the world with the locks that all processes hold, and what each operation
    leaves alone. \<open>Cli\<close>, \<open>Cli_Frame\<close>, \<open>Cli_Session\<close>, \<open>Cli_Preview\<close>, \<open>Release\<close>: \<^verbatim>\<open>main.rs\<close>. \<open>Ui\<close>, \<open>Ui_Rollback\<close>,
    \<open>Rollback_Steps\<close>, \<open>Ui_Release\<close>, \<open>Ui_Ops\<close>, \<open>Ui_Feed\<close> (the live status): \<^verbatim>\<open>ui.rs\<close>.
  \<^item> \<open>Metrics\<close>, \<open>Metrics_Facts\<close>, \<open>Metrics_Hub\<close>: \<^verbatim>\<open>host_metrics.rs\<close> and the metric handlers of \<^verbatim>\<open>ui.rs\<close>.

  \<^bold>\<open>What the lemmas show.\<close> The locale \<open>deploy_host\<close> states what a deploy needs of its host; inside it the
  recorded color is shown to run at every end of a deploy. \<open>Deploy_Contract\<close> discharges it for the
  production host under \<open>docker_laws\<close>: inspecting, listing, pulling and helper programs change no
  container's running state, and create, start, stop and remove affect the named container only.
  \<open>Host_Frames\<close> lifts this to all services at once. The locales \<open>framed_service\<close> and \<open>framed_apps\<close> of
  \<open>Cli_Frame\<close> carry any property that operations on other services respect through the commands; the
  absence of outages (\<open>Cli_Session\<close>, over every sequence of commands) and the recorded color and tag
  (\<open>Release\<close>, where every command is a step of an abstract release machine) are its two instances;
  \<open>Ui_Release\<close> shows the same of a rollback request.
  \<open>Deploy_Steps\<close> proves, by rely and guarantee through the locale \<open>interference\<close>, that the recorded color
  runs at every point of a deploy and not only at its end, \<open>Rollback_Steps\<close> the same of a console
  rollback; \<open>Fleet\<close> composes the jobs that the locks
  admit, in every interleaving, and shows on a concrete schedule that without the lock it fails.
  \<open>Ui_Rollback\<close> takes the absence of outages to the console, there also under \<open>probe_laws\<close> (a command executed in a container or a
  healthy report means that it runs). Step machines (\<open>Deploy_Lock\<close>, \<open>Mcp_Exec\<close>, \<open>Ui_Ops\<close>, \<open>Ui_Feed\<close>, \<open>Proxies\<close>,
  \<open>Metrics_Hub\<close>, \<open>Servers\<close>) cover the concurrent parts in every interleaving of their atomic steps; their
  invariants are by rule induction. The relay's client table refines an abstract map through the
  locale \<open>session_table\<close>. Generators and parsers have exact inverses or exact characterisations.

  \<^bold>\<open>Bounds.\<close> Retry loops run on the source's own counters, so no fuel is invented; the one loop of the
  source that can run forever, placeholder substitution, is a \<open>partial_function\<close>, with a theorem for
  the inputs on which it ends and one for inputs on which it does not. Ports are 16-bit words that
  wrap, as in the release profile; counters and sizes are 64-bit words.

  \<^bold>\<open>Conventions.\<close> Text is ASCII, one character per byte. Printed output, log lines and the wording of
  messages are not modelled; an error value has one constructor per way of failing. A process that
  exits inside a function is the error \<open>ProcessExit\<close>, a call that never comes back is \<open>DoesNotReturn\<close>.

  \<^bold>\<open>Not modelled.\<close> The HTTP and MCP protocols (\<^verbatim>\<open>axum\<close>, \<^verbatim>\<open>rmcp\<close>): libraries that the source only
  calls. The broadcast channel of the status lists is the log of what was sent, with its capacity. The byte copy of the TCP proxy. The
  tool \<^verbatim>\<open>get_service_schema\<close>, which prints types through \<^verbatim>\<open>schemars\<close>.
  SQLite, the YAML and JSON parsers and the Docker engine are parameters. The web page, container
  images and scripts are not Rust. A request dropped by its client half way is not covered. In
  \<open>Fleet\<close> a call is atomic, so two deploys of different services do not mix the bytes of the proxy files
  they both regenerate, and a killed process stops between two calls.
\<close>

end
